(* ===== verification/Prelude.thy ===== *)
theory Prelude
  imports Main "HOL-Library.Word"
begin

text \<open>
  What the components share: bytes and byte strings (Go's \<open>uint8\<close> and \<open>[]byte\<close> /
  \<open>string\<close>), the byte classes that the Ragel grammars use, Go slices with their run-time bound
  checks as an option, and the lemma collections \<open>byte_class\<close> and \<open>slice_simps\<close>.
\<close>

section \<open>Lemma collections\<close>

named_theorems byte_class \<open>unfolds the byte classes of common.rl into comparisons\<close>
named_theorems slice_simps \<open>evaluates Go slice expressions that are within bounds\<close>

section \<open>Bytes and byte strings\<close>

type_synonym byte = "8 word"
type_synonym bytes = "8 word list"

text \<open>A Go string literal: the bytes of its UTF-8 encoding (all literals used here are ASCII).\<close>

definition lit :: "string \<Rightarrow> bytes" where
  "lit s = map of_char s"

lemma lit_Nil [simp]: "lit [] = []"
  by (simp add: lit_def)

lemma lit_Cons [simp]: "lit (c # s) = of_char c # lit s"
  by (simp add: lit_def)

text \<open>Byte ranges as the generated machines test them: \<open>lo <= b && b <= hi\<close>.\<close>

definition in_range :: "byte \<Rightarrow> byte \<Rightarrow> byte \<Rightarrow> bool" where
  "in_range lo hi b \<longleftrightarrow> lo \<le> b \<and> b \<le> hi"

definition is_digit :: "byte \<Rightarrow> bool" where
  [byte_class]: "is_digit b \<longleftrightarrow> 48 \<le> b \<and> b \<le> 57"

definition is_nonzero_digit :: "byte \<Rightarrow> bool" where
  [byte_class]: "is_nonzero_digit b \<longleftrightarrow> 49 \<le> b \<and> b \<le> 57"

text \<open>Ragel's \<open>graph\<close>: the visible ASCII characters.\<close>

definition is_graph :: "byte \<Rightarrow> bool" where
  [byte_class]: "is_graph b \<longleftrightarrow> 33 \<le> b \<and> b \<le> 126"

declare in_range_def [byte_class]

lemma is_nonzero_digit_digit [intro]: "is_nonzero_digit b \<Longrightarrow> is_digit b"
  by (auto simp: byte_class word_le_nat_alt)

lemma space_not_graph [simp]: "\<not> is_graph 32"
  by (simp add: byte_class)

lemma graph_not_space: "is_graph b \<Longrightarrow> b \<noteq> 32"
  by (auto simp: byte_class)

section \<open>Slices\<close>

text \<open>
  \<open>data[lo:hi]\<close>. Go panics unless \<open>0 <= lo <= hi <= cap(data)\<close>; the model asks for
  \<open>hi <= len(data)\<close>, which is what every slice of the program satisfies. \<open>None\<close> is the panic.
\<close>

definition gslice :: "'a list \<Rightarrow> nat \<Rightarrow> nat \<Rightarrow> 'a list option" where
  "gslice xs lo hi = (if lo \<le> hi \<and> hi \<le> length xs then Some (take (hi - lo) (drop lo xs)) else None)"

text \<open>\<open>data[i]\<close>, a panic out of range.\<close>

definition gindex :: "'a list \<Rightarrow> nat \<Rightarrow> 'a option" where
  "gindex xs i = (if i < length xs then Some (xs ! i) else None)"

lemma slice_Some [slice_simps]:
  "lo \<le> hi \<Longrightarrow> hi \<le> length xs \<Longrightarrow> gslice xs lo hi = Some (take (hi - lo) (drop lo xs))"
  by (simp add: gslice_def)

lemma slice_append [slice_simps]:
  "gslice (pre @ xs @ post) (length pre) (length pre + length xs) = Some xs"
  by (simp add: gslice_def)

lemma slice_length: "gslice xs lo hi = Some ys \<Longrightarrow> length ys = hi - lo"
  by (auto simp: gslice_def split: if_splits)

lemma slice_defined: "(\<exists>ys. gslice xs lo hi = Some ys) \<longleftrightarrow> lo \<le> hi \<and> hi \<le> length xs"
  by (auto simp: gslice_def)

lemma index_Some [slice_simps]: "i < length xs \<Longrightarrow> gindex xs i = Some (xs ! i)"
  by (simp add: gindex_def)

lemma index_append [slice_simps]: "gindex (pre @ x # post) (length pre) = Some x"
  by (simp add: gindex_def)

lemma drop_eq_Cons_index: "drop i xs = y # ys \<Longrightarrow> gindex xs i = Some y"
  by (metis drop_all gindex_def linorder_not_le list.discI nth_via_drop)

end
