(* ===== verification/Common.thy ===== *)
theory Common
  imports Prelude
begin

text \<open>
  Package \<open>common\<close> (common/functions.go, common/facility.go, common/severity.go): the decimal
  conversion of a digit string, the removal of bytes at recorded positions, the escaping of
  structured-data values, the range checks, and the facility and severity tables.
\<close>

section \<open>Decimal conversion\<close>

text \<open>
  \<open>UnsafeUTF8DecimalCodePointsToInt\<close> runs from the last byte to the first with a 64-bit
  \<open>int\<close> accumulator and power of ten, both of which wrap around. The list is the reversed slice.
\<close>

fun decimal_loop :: "bytes \<Rightarrow> 64 word \<Rightarrow> 64 word \<Rightarrow> 64 word" where
  "decimal_loop [] out ord = out"
| "decimal_loop (c # cs) out ord = decimal_loop cs (out + (ucast c - 48) * ord) (ord * 10)"

definition UnsafeUTF8DecimalCodePointsToInt :: "bytes \<Rightarrow> 64 word" where
  "UnsafeUTF8DecimalCodePointsToInt chars = decimal_loop (rev chars) 0 1"

text \<open>The value of a digit string, as a natural number.\<close>

fun dec_value :: "bytes \<Rightarrow> nat \<Rightarrow> nat" where
  "dec_value [] acc = acc"
| "dec_value (c # cs) acc = dec_value cs (10 * acc + (unat c - 48))"

lemma dec_value_append: "dec_value (xs @ ys) acc = dec_value ys (dec_value xs acc)"
  by (induction xs arbitrary: acc) auto

lemma dec_value_acc: "dec_value xs acc = acc * 10 ^ length xs + dec_value xs 0"
proof (induction xs arbitrary: acc)
  case Nil
  then show ?case by simp
next
  case (Cons x xs)
  show ?case
    using Cons.IH [of "10 * acc + (unat x - 48)"] Cons.IH [of "unat x - 48"]
    by (simp add: algebra_simps)
qed

lemma dec_value_bound:
  "list_all is_digit xs \<Longrightarrow> dec_value xs 0 < 10 ^ length xs"
proof (induction xs)
  case Nil
  then show ?case by simp
next
  case (Cons x xs)
  then have "unat x - 48 \<le> 9"
    by (auto simp: byte_class word_le_nat_alt)
  then have "(unat x - 48) * 10 ^ length xs \<le> 9 * 10 ^ length xs"
    by (rule mult_right_mono) simp
  moreover have "dec_value xs 0 < 10 ^ length xs"
    using Cons by simp
  ultimately have "(unat x - 48) * 10 ^ length xs + dec_value xs 0 < 10 * 10 ^ length xs"
    by linarith
  then show ?case
    using dec_value_acc [of xs "unat x - 48"] by simp
qed

lemma ucast_digit:
  assumes "is_digit c"
  shows "(ucast c - 48 :: 64 word) = of_nat (unat c - 48)"
proof -
  from assms have "48 \<le> unat c"
    by (simp add: byte_class word_le_nat_alt)
  then have "(of_nat (unat c) :: 64 word) = of_nat (unat c - 48) + 48"
    by (metis le_add_diff_inverse2 of_nat_add of_nat_numeral)
  then show ?thesis
    by simp
qed

lemma decimal_loop_value:
  "list_all is_digit cs \<Longrightarrow>
    decimal_loop cs out ord = out + ord * of_nat (dec_value (rev cs) 0)"
proof (induction cs arbitrary: out ord)
  case Nil
  then show ?case by simp
next
  case (Cons c cs)
  then have c: "(ucast c - 48 :: 64 word) = of_nat (unat c - 48)"
    by (simp add: ucast_digit)
  from Cons.prems have "decimal_loop cs (out + of_nat (unat c - 48) * ord) (ord * 10) =
      out + of_nat (unat c - 48) * ord + (ord * 10) * of_nat (dec_value (rev cs) 0)"
    by (intro Cons.IH) simp
  then show ?case
    by (simp only: decimal_loop.simps c) (simp add: dec_value_append algebra_simps)
qed

lemma decimal_of_digits:
  "list_all is_digit cs \<Longrightarrow> UnsafeUTF8DecimalCodePointsToInt cs = of_nat (dec_value cs 0)"
  by (simp add: UnsafeUTF8DecimalCodePointsToInt_def decimal_loop_value)

section \<open>Removing bytes at positions\<close>

text \<open>
  The loop of \<open>RemoveBytes\<close>: the \<open>i\<close>-th recorded position has moved by the \<open>i\<close> bytes
  already removed. \<open>None\<close> is the slice-bounds panic.
\<close>

fun remove_loop :: "bytes \<Rightarrow> nat list \<Rightarrow> nat \<Rightarrow> nat \<Rightarrow> bytes option" where
  "remove_loop cp [] i offset = Some cp"
| "remove_loop cp (pos # positions) i offset =
     (let at = int pos - int i - int offset in
      if 0 \<le> at \<and> nat at < length cp
      then remove_loop (take (nat at) cp @ drop (nat at + 1) cp) positions (i + 1) offset
      else None)"

definition RemoveBytes :: "bytes \<Rightarrow> nat list \<Rightarrow> nat \<Rightarrow> bytes option" where
  "RemoveBytes data positions offset = remove_loop data positions 0 offset"

lemma remove_loop_nths:
  "sorted_wrt (<) ps \<Longrightarrow> \<forall>x\<in>set ps. offset + i \<le> x \<and> x < offset + i + length cp \<Longrightarrow>
    remove_loop cp ps i offset = Some (nths cp {j. offset + i + j \<notin> set ps})"
proof (induction ps arbitrary: cp i)
  case Nil
  then show ?case by (simp add: nths_all)
next
  case (Cons x ps)
  define k where "k = x - i - offset"
  from Cons.prems have k: "k < length cp" "offset + i + k = x"
    by (auto simp: k_def)
  then have at: "nat (int x - int i - int offset) = k"
    by linarith
  have gt: "offset + i + k < y" if "y \<in> set ps" for y
    using that Cons.prems(1) k by simp
  let ?cp = "take k cp @ drop (k + 1) cp"
  have "remove_loop ?cp ps (i + 1) offset = Some (nths ?cp {j. offset + (i + 1) + j \<notin> set ps})"
    using Cons.prems k gt by (intro Cons.IH) (force simp: Suc_le_eq)+
  moreover have "nths ?cp {j. offset + (i + 1) + j \<notin> set ps} =
      nths (take k cp @ cp ! k # drop (k + 1) cp) {j. offset + i + j \<notin> set (x # ps)}"
  proof -
    have low: "nths (take k cp) {j. offset + (i + 1) + j \<notin> set ps} = take k cp"
      "nths (take k cp) {j. offset + i + j \<notin> set (x # ps)} = take k cp"
      using gt k by (intro nths_all; force)+
    have high: "{j. j + k \<in> {j. offset + (i + 1) + j \<notin> set ps}} =
        {j. Suc j \<in> {j. j + k \<in> {j. offset + i + j \<notin> set (x # ps)}}}"
      using k by (auto simp: algebra_simps)
    show ?thesis
      using low high k by (simp add: nths_append nths_Cons min_def)
  qed
  ultimately show ?case
    using at k id_take_nth_drop [OF k(1)] by (simp add: Let_def)
qed

section \<open>Escaping\<close>

text \<open>
  The number of bytes of the UTF-8 encoded rune that starts the string, as Go's range loop over a
  string decodes it; \<open>None\<close> when the bytes are not valid UTF-8 there.
\<close>

definition utf8_tail :: "byte \<Rightarrow> bool" where
  [byte_class]: "utf8_tail b \<longleftrightarrow> 128 \<le> b \<and> b \<le> 191"

fun rune_width :: "bytes \<Rightarrow> nat option" where
  "rune_width [] = None"
| "rune_width (b0 # r) =
     (if b0 < 128 then Some 1
      else if in_range 194 223 b0 then
        (case r of b1 # _ \<Rightarrow> if utf8_tail b1 then Some 2 else None | _ \<Rightarrow> None)
      else if in_range 224 239 b0 then
        (case r of b1 # b2 # _ \<Rightarrow>
           if (if b0 = 224 then in_range 160 191 b1
               else if b0 = 237 then in_range 128 159 b1 else utf8_tail b1) \<and> utf8_tail b2
           then Some 3 else None
         | _ \<Rightarrow> None)
      else if in_range 240 244 b0 then
        (case r of b1 # b2 # b3 # _ \<Rightarrow>
           if (if b0 = 240 then in_range 144 191 b1
               else if b0 = 244 then in_range 128 143 b1 else utf8_tail b1)
              \<and> utf8_tail b2 \<and> utf8_tail b3
           then Some 4 else None
         | _ \<Rightarrow> None)
      else None)"

lemma rune_width_bounds:
  "rune_width v = Some w \<Longrightarrow> 1 \<le> w \<and> w \<le> length v"
  by (cases v) (auto split: if_splits list.splits)

declare rune_width.simps [simp del]

text \<open>\<open>toescape\<close>: the double quote, the closing bracket and the backslash.\<close>

definition toescape :: "byte \<Rightarrow> bool" where
  "toescape c \<longleftrightarrow> c = 92 \<or> c = 93 \<or> c = 34"

text \<open>
  \<open>EscapeBytes\<close>: a backslash before each byte to escape; a byte that starts no valid rune is
  decoded as U+FFFD (width 1) and \<open>WriteRune\<close> writes that character's encoding EF BF BD.
\<close>

function EscapeBytes :: "bytes \<Rightarrow> bytes" where
  "EscapeBytes value =
     (case value of
        [] \<Rightarrow> []
      | c # rest \<Rightarrow>
          (case rune_width value of
             None \<Rightarrow> [239, 191, 189] @ EscapeBytes rest
           | Some w \<Rightarrow>
               (if toescape c then [92] else []) @ take w value @ EscapeBytes (drop w value)))"
  by pat_completeness auto
termination
  by (relation "measure length") (auto dest!: rune_width_bounds)

declare EscapeBytes.simps [simp del]

text \<open>Valid UTF-8: the string splits into runes.\<close>

function valid_utf8 :: "bytes \<Rightarrow> bool" where
  "valid_utf8 value =
     (value = [] \<or>
      (case rune_width value of None \<Rightarrow> False | Some w \<Rightarrow> valid_utf8 (drop w value)))"
  by pat_completeness auto
termination
  by (relation "measure length") (auto dest!: rune_width_bounds)

declare valid_utf8.simps [simp del]

section \<open>Range checks\<close>

definition InBetween :: "int \<Rightarrow> int \<Rightarrow> int \<Rightarrow> bool" where
  "InBetween val mn mx \<longleftrightarrow> val \<ge> mn \<and> val \<le> mx"

definition ValidPriority :: "8 word \<Rightarrow> bool" where
  "ValidPriority priority = InBetween (uint priority) 0 191"

definition ValidVersion :: "16 word \<Rightarrow> bool" where
  "ValidVersion version = InBetween (uint version) 1 999"

lemma ValidPriority_iff: "ValidPriority v \<longleftrightarrow> unat v \<le> 191"
proof -
  have "int (unat v) = uint v"
    by simp
  then show ?thesis
    unfolding ValidPriority_def InBetween_def by linarith
qed

lemma ValidVersion_iff: "ValidVersion v \<longleftrightarrow> 1 \<le> unat v \<and> unat v \<le> 999"
proof -
  have "int (unat v) = uint v"
    by simp
  then show ?thesis
    unfolding ValidVersion_def InBetween_def by linarith
qed

section \<open>Tables\<close>

definition Facility :: "8 word \<rightharpoonup> bytes" where
  "Facility = map_of
    [(0, lit ''kernel messages''),
     (1, lit ''user-level messages''),
     (2, lit ''mail system messages''),
     (3, lit ''system daemons messages''),
     (4, lit ''authorization messages''),
     (5, lit ''messages generated internally by syslogd''),
     (6, lit ''line printer subsystem messages''),
     (7, lit ''network news subsystem messages''),
     (8, lit ''UUCP subsystem messages''),
     (9, lit ''clock daemon messages''),
     (10, lit ''security/authorization messages''),
     (11, lit ''ftp daemon messages''),
     (12, lit ''NTP subsystem messages''),
     (13, lit ''audit messages''),
     (14, lit ''console messages''),
     (15, lit ''clock daemon messages''),
     (16, lit ''local use 0 (local0)''),
     (17, lit ''local use 1 (local1)''),
     (18, lit ''local use 2 (local2)''),
     (19, lit ''local use 3 (local3)''),
     (20, lit ''local use 4 (local4)''),
     (21, lit ''local use 5 (local5)''),
     (22, lit ''local use 6 (local6)''),
     (23, lit ''local use 7 (local7)'')]"

definition FacilityKeywords :: "8 word \<rightharpoonup> bytes" where
  "FacilityKeywords = map_of
    [(0, lit ''kern''), (1, lit ''user''), (2, lit ''mail''), (3, lit ''daemon''),
     (4, lit ''auth''), (5, lit ''syslog''), (6, lit ''lpr''), (7, lit ''news''),
     (8, lit ''uucp''), (9, lit ''cron''), (10, lit ''authpriv''), (11, lit ''ftp''),
     (12, lit ''ntp''), (13, lit ''security''), (14, lit ''console''), (15, lit ''cron2''),
     (16, lit ''local0''), (17, lit ''local1''), (18, lit ''local2''), (19, lit ''local3''),
     (20, lit ''local4''), (21, lit ''local5''), (22, lit ''local6''), (23, lit ''local7'')]"

definition SeverityMessages :: "8 word \<rightharpoonup> bytes" where
  "SeverityMessages = map_of
    [(0, lit ''system is unusable''), (1, lit ''action must be taken immediately''),
     (2, lit ''critical conditions''), (3, lit ''error conditions''),
     (4, lit ''warning conditions''), (5, lit ''normal but significant condition''),
     (6, lit ''informational messages''), (7, lit ''debug-level messages'')]"

definition SeverityLevels :: "8 word \<rightharpoonup> bytes" where
  "SeverityLevels = map_of
    [(0, lit ''emergency''), (1, lit ''alert''), (2, lit ''critical''), (3, lit ''error''),
     (4, lit ''warning''), (5, lit ''notice''), (6, lit ''informational''), (7, lit ''debug'')]"

definition SeverityLevelsShort :: "8 word \<rightharpoonup> bytes" where
  "SeverityLevelsShort = map_of
    [(0, lit ''emerg''), (1, lit ''alert''), (2, lit ''crit''), (3, lit ''err''),
     (4, lit ''warning''), (5, lit ''notice''), (6, lit ''info''), (7, lit ''debug'')]"

text \<open>Reading a Go map at a missing key gives the zero value, for strings the empty string.\<close>

definition go_lookup :: "('k \<rightharpoonup> bytes) \<Rightarrow> 'k \<Rightarrow> bytes" where
  "go_lookup m k = (case m k of None \<Rightarrow> [] | Some v \<Rightarrow> v)"

end
