(* ===== verification/GoIO.thy ===== *)
theory GoIO
  imports Common
begin

text \<open>
  What the transports use of Go's standard library: \<open>strconv.ParseUint\<close> in base 10, and
  \<open>bufio.Reader\<close> over a stream that delivers its bytes and then ends for good. The state of the
  reader is what the stream and the buffer still hold, the size of the buffer, and the byte that
  \<open>UnreadByte\<close> would put back.
\<close>

section \<open>Numbers\<close>

text \<open>Go's \<open>int\<close>, 64 bits wide; \<open>sint\<close> reads it.\<close>

type_synonym goint = "64 word"

datatype num_error = ErrSyntax | ErrRange

fun parse_uint_loop :: "nat \<Rightarrow> bytes \<Rightarrow> nat \<Rightarrow> num_error + nat" where
  "parse_uint_loop bits [] acc = Inr acc"
| "parse_uint_loop bits (c # cs) acc =
     (if \<not> is_digit c then Inl ErrSyntax
      else let n = 10 * acc + (unat c - 48) in
        if n \<ge> 2 ^ bits then Inl ErrRange else parse_uint_loop bits cs n)"

definition ParseUint :: "nat \<Rightarrow> bytes \<Rightarrow> num_error + nat" where
  "ParseUint bits s = (if s = [] then Inl ErrSyntax else parse_uint_loop bits s 0)"

lemma dec_value_ge: "acc \<le> dec_value cs acc"
proof (induction cs arbitrary: acc)
  case (Cons c cs)
  have "acc \<le> 10 * acc + (unat c - 48)" by simp
  also have "\<dots> \<le> dec_value cs (10 * acc + (unat c - 48))" by (rule Cons.IH)
  finally show ?case by simp
qed simp

lemma parse_uint_loop_digits:
  "list_all is_digit cs \<Longrightarrow> acc < 2 ^ bits \<Longrightarrow>
    parse_uint_loop bits cs acc =
      (if dec_value cs acc < 2 ^ bits then Inr (dec_value cs acc) else Inl ErrRange)"
proof (induction cs arbitrary: acc)
  case (Cons c cs)
  let ?n = "10 * acc + (unat c - 48)"
  show ?case
    using Cons dec_value_ge [of ?n cs] by (auto simp: Let_def not_le)
qed simp

lemma ParseUint_digits:
  "list_all is_digit s \<Longrightarrow> s \<noteq> [] \<Longrightarrow>
    ParseUint bits s = (if dec_value s 0 < 2 ^ bits then Inr (dec_value s 0) else Inl ErrRange)"
  by (simp add: ParseUint_def parse_uint_loop_digits)

lemma parse_uint_loop_Inr:
  "parse_uint_loop bits s acc = Inr n \<Longrightarrow>
    list_all is_digit s \<and> n = dec_value s acc \<and> (acc < 2 ^ bits \<longrightarrow> n < 2 ^ bits)"
  by (induction s arbitrary: acc) (auto simp: Let_def split: if_splits)

lemma ParseUint_Inr:
  "ParseUint bits s = Inr n \<longleftrightarrow> s \<noteq> [] \<and> list_all is_digit s \<and> n = dec_value s 0 \<and> n < 2 ^ bits"
  using ParseUint_digits [of s bits]
  by (auto simp: ParseUint_def dest: parse_uint_loop_Inr split: if_splits)

section \<open>Buffered readers\<close>

record reader =
  rd_rest :: bytes
  rd_size :: nat
  rd_last :: "byte option"

definition ReadByte :: "reader \<Rightarrow> byte option \<times> reader" where
  "ReadByte r =
     (case rd_rest r of
        [] \<Rightarrow> (None, r)
      | b # bs \<Rightarrow> (Some b, r\<lparr>rd_rest := bs, rd_last := Some b\<rparr>))"

definition UnreadByte :: "reader \<Rightarrow> reader" where
  "UnreadByte r =
     (case rd_last r of None \<Rightarrow> r | Some b \<Rightarrow> r\<lparr>rd_rest := b # rd_rest r, rd_last := None\<rparr>)"

text \<open>\<open>Peek\<close>: the next bytes, and whether there was no error (the end, or a buffer too small).\<close>

definition Peek :: "nat \<Rightarrow> reader \<Rightarrow> bytes \<times> bool \<times> reader" where
  "Peek n r =
     (let r' = r\<lparr>rd_last := None\<rparr> in
      if n > rd_size r then (take (rd_size r) (rd_rest r), False, r')
      else (take n (rd_rest r), n \<le> length (rd_rest r), r'))"

definition Discard :: "nat \<Rightarrow> reader \<Rightarrow> reader" where
  "Discard n r = (if n = 0 then r else r\<lparr>rd_rest := drop n (rd_rest r), rd_last := None\<rparr>)"

text \<open>\<open>ReadBytes(delim)\<close>: the bytes up to and with the first \<open>delim\<close>, or all and the end.\<close>

definition ReadBytes :: "byte \<Rightarrow> reader \<Rightarrow> bytes \<times> bool \<times> reader" where
  "ReadBytes d r =
     (let xs = rd_rest r; line = takeWhile (\<lambda>b. b \<noteq> d) xs; rest = dropWhile (\<lambda>b. b \<noteq> d) xs in
      case rest of
        [] \<Rightarrow> (xs, False, r\<lparr>rd_rest := [], rd_last := (if xs = [] then rd_last r else Some (last xs))\<rparr>)
      | b # bs \<Rightarrow> (line @ [b], True, r\<lparr>rd_rest := bs, rd_last := Some b\<rparr>))"

text \<open>\<open>io.ReadFull\<close>: exactly \<open>n\<close> bytes, or the error and what was there is consumed.\<close>

definition ReadFull :: "nat \<Rightarrow> reader \<Rightarrow> bytes option \<times> reader" where
  "ReadFull n r =
     (if n \<le> length (rd_rest r)
      then (Some (take n (rd_rest r)),
        r\<lparr>rd_rest := drop n (rd_rest r),
          rd_last := (if n = 0 then rd_last r else Some (rd_rest r ! (n - 1)))\<rparr>)
      else (None, r\<lparr>rd_rest := [],
        rd_last := (if rd_rest r = [] then rd_last r else Some (last (rd_rest r)))\<rparr>))"

lemma ReadBytes_shorter:
  "ReadBytes d r = (line, ok, r') \<Longrightarrow> line \<noteq> [] \<Longrightarrow> length (rd_rest r') < length (rd_rest r)"
proof -
  assume a: "ReadBytes d r = (line, ok, r')" "line \<noteq> []"
  have "length (dropWhile (\<lambda>b. b \<noteq> d) (rd_rest r)) \<le> length (rd_rest r)"
    by (rule length_dropWhile_le)
  with a show ?thesis
    by (auto simp: ReadBytes_def Let_def split: list.splits)
qed

lemma ReadFull_shorter: "ReadFull n r = (x, r') \<Longrightarrow> length (rd_rest r') \<le> length (rd_rest r)"
  by (auto simp: ReadFull_def split: if_splits)

end
