(* ===== verification/Interfaces.thy ===== *)
theory Interfaces
  imports Prelude
begin

text \<open>
  syslog.go: the interface \<open>Machine\<close> that the transports use, as a record of the methods of its
  dynamic type (the state of the machine is an argument and comes back updated; \<open>None\<close> is a
  run-time panic), the \<open>Result\<close> they emit, and the contract of a machine as a locale.
\<close>

section \<open>The interface\<close>

record ('m, 'msg, 'err) Machine =
  Parse_method :: "'m \<Rightarrow> bytes \<Rightarrow> ('m \<times> 'msg option \<times> 'err option) option"
  WithBestEffort_method :: "'m \<Rightarrow> 'm"
  HasBestEffort_method :: "'m \<Rightarrow> bool"

record ('msg, 'err) Result =
  res_Message :: "'msg option"
  res_Error :: "'err option"

text \<open>The message and the error of a call, without the machine it leaves behind.\<close>

definition answer ::
    "('m, 'msg, 'err) Machine \<Rightarrow> 'm \<Rightarrow> bytes \<Rightarrow> ('msg option \<times> 'err option) option" where
  "answer I m input = map_option snd (Parse_method I m input)"

section \<open>The contract\<close>

text \<open>
  What the clients rely on. On the states that its constructors make (\<open>wf\<close>) a machine never panics,
  and using it changes neither its mode nor its later answers. Outside best-effort mode a call never
  gives a message and an error.
\<close>

locale syslog_machine =
  fixes I :: "('m, 'msg, 'err) Machine" and wf :: "'m \<Rightarrow> bool"
  assumes total: "wf m \<Longrightarrow> Parse_method I m input \<noteq> None"
    and keeps_wf: "wf m \<Longrightarrow> Parse_method I m input = Some (m', r) \<Longrightarrow> wf m'"
    and keeps_mode: "wf m \<Longrightarrow> Parse_method I m input = Some (m', r) \<Longrightarrow>
      HasBestEffort_method I m' = HasBestEffort_method I m"
    and keeps_answer: "wf m \<Longrightarrow> Parse_method I m input = Some (m', r) \<Longrightarrow>
      answer I m' = answer I m"
    and strict: "wf m \<Longrightarrow> Parse_method I m input = Some (m', msg, err) \<Longrightarrow>
      \<not> HasBestEffort_method I m \<Longrightarrow> msg = None \<or> err = None"
    and enables: "wf m \<Longrightarrow>
      wf (WithBestEffort_method I m) \<and> HasBestEffort_method I (WithBestEffort_method I m)"
begin

text \<open>A state that answers like \<open>m\<close>: what a call leaves behind.\<close>

definition like :: "'m \<Rightarrow> 'm \<Rightarrow> bool" where
  "like m m' \<longleftrightarrow> wf m' \<and> answer I m' = answer I m \<and>
     HasBestEffort_method I m' = HasBestEffort_method I m"

lemma likeD:
  "like m m' \<Longrightarrow> wf m'" "like m m' \<Longrightarrow> answer I m' = answer I m"
  "like m m' \<Longrightarrow> HasBestEffort_method I m' = HasBestEffort_method I m"
  by (simp_all add: like_def)

lemma like_refl: "wf m \<Longrightarrow> like m m"
  by (simp add: like_def)

lemma like_trans [trans]: "like m1 m2 \<Longrightarrow> like m2 m3 \<Longrightarrow> like m1 m3"
  by (simp add: like_def)

text \<open>The answers to a sequence of inputs are those of the machine as it was at the start.\<close>

lemma parse_cases:
  assumes "wf m"
  obtains m' msg err where "Parse_method I m input = Some (m', msg, err)"
    "answer I m input = Some (msg, err)" "like m m'"
proof -
  obtain m' msg err where p: "Parse_method I m input = Some (m', msg, err)"
    using total [OF assms] by (metis not_None_eq surj_pair)
  then show ?thesis
    using that keeps_answer [OF assms p] keeps_mode [OF assms p] keeps_wf [OF assms p]
    by (simp add: answer_def like_def)
qed

lemma answer_strict:
  "wf m \<Longrightarrow> answer I m input = Some (msg, err) \<Longrightarrow> \<not> HasBestEffort_method I m \<Longrightarrow>
    msg = None \<or> err = None"
  using strict by (fastforce simp: answer_def)

end

text \<open>A machine that always says something: each call gives a message or an error.\<close>

locale answering_machine = syslog_machine +
  assumes some_result: "wf m \<Longrightarrow> Parse_method I m input = Some (m', None, err) \<Longrightarrow> err \<noteq> None"
begin

lemma answer_some: "wf m \<Longrightarrow> answer I m input = Some (None, err) \<Longrightarrow> err \<noteq> None"
  using some_result by (auto simp: answer_def)

end

end
