(* ===== verification/NonTransparent.thy ===== *)
theory NonTransparent
  imports GoIO Interfaces
begin

text \<open>
  Package \<open>nontransparent\<close> (trailer_type.go, parser.go): the framing of RFC 6587 in which a trailer
  byte, LF or NUL, ends a line, and a line that starts with an angle bracket starts a message.
  The package ragel-machinery splits the stream and drives the machine; it is not part of the
  repository, so \<open>Parse\<close> is a function of the calls that it makes: \<open>Exec\<close> with the position and
  the bytes of a chunk (the state is the one the machine stored before), \<open>OnErr\<close>, \<open>OnEOF\<close> and
  \<open>OnCompletion\<close>.
\<close>

section \<open>Trailers\<close>

text \<open>\<open>TrailerType\<close> is an \<open>int\<close> with two named values.\<close>

definition LF :: int where "LF = 0"
definition NUL :: int where "NUL = 1"

definition names :: "bytes list" where
  "names = [lit ''LF'', lit ''NUL'']"

definition trailer_bytes :: "int list" where
  "trailer_bytes = [10, 0]"

definition TrailerType_String :: "int \<Rightarrow> bytes" where
  "TrailerType_String t = (if t < LF \<or> t > NUL then [] else names ! nat t)"

definition TrailerType_Value :: "int \<Rightarrow> int \<times> bool" where
  "TrailerType_Value t = (if t < LF \<or> t > NUL then (- 1, False) else (trailer_bytes ! nat t, True))"

text \<open>
  \<open>strings.ToUpper\<close>, compared below with ASCII texts of the letters F, L, N, U and quotes only: no
  other character has one of these as its upper case, so the ASCII letters decide.
\<close>

definition to_upper :: "bytes \<Rightarrow> bytes" where
  "to_upper s = map (\<lambda>b. if 97 \<le> b \<and> b \<le> 122 then b - 32 else b) s"

definition TrailerTypeFromString :: "bytes \<Rightarrow> int \<times> bool" where
  "TrailerTypeFromString s =
     (let u = to_upper s in
      if u = [34] @ lit ''LF'' @ [34] \<or> u = [39] @ lit ''LF'' @ [39] \<or> u = lit ''LF'' then (LF, True)
      else if u = [34] @ lit ''NUL'' @ [34] \<or> u = [39] @ lit ''NUL'' @ [39] \<or> u = lit ''NUL'' then (NUL, True)
      else (- 1, False))"

text \<open>The new value of the receiver, and whether there was no error.\<close>

definition UnmarshalText :: "bytes \<Rightarrow> int \<times> bool" where
  "UnmarshalText data = TrailerTypeFromString data"

definition UnmarshalTOML :: "bytes \<Rightarrow> int \<times> bool" where
  "UnmarshalTOML data = UnmarshalText data"

definition MarshalText :: "int \<Rightarrow> bytes option" where
  "MarshalText t = (let s = TrailerType_String t in if s \<noteq> [] then Some s else None)"

section \<open>The machine\<close>

datatype ('err, 'rerr) nt_error = Inner 'err | ReadError 'rerr

record ('opt, 'm, 'msg, 'err, 'rerr) machine =
  trailertyp :: int
  trailer :: byte
  candidate :: bytes
  bestEffort :: bool
  internal :: 'm
  internalOpts :: "'opt list"
  emitted :: "('msg, ('err, 'rerr) nt_error) Result list"
  readError :: "'rerr option"
  lastChunk :: bytes
  rfc3164Opts :: "'opt list"
  rfc5424Opts :: "'opt list"
  noFallback :: bool

definition emit ::
    "('msg, ('err, 'rerr) nt_error) Result \<Rightarrow> ('opt, 'm, 'msg, 'err, 'rerr) machine \<Rightarrow>
     ('opt, 'm, 'msg, 'err, 'rerr) machine" where
  "emit r m = m\<lparr>emitted := emitted m @ [r]\<rparr>"

definition process ::
    "('m, 'msg, 'err) Machine \<Rightarrow> ('opt, 'm, 'msg, 'err, 'rerr) machine \<Rightarrow>
     ('opt, 'm, 'msg, 'err, 'rerr) machine option" where
  "process I m =
     (let m = (if last (candidate m) = trailer m then m\<lparr>candidate := butlast (candidate m)\<rparr> else m) in
      case Parse_method I (internal m) (candidate m) of
        None \<Rightarrow> None
      | Some (i, res, err) \<Rightarrow>
          Some (emit \<lparr>res_Message = res, res_Error = map_option Inner err\<rparr> (m\<lparr>internal := i\<rparr>)))"

text \<open>The condition of the grammar on the trailer, encoded in a wider alphabet.\<close>

definition widec :: "int \<Rightarrow> byte \<Rightarrow> int" where
  "widec typ' b =
     (if b > 0 then
        (if b = 10 then 256 + uint b + (if typ' = LF then 256 else 0) else uint b)
      else 768 + uint b + (if typ' = NUL then 256 else 0))"

datatype target = To_st0 | To_st2 | To_tr0 | To_tr3

text \<open>The transitions of the states 2 and 3.\<close>

definition nt_trailer :: "int \<Rightarrow> target" where
  "nt_trailer w =
     (if w = 266 then To_st2 else if w = 522 then To_tr3 else if w = 768 then To_st2
      else if w = 1024 then To_tr3
      else if w > 9 then (if 11 \<le> w then To_st2 else To_st0)
      else if w \<ge> 1 then To_st2 else To_st0)"

definition nt_next :: "int \<Rightarrow> nat \<Rightarrow> byte \<Rightarrow> target" where
  "nt_next typ' cs b =
     (if cs = 1 then (if b = 60 then To_tr0 else To_st0)
      else if cs = 2 then nt_trailer (widec typ' b)
      else if cs = 3 then (if widec typ' b = 60 then To_tr0 else nt_trailer (widec typ' b))
      else To_st0)"

text \<open>The action \<open>on_init\<close>: the message that was being collected is complete.\<close>

definition on_init ::
    "('m, 'msg, 'err) Machine \<Rightarrow> ('opt, 'm, 'msg, 'err, 'rerr) machine \<Rightarrow>
     ('opt, 'm, 'msg, 'err, 'rerr) machine option" where
  "on_init I m =
     (case (if candidate m \<noteq> [] then process I m else Some m) of
        None \<Rightarrow> None
      | Some m \<Rightarrow> Some (m\<lparr>candidate := []\<rparr>))"

text \<open>
  \<open>Exec\<close> from the state \<open>cs\<close> at \<open>p\<close>: the machine, the state and the position after it. The list is
  what is left of the chunk \<open>data\<close> from \<open>p\<close> on.
\<close>

fun exec_loop ::
    "('m, 'msg, 'err) Machine \<Rightarrow> bytes \<Rightarrow> bytes \<Rightarrow> nat \<Rightarrow> nat \<Rightarrow> ('opt, 'm, 'msg, 'err, 'rerr) machine \<Rightarrow>
     (('opt, 'm, 'msg, 'err, 'rerr) machine \<times> nat \<times> nat) option" where
  "exec_loop I data [] cs p m = Some (m, cs, p)"
| "exec_loop I data (b # r) cs p m =
     (case nt_next (trailertyp m) cs b of
        To_st0 \<Rightarrow> Some (m, 0, p)
      | To_st2 \<Rightarrow> exec_loop I data r 2 (p + 1) m
      | To_tr0 \<Rightarrow> (case on_init I m of None \<Rightarrow> None | Some m \<Rightarrow> exec_loop I data r 2 (p + 1) m)
      | To_tr3 \<Rightarrow> exec_loop I data r 3 (p + 1) (m\<lparr>candidate := candidate m @ data\<rparr>))"

definition Exec ::
    "('m, 'msg, 'err) Machine \<Rightarrow> nat \<Rightarrow> nat \<Rightarrow> bytes \<Rightarrow> ('opt, 'm, 'msg, 'err, 'rerr) machine \<Rightarrow>
     (('opt, 'm, 'msg, 'err, 'rerr) machine \<times> nat \<times> nat) option" where
  "Exec I cs p data m = exec_loop I data (drop p data) cs p m"

definition OnErr ::
    "bytes \<Rightarrow> 'rerr \<Rightarrow> ('opt, 'm, 'msg, 'err, 'rerr) machine \<Rightarrow> ('opt, 'm, 'msg, 'err, 'rerr) machine" where
  "OnErr chunk e m = m\<lparr>lastChunk := chunk, readError := Some e\<rparr>"

definition OnEOF ::
    "bytes \<Rightarrow> ('opt, 'm, 'msg, 'err, 'rerr) machine \<Rightarrow> ('opt, 'm, 'msg, 'err, 'rerr) machine" where
  "OnEOF chunk m = m"

definition OnCompletion ::
    "('m, 'msg, 'err) Machine \<Rightarrow> ('opt, 'm, 'msg, 'err, 'rerr) machine \<Rightarrow>
     ('opt, 'm, 'msg, 'err, 'rerr) machine option" where
  "OnCompletion I m =
     (case (if candidate m \<noteq> [] then process I m else Some m) of
        None \<Rightarrow> None
      | Some m \<Rightarrow>
          (case readError m of
             None \<Rightarrow> Some m
           | Some rerr \<Rightarrow>
               if lastChunk m = [] then Some m
               else (case Parse_method I (internal m) (lastChunk m) of
                       None \<Rightarrow> None
                     | Some (i, res, err) \<Rightarrow>
                         let m = m\<lparr>internal := i\<rparr> in
                         Some (emit
                           (if err = None \<and> \<not> HasBestEffort_method I (internal m)
                            then \<lparr>res_Message = None, res_Error = Some (ReadError rerr)\<rparr>
                            else \<lparr>res_Message = res, res_Error = map_option Inner err\<rparr>) m))))"

section \<open>Configuration\<close>

definition WithBestEffort ::
    "('opt, 'm, 'msg, 'err, 'rerr) machine \<Rightarrow> ('opt, 'm, 'msg, 'err, 'rerr) machine" where
  "WithBestEffort m = m\<lparr>bestEffort := True\<rparr>"

definition HasBestEffort ::
    "('m, 'msg, 'err) Machine \<Rightarrow> ('opt, 'm, 'msg, 'err, 'rerr) machine \<Rightarrow> bool" where
  "HasBestEffort I m = HasBestEffort_method I (internal m)"

definition WithMaxMessageLength ::
    "goint \<Rightarrow> ('opt, 'm, 'msg, 'err, 'rerr) machine \<Rightarrow> ('opt, 'm, 'msg, 'err, 'rerr) machine" where
  "WithMaxMessageLength len m = m"

definition WithTrailer ::
    "int \<Rightarrow> ('opt, 'm, 'msg, 'err, 'rerr) machine \<Rightarrow> ('opt, 'm, 'msg, 'err, 'rerr) machine" where
  "WithTrailer t m =
     (case TrailerType_Value t of
        (val, ok) \<Rightarrow> if ok then m\<lparr>trailer := word_of_int val, trailertyp := t\<rparr> else m)"

definition WithMachineOptions ::
    "'opt list \<Rightarrow> ('opt, 'm, 'msg, 'err, 'rerr) machine \<Rightarrow> ('opt, 'm, 'msg, 'err, 'rerr) machine" where
  "WithMachineOptions opts m = m\<lparr>internalOpts := internalOpts m @ opts\<rparr>"

definition SetRFC3164Options ::
    "'opt list \<Rightarrow> ('opt, 'm, 'msg, 'err, 'rerr) machine \<Rightarrow> ('opt, 'm, 'msg, 'err, 'rerr) machine" where
  "SetRFC3164Options opts m = m\<lparr>rfc3164Opts := rfc3164Opts m @ opts\<rparr>"

definition SetRFC5424Options ::
    "'opt list \<Rightarrow> ('opt, 'm, 'msg, 'err, 'rerr) machine \<Rightarrow> ('opt, 'm, 'msg, 'err, 'rerr) machine" where
  "SetRFC5424Options opts m = m\<lparr>rfc5424Opts := rfc5424Opts m @ opts\<rparr>"

definition SetNoFallback ::
    "('opt, 'm, 'msg, 'err, 'rerr) machine \<Rightarrow> ('opt, 'm, 'msg, 'err, 'rerr) machine" where
  "SetNoFallback m = m\<lparr>noFallback := True\<rparr>"

section \<open>Parse\<close>

datatype 'rerr call =
    Exec_call nat bytes | OnErr_call bytes 'rerr | OnEOF_call bytes | OnCompletion_call

text \<open>The machine and its state after the calls of the library, which starts it in state 1.\<close>

fun drive ::
    "('m, 'msg, 'err) Machine \<Rightarrow> 'rerr call list \<Rightarrow> nat \<Rightarrow> ('opt, 'm, 'msg, 'err, 'rerr) machine \<Rightarrow>
     ('opt, 'm, 'msg, 'err, 'rerr) machine option" where
  "drive I [] cs m = Some m"
| "drive I (Exec_call p data # calls) cs m =
     (case Exec I cs p data m of None \<Rightarrow> None | Some (m, cs, p') \<Rightarrow> drive I calls cs m)"
| "drive I (OnErr_call chunk e # calls) cs m = drive I calls cs (OnErr chunk e m)"
| "drive I (OnEOF_call chunk # calls) cs m = drive I calls cs (OnEOF chunk m)"
| "drive I (OnCompletion_call # calls) cs m =
     (case OnCompletion I m of None \<Rightarrow> None | Some m \<Rightarrow> drive I calls cs m)"

definition Parse ::
    "('m, 'msg, 'err) Machine \<Rightarrow> 'rerr call list \<Rightarrow> ('opt, 'm, 'msg, 'err, 'rerr) machine \<Rightarrow>
     ('opt, 'm, 'msg, 'err, 'rerr) machine option" where
  "Parse I calls m = drive I calls 1 m"

end
