(* ===== verification/NonTransparent_Lines.thy ===== *)
theory NonTransparent_Lines
  imports NonTransparent
begin

text \<open>
  Non-transparent framing on streams of whole lines: which lines make up a message, and the results
  as a function of the answers of the inner machine.
\<close>

section \<open>Lines\<close>

definition trailer_ok :: "('opt, 'm, 'msg, 'err, 'rerr) machine \<Rightarrow> bool" where
  "trailer_ok m \<longleftrightarrow> (trailertyp m = LF \<and> trailer m = 10) \<or> (trailertyp m = NUL \<and> trailer m = 0)"

text \<open>On any byte the wide alphabet tells the trailer from the rest.\<close>

lemma widec_cases:
  assumes "(ty = LF \<and> t = 10) \<or> (ty = NUL \<and> t = (0 :: byte))"
  shows "nt_trailer (widec ty b) = (if b = t then To_tr3 else To_st2)"
    and "widec ty b = 60 \<longleftrightarrow> b = 60"
proof -
  consider "b = 0" | "b = 10" | "b \<noteq> 0" "b \<noteq> 10" by blast
  then have "nt_trailer (widec ty b) = (if b = t then To_tr3 else To_st2) \<and> (widec ty b = 60 \<longleftrightarrow> b = 60)"
  proof cases
    case 3
    have "0 < b" using 3(1) by (simp add: word_neq_0_conv)
    then have w: "widec ty b = uint b" "1 \<le> uint b" "uint b \<noteq> 10"
      using 3 by (auto simp: widec_def word_less_def word_uint_eq_iff)
    moreover have "uint b < 256"
      using uint_bounded [of b] by simp
    ultimately show ?thesis
      using assms 3 by (auto simp: nt_trailer_def word_uint_eq_iff)
  qed (use assms in \<open>auto simp: widec_def nt_trailer_def LF_def NUL_def\<close>)
  then show "nt_trailer (widec ty b) = (if b = t then To_tr3 else To_st2)" "widec ty b = 60 \<longleftrightarrow> b = 60"
    by simp_all
qed

lemma exec_line:
  assumes "trailer_ok m" "trailer m \<notin> set xs"
  shows "exec_loop I data (xs @ [trailer m]) 2 p m =
    Some (m\<lparr>candidate := candidate m @ data\<rparr>, 3, p + length xs + 1)"
  using assms(2)
proof (induction xs arbitrary: p)
  case Nil
  then show ?case
    using widec_cases(1) [of "trailertyp m" "trailer m"] assms(1)
    by (auto simp: nt_next_def trailer_ok_def)
next
  case (Cons b xs)
  then show ?case
    using widec_cases(1) [of "trailertyp m" "trailer m" b] assms(1)
    by (auto simp: nt_next_def trailer_ok_def)
qed

text \<open>A line that goes on with the message: no angle bracket in front.\<close>

definition goes_on :: "bytes \<Rightarrow> bool" where
  "goes_on l \<longleftrightarrow> l = [] \<or> hd l \<noteq> 60"

lemma Exec_goes_on:
  assumes "trailer_ok m" "trailer m \<notin> set l" "goes_on l"
  shows "Exec I 3 0 (l @ [trailer m]) m =
    Some (m\<lparr>candidate := candidate m @ l @ [trailer m]\<rparr>, 3, length l + 1)"
proof -
  note w = widec_cases [of "trailertyp m" "trailer m"]
  show ?thesis
  proof (cases l)
    case Nil
    then show ?thesis
      using w [of "trailer m"] assms(1) by (auto simp: Exec_def nt_next_def trailer_ok_def)
  next
    case (Cons b xs)
    then have "exec_loop I (l @ [trailer m]) (l @ [trailer m]) 3 0 m =
        exec_loop I (l @ [trailer m]) (xs @ [trailer m]) 2 1 m"
      using w [of b] assms by (auto simp: nt_next_def trailer_ok_def goes_on_def)
    then show ?thesis
      using exec_line [of m xs I "l @ [trailer m]" 1] assms Cons by (simp add: Exec_def)
  qed
qed

lemma Exec_starts:
  assumes "trailer_ok m" "trailer m \<notin> set xs" "cs = 1 \<or> cs = 3"
    and "on_init I m = Some m1" "trailer_ok m1" "trailer m1 = trailer m" "candidate m1 = []"
  shows "Exec I cs 0 (60 # xs @ [trailer m]) m =
    Some (m1\<lparr>candidate := 60 # xs @ [trailer m]\<rparr>, 3, length xs + 2)"
proof -
  have "nt_next (trailertyp m) cs 60 = To_tr0"
    using assms(1,3) widec_cases(2) [of "trailertyp m" "trailer m" 60]
    by (auto simp: nt_next_def trailer_ok_def)
  then show ?thesis
    using exec_line [of m1 xs I "60 # xs @ [trailer m]" 1] assms by (simp add: Exec_def)
qed

section \<open>Streams\<close>

text \<open>A message: the rest of its first line after the angle bracket, and the lines that follow.\<close>

type_synonym lines = "bytes \<times> bytes list"

definition lines_wf :: "byte \<Rightarrow> lines \<Rightarrow> bool" where
  "lines_wf t x \<longleftrightarrow> t \<notin> set (fst x) \<and> t \<noteq> 60 \<and> (\<forall>l\<in>set (snd x). t \<notin> set l \<and> goes_on l)"

definition joined :: "byte \<Rightarrow> lines \<Rightarrow> bytes" where
  "joined t x = 60 # fst x @ concat (map (\<lambda>l. t # l) (snd x))"

definition line_calls :: "byte \<Rightarrow> lines \<Rightarrow> 'rerr call list" where
  "line_calls t x =
     Exec_call 0 (60 # fst x @ [t]) # map (\<lambda>l. Exec_call 0 (l @ [t])) (snd x)"

definition nt_result ::
    "('m, 'msg, 'err) Machine \<Rightarrow> 'm \<Rightarrow> bytes \<Rightarrow> ('msg, ('err, 'rerr) nt_error) Result" where
  "nt_result I m x =
     (case answer I m x of
        None \<Rightarrow> \<lparr>res_Message = None, res_Error = None\<rparr>
      | Some (msg, err) \<Rightarrow> \<lparr>res_Message = msg, res_Error = map_option Inner err\<rparr>)"

text \<open>The result of an unterminated last chunk, whose read ended with the error \<open>e\<close>.\<close>

definition nt_last_result ::
    "('m, 'msg, 'err) Machine \<Rightarrow> 'm \<Rightarrow> bytes \<Rightarrow> 'rerr \<Rightarrow> ('msg, ('err, 'rerr) nt_error) Result" where
  "nt_last_result I m x e =
     (let r = nt_result I m x in
      if res_Error r = None \<and> \<not> HasBestEffort_method I m
      then \<lparr>res_Message = None, res_Error = Some (ReadError e)\<rparr> else r)"

definition strip_trailer :: "byte \<Rightarrow> bytes \<Rightarrow> bytes" where
  "strip_trailer t c = (if last c = t then butlast c else c)"

lemma concat_lines: "t # concat (map (\<lambda>l. l @ [t]) ls) = concat (map (\<lambda>l. t # l) ls) @ [t]"
  by (induction ls) auto

lemma strip_joined: "strip_trailer t (60 # fst x @ [t] @ concat (map (\<lambda>l. l @ [t]) (snd x))) = joined t x"
  using concat_lines [of t "snd x"] by (simp add: strip_trailer_def joined_def butlast_append)

lemma drive_more:
  assumes "trailer_ok m" "\<forall>l\<in>set ls. trailer m \<notin> set l \<and> goes_on l"
  shows "drive I (map (\<lambda>l. Exec_call 0 (l @ [trailer m])) ls @ calls) 3 m =
    drive I calls 3 (m\<lparr>candidate := candidate m @ concat (map (\<lambda>l. l @ [trailer m]) ls)\<rparr>)"
  using assms
proof (induction ls arbitrary: m)
  case (Cons l ls)
  let ?m = "m\<lparr>candidate := candidate m @ l @ [trailer m]\<rparr>"
  have "trailer_ok ?m" using Cons.prems(1) by (simp add: trailer_ok_def)
  then show ?case
    using Cons.IH [of ?m] Cons.prems Exec_goes_on [of m l I] by simp
qed simp

text \<open>The client of the contract: non-transparent framing around any machine that keeps it.\<close>

locale line_stream = syslog_machine I wf for I :: "('m, 'msg, 'err) Machine" and wf
begin

lemma process_result:
  fixes m :: "('opt, 'm, 'msg, 'err, 'rerr) machine"
  assumes "wf (internal m)"
  obtains i where "process I m = Some (m\<lparr>candidate := strip_trailer (trailer m) (candidate m), internal := i,
      emitted := emitted m @ [nt_result I (internal m) (strip_trailer (trailer m) (candidate m))]\<rparr>)"
    "like (internal m) i"
proof -
  let ?c = "strip_trailer (trailer m) (candidate m)"
  obtain i msg err where P: "Parse_method I (internal m) ?c = Some (i, msg, err)"
    "answer I (internal m) ?c = Some (msg, err)" "like (internal m) i"
    by (rule parse_cases [OF assms])
  show ?thesis
  proof (rule that [OF _ P(3)])
    show "process I m = Some (m\<lparr>candidate := ?c, internal := i,
        emitted := emitted m @ [nt_result I (internal m) ?c]\<rparr>)"
      using P(1,2) by (cases m) (auto simp: process_def strip_trailer_def nt_result_def emit_def)
  qed
qed

text \<open>The message collected so far, if any, is answered.\<close>

definition collected :: "('opt, 'm, 'msg, 'err, 'rerr) machine \<Rightarrow> ('msg, ('err, 'rerr) nt_error) Result list" where
  "collected m = (if candidate m = [] then []
     else [nt_result I (internal m) (strip_trailer (trailer m) (candidate m))])"

lemma on_init_result:
  fixes m :: "('opt, 'm, 'msg, 'err, 'rerr) machine"
  assumes "wf (internal m)"
  obtains i where "on_init I m = Some (m\<lparr>candidate := [], internal := i, emitted := emitted m @ collected m\<rparr>)"
    "like (internal m) i"
proof (cases "candidate m = []")
  case True
  then show ?thesis
    using like_refl [OF assms]
    by (intro that [of "internal m"]) (cases m, simp_all add: on_init_def collected_def)
next
  case False
  obtain i where i: "process I m = Some (m\<lparr>candidate := strip_trailer (trailer m) (candidate m), internal := i,
      emitted := emitted m @ [nt_result I (internal m) (strip_trailer (trailer m) (candidate m))]\<rparr>)"
    "like (internal m) i"
    by (rule process_result [OF assms])
  then show ?thesis
    using False by (intro that [OF _ i(2)]) (simp add: on_init_def collected_def)
qed

lemma drive_lines:
  fixes m :: "('opt, 'm, 'msg, 'err, 'rerr) machine"
  assumes "trailer_ok m" "cs = 1 \<or> cs = 3" "lines_wf (trailer m) x" "wf (internal m)"
  shows "\<exists>i. drive I (line_calls (trailer m) x @ calls) cs m =
      drive I calls 3 (m\<lparr>internal := i, emitted := emitted m @ collected m,
          candidate := 60 # fst x @ [trailer m] @ concat (map (\<lambda>l. l @ [trailer m]) (snd x))\<rparr>) \<and>
    like (internal m) i"
proof -
  obtain i where i: "on_init I m = Some (m\<lparr>candidate := [], internal := i, emitted := emitted m @ collected m\<rparr>)"
    "like (internal m) i"
    by (rule on_init_result [OF assms(4)])
  let ?m1 = "m\<lparr>candidate := [], internal := i, emitted := emitted m @ collected m\<rparr>"
  have ok: "trailer_ok ?m1" using assms(1) by (simp add: trailer_ok_def)
  have "trailer m \<notin> set (fst x)" and more: "\<forall>l\<in>set (snd x). trailer m \<notin> set l \<and> goes_on l"
    using assms(3) by (simp_all add: lines_wf_def)
  then have E: "Exec I cs 0 (60 # fst x @ [trailer m]) m =
      Some (?m1\<lparr>candidate := 60 # fst x @ [trailer m]\<rparr>, 3, length (fst x) + 2)"
    using ok i(1) assms(1,2) by (intro Exec_starts) simp_all
  let ?m2 = "?m1\<lparr>candidate := 60 # fst x @ [trailer m]\<rparr>"
  have ok2: "trailer_ok ?m2" using ok by (simp add: trailer_ok_def)
  show ?thesis
    using i(2) E drive_more [OF ok2, of "snd x" I calls] more
    by (intro exI [of _ i]) (simp add: line_calls_def)
qed

lemma drive_stream:
  fixes m :: "('opt, 'm, 'msg, 'err, 'rerr) machine"
  assumes "trailer_ok m" "cs = 1 \<or> cs = 3" "\<forall>x\<in>set xs. lines_wf (trailer m) x" "wf (internal m)"
  shows "\<exists>q cs'. drive I (concat (map (line_calls (trailer m)) xs) @ calls) cs m = drive I calls cs' q \<and>
    emitted q @ collected q = emitted m @ collected m @ map (\<lambda>x. nt_result I (internal m) (joined (trailer m) x)) xs \<and>
    like (internal m) (internal q) \<and>
    readError q = readError m \<and> lastChunk q = lastChunk m"
  using assms
proof (induction xs arbitrary: m cs)
  case Nil
  then show ?case using like_refl by auto
next
  case (Cons x xs)
  have wf: "lines_wf (trailer m) x" using Cons.prems(3) by simp
  obtain i where i: "drive I (line_calls (trailer m) x @ concat (map (line_calls (trailer m)) xs) @ calls) cs m =
      drive I (concat (map (line_calls (trailer m)) xs) @ calls) 3
        (m\<lparr>internal := i, emitted := emitted m @ collected m,
          candidate := 60 # fst x @ [trailer m] @ concat (map (\<lambda>l. l @ [trailer m]) (snd x))\<rparr>)"
    "like (internal m) i"
    using drive_lines [OF Cons.prems(1,2) wf Cons.prems(4), of "concat (map (line_calls (trailer m)) xs) @ calls"] by blast
  let ?m = "m\<lparr>internal := i, emitted := emitted m @ collected m,
          candidate := 60 # fst x @ [trailer m] @ concat (map (\<lambda>l. l @ [trailer m]) (snd x))\<rparr>"
  have R: "(nt_result I i y :: ('msg, ('err, 'rerr) nt_error) Result) = nt_result I (internal m) y" for y
    using likeD(2) [OF i(2)] by (simp add: nt_result_def)
  have col: "collected ?m = [nt_result I (internal m) (joined (trailer m) x)]"
    using strip_joined [of "trailer m" x] R by (simp add: collected_def)
  have "trailer_ok ?m" using Cons.prems(1) by (simp add: trailer_ok_def)
  moreover have "\<forall>x\<in>set xs. lines_wf (trailer ?m) x" using Cons.prems(3) by simp
  moreover have "wf (internal ?m)" using likeD(1) [OF i(2)] by simp
  ultimately have "\<exists>q cs'. drive I (concat (map (line_calls (trailer ?m)) xs) @ calls) 3 ?m = drive I calls cs' q \<and>
    emitted q @ collected q = emitted ?m @ collected ?m @ map (\<lambda>x. nt_result I (internal ?m) (joined (trailer ?m) x)) xs \<and>
    like (internal ?m) (internal q) \<and>
    readError q = readError ?m \<and> lastChunk q = lastChunk ?m"
    by (intro Cons.IH) simp_all
  then show ?case
    unfolding col using i R like_trans [OF i(2)] by auto
qed

lemma OnCompletion_collects:
  fixes m :: "('opt, 'm, 'msg, 'err, 'rerr) machine"
  assumes "wf (internal m)"
  shows "\<exists>m1. (if candidate m \<noteq> [] then process I m else Some m) = Some m1 \<and>
    emitted m1 = emitted m @ collected m \<and> readError m1 = readError m \<and> lastChunk m1 = lastChunk m \<and>
    candidate m1 = (if candidate m = [] then [] else strip_trailer (trailer m) (candidate m)) \<and>
    trailer m1 = trailer m \<and> trailertyp m1 = trailertyp m \<and>
    like (internal m) (internal m1)"
proof (cases "candidate m = []")
  case True
  then show ?thesis using like_refl [OF assms] by (simp add: collected_def)
next
  case False
  obtain i where "process I m = Some (m\<lparr>candidate := strip_trailer (trailer m) (candidate m), internal := i,
      emitted := emitted m @ [nt_result I (internal m) (strip_trailer (trailer m) (candidate m))]\<rparr>)"
    "like (internal m) i"
    by (rule process_result [OF assms])
  then show ?thesis
    using False by (simp add: collected_def)
qed

text \<open>What \<open>OnCompletion\<close> emits. It leaves the last message in the candidate.\<close>

lemma OnCompletion_result:
  fixes m :: "('opt, 'm, 'msg, 'err, 'rerr) machine"
  assumes "wf (internal m)"
  shows "\<exists>q. OnCompletion I m = Some q \<and>
    emitted q = emitted m @ collected m @
      (case readError m of None \<Rightarrow> []
       | Some e \<Rightarrow> if lastChunk m = [] then [] else [nt_last_result I (internal m) (lastChunk m) e]) \<and>
    candidate q = (if candidate m = [] then [] else strip_trailer (trailer m) (candidate m)) \<and>
    trailer q = trailer m \<and> trailertyp q = trailertyp m \<and> readError q = readError m \<and>
    like (internal m) (internal q)"
proof -
  obtain m1 where m1: "(if candidate m \<noteq> [] then process I m else Some m) = Some m1"
    "emitted m1 = emitted m @ collected m" "readError m1 = readError m" "lastChunk m1 = lastChunk m"
    "candidate m1 = (if candidate m = [] then [] else strip_trailer (trailer m) (candidate m))"
    "trailer m1 = trailer m" "trailertyp m1 = trailertyp m"
    "like (internal m) (internal m1)"
    using OnCompletion_collects [OF assms] by blast
  note like = likeD [OF m1(8)]
  show ?thesis
  proof (cases "\<exists>e. readError m = Some e \<and> lastChunk m \<noteq> []")
    case False
    then have "OnCompletion I m = Some m1"
      using m1(1,3,4) by (auto simp: OnCompletion_def split: option.split)
    then show ?thesis
      using m1 False by (auto split: option.split)
  next
    case True
    then obtain e where e: "readError m = Some e" "lastChunk m \<noteq> []" by blast
    obtain i msg err where P: "Parse_method I (internal m1) (lastChunk m) = Some (i, msg, err)"
      "answer I (internal m1) (lastChunk m) = Some (msg, err)" "like (internal m1) i"
      by (rule parse_cases [OF like(1)])
    let ?r = "if err = None \<and> \<not> HasBestEffort_method I i
      then \<lparr>res_Message = None, res_Error = Some (ReadError e)\<rparr>
      else \<lparr>res_Message = msg, res_Error = map_option Inner err\<rparr>"
    have "OnCompletion I m = Some (emit ?r (m1\<lparr>internal := i\<rparr>))"
      using m1(1,3,4) e P(1) by (simp add: OnCompletion_def Let_def)
    moreover have "?r = nt_last_result I (internal m) (lastChunk m) e"
      using P(2) likeD(3) [OF P(3)] like by (auto simp: nt_last_result_def nt_result_def)
    ultimately show ?thesis
      using m1 e like_trans [OF m1(8) P(3)] by (simp add: emit_def)
  qed
qed

text \<open>The whole stream, with or without an unterminated chunk at its end.\<close>

lemma Parse_stream:
  fixes m :: "('opt, 'm, 'msg, 'err, 'rerr) machine"
  assumes "trailer_ok m" "\<forall>x\<in>set xs. lines_wf (trailer m) x" "readError m = None" "wf (internal m)"
  shows "\<exists>q. Parse I (concat (map (line_calls (trailer m)) xs) @ [OnCompletion_call]) m = Some q \<and>
    emitted q = emitted m @ collected m @ map (\<lambda>x. nt_result I (internal m) (joined (trailer m) x)) xs"
proof -
  obtain q cs' where q: "drive I (concat (map (line_calls (trailer m)) xs) @ [OnCompletion_call]) 1 m =
      drive I [OnCompletion_call] cs' q"
    "emitted q @ collected q = emitted m @ collected m @ map (\<lambda>x. nt_result I (internal m) (joined (trailer m) x)) xs"
    "readError q = readError m" "like (internal m) (internal q)"
    using drive_stream [OF assms(1) _ assms(2,4), of 1 "[OnCompletion_call]"] by auto
  obtain q' where "OnCompletion I q = Some q'" "emitted q' = emitted q @ collected q"
    using OnCompletion_result [OF likeD(1) [OF q(4)]] q(3) assms(3) by auto
  then show ?thesis
    using q(1,2) by (simp add: Parse_def)
qed

lemma Parse_unterminated:
  fixes m :: "('opt, 'm, 'msg, 'err, 'rerr) machine"
  assumes "trailer_ok m" "\<forall>x\<in>set xs. lines_wf (trailer m) x" "chunk \<noteq> []" "wf (internal m)"
  shows "\<exists>q. Parse I (concat (map (line_calls (trailer m)) xs) @ [OnErr_call chunk e, OnCompletion_call]) m = Some q \<and>
    emitted q = emitted m @ collected m @ map (\<lambda>x. nt_result I (internal m) (joined (trailer m) x)) xs @
      [nt_last_result I (internal m) chunk e]"
proof -
  obtain q cs' where q: "drive I (concat (map (line_calls (trailer m)) xs) @ [OnErr_call chunk e, OnCompletion_call]) 1 m =
      drive I [OnErr_call chunk e, OnCompletion_call] cs' q"
    "emitted q @ collected q = emitted m @ collected m @ map (\<lambda>x. nt_result I (internal m) (joined (trailer m) x)) xs"
    "like (internal m) (internal q)"
    using drive_stream [OF assms(1) _ assms(2,4), of 1 "[OnErr_call chunk e, OnCompletion_call]"] by auto
  let ?q = "OnErr chunk e q"
  have q': "collected ?q = collected q" "internal ?q = internal q" "emitted ?q = emitted q"
    "readError ?q = Some e" "lastChunk ?q = chunk"
    by (simp_all add: collected_def OnErr_def)
  obtain q'' where "OnCompletion I ?q = Some q''"
    "emitted q'' = emitted q @ collected q @ [nt_last_result I (internal q) chunk e]"
    using OnCompletion_result [of ?q] likeD(1) [OF q(3)] assms(3) by (auto simp: q')
  moreover have "nt_last_result I (internal q) chunk e = nt_last_result I (internal m) chunk e"
    using likeD(2,3) [OF q(3)] by (simp add: nt_last_result_def nt_result_def)
  ultimately show ?thesis
    using q(1,2) by (simp add: Parse_def)
qed

text \<open>One message of one line. The candidate is not reset at the end of the stream.\<close>

lemma Parse_one:
  fixes m :: "('opt, 'm, 'msg, 'err, 'rerr) machine"
  assumes "trailer_ok m" "trailer m \<notin> set x" "trailer m \<noteq> 60" "readError m = None" "wf (internal m)"
  shows "\<exists>q. Parse I [Exec_call 0 (60 # x @ [trailer m]), OnCompletion_call] m = Some q \<and>
    emitted q = emitted m @ collected m @ [nt_result I (internal m) (60 # x)] \<and>
    candidate q = 60 # x \<and> trailer q = trailer m \<and> trailer_ok q \<and> readError q = None \<and>
    like (internal m) (internal q)"
proof -
  have wf: "lines_wf (trailer m) (x, [])"
    using assms(2,3) by (simp add: lines_wf_def)
  have cs: "(1 :: nat) = 1 \<or> (1 :: nat) = 3" by simp
  obtain i where i: "drive I (line_calls (trailer m) (x, []) @ [OnCompletion_call]) 1 m =
      drive I [OnCompletion_call] 3 (m\<lparr>internal := i, emitted := emitted m @ collected m,
        candidate := 60 # x @ [trailer m]\<rparr>)"
    "like (internal m) i"
    using drive_lines [OF assms(1) cs wf assms(5), of "[OnCompletion_call]"] by auto
  let ?m = "m\<lparr>internal := i, emitted := emitted m @ collected m, candidate := 60 # x @ [trailer m]\<rparr>"
  have c: "collected ?m = [nt_result I (internal m) (60 # x)]"
    using likeD(2) [OF i(2)] by (simp add: collected_def strip_trailer_def nt_result_def butlast_append)
  obtain q where q: "OnCompletion I ?m = Some q" "emitted q = emitted ?m @ collected ?m"
    "candidate q = strip_trailer (trailer m) (60 # x @ [trailer m])" "trailer q = trailer m"
    "trailertyp q = trailertyp m" "readError q = None" "like i (internal q)"
    using OnCompletion_result [of ?m] likeD(1) [OF i(2)] assms(4) by auto
  have "Parse I [Exec_call 0 (60 # x @ [trailer m]), OnCompletion_call] m = Some q"
    using i(1) q(1) by (simp add: Parse_def line_calls_def)
  then show ?thesis
    using q c like_trans [OF i(2) q(7)] assms(1)
    by (simp add: trailer_ok_def strip_trailer_def butlast_append)
qed

lemma Parse_twice:
  fixes m :: "('opt, 'm, 'msg, 'err, 'rerr) machine"
  assumes "trailer_ok m" "trailer m \<noteq> 60" "readError m = None" "candidate m = []"
    and "trailer m \<notin> set x" "trailer m \<notin> set y" "wf (internal m)"
  shows "\<exists>q q'. Parse I [Exec_call 0 (60 # x @ [trailer m]), OnCompletion_call] m = Some q \<and>
    Parse I [Exec_call 0 (60 # y @ [trailer m]), OnCompletion_call] q = Some q' \<and>
    emitted q' = emitted m @ [nt_result I (internal m) (60 # x), nt_result I (internal m) (60 # x),
      nt_result I (internal m) (60 # y)]"
proof -
  obtain q where q: "Parse I [Exec_call 0 (60 # x @ [trailer m]), OnCompletion_call] m = Some q"
    "emitted q = emitted m @ collected m @ [nt_result I (internal m) (60 # x)]"
    "candidate q = 60 # x" "trailer q = trailer m" "trailer_ok q" "readError q = None"
    "like (internal m) (internal q)"
    using Parse_one [OF assms(1,5,2,3,7)] by blast
  note like = likeD [OF q(7)]
  have "trailer q \<notin> set y" "trailer q \<noteq> 60"
    using q(4) assms(2,6) by simp_all
  from Parse_one [OF q(5) this q(6) like(1)] obtain q' where
    "Parse I [Exec_call 0 (60 # y @ [trailer m]), OnCompletion_call] q = Some q'"
    "emitted q' = emitted q @ collected q @ [nt_result I (internal q) (60 # y)]"
    using q(4) by auto
  moreover have "last (60 # x) \<noteq> trailer m"
    using assms(2,5) by (metis last_in_set list.distinct(1) set_ConsD)
  then have "collected q = [nt_result I (internal m) (60 # x)]"
    using q(3,4) like(2) by (simp add: collected_def strip_trailer_def nt_result_def)
  ultimately show ?thesis
    using q(1,2) like(2) assms(4) by (auto simp: collected_def nt_result_def)
qed

end

end
