(* ===== verification/GoTime.thy ===== *)
theory GoTime
  imports Common
begin

text \<open>
  The part of Go's package \<open>time\<close> that the RFC 5424 machine and builder use: the civil
  fields of a \<open>time.Time\<close>, and \<open>time.Parse\<close> at the layout
  \<open>RFC3339MICRO = "2006-01-02T15:04:05.999999Z07:00"\<close>. The layout's chunks are, in order: a
  four-digit year, a two-digit month, a two-digit day, a one- or two-digit hour, a two-digit minute
  and second, an optional fraction, and \<open>Z\<close> or a signed offset. A failed chunk is an error
  value; the day is checked against the month once everything is read.
\<close>

section \<open>Civil time\<close>

text \<open>
  A \<open>*time.Location\<close> is its offset east of UTC, in seconds, as a function of the instant in Unix
  seconds; the database of time zones is not part of the program. A time in a location carries the
  offset that is in force at its instant.
\<close>

type_synonym location = "int \<Rightarrow> int"

datatype zone = UTC | FixedZone int | Located location int

definition zone_offset :: "zone \<Rightarrow> int" where
  "zone_offset z = (case z of UTC \<Rightarrow> 0 | FixedZone off \<Rightarrow> off | Located _ off \<Rightarrow> off)"

record gotime =
  t_year :: int
  t_month :: nat
  t_day :: nat
  t_hour :: nat
  t_min :: nat
  t_sec :: nat
  t_nsec :: nat
  t_zone :: zone

datatype time_error =
    BadFormat
  | OutOfRange string
  | ExtraText

definition isLeap :: "int \<Rightarrow> bool" where
  "isLeap y \<longleftrightarrow> y mod 4 = 0 \<and> (y mod 100 \<noteq> 0 \<or> y mod 400 = 0)"

definition daysIn :: "nat \<Rightarrow> int \<Rightarrow> nat" where
  "daysIn m y =
     (if m = 2 then (if isLeap y then 29 else 28)
      else if m = 4 \<or> m = 6 \<or> m = 9 \<or> m = 11 then 30 else 31)"

section \<open>Chunks of the layout\<close>

definition digit_val :: "byte \<Rightarrow> nat" where
  "digit_val b = unat b - 48"

text \<open>\<open>getnum\<close> of package time: one or two digits, two when \<open>fixed\<close>.\<close>

fun getnum :: "bytes \<Rightarrow> bool \<Rightarrow> (nat \<times> bytes) option" where
  "getnum (a # b # r) fixed =
     (if \<not> is_digit a then None
      else if is_digit b then Some (10 * digit_val a + digit_val b, r)
      else if fixed then None else Some (digit_val a, b # r))"
| "getnum [a] fixed = (if \<not> is_digit a \<or> fixed then None else Some (digit_val a, []))"
| "getnum [] fixed = None"

text \<open>A literal byte of the layout.\<close>

fun skip_byte :: "byte \<Rightarrow> bytes \<Rightarrow> bytes option" where
  "skip_byte c (b # r) = (if b = c then Some r else None)"
| "skip_byte c [] = None"

fun get_year :: "bytes \<Rightarrow> (nat \<times> bytes) option" where
  "get_year (a # b # c # d # r) =
     (if list_all is_digit [a, b, c, d] then Some (dec_value [a, b, c, d] 0, r) else None)"
| "get_year _ = None"

text \<open>
  The fraction: a period or comma and at least one digit, else no fraction. All digits are
  consumed and the first nine are read as nanoseconds.
\<close>

definition get_frac :: "bytes \<Rightarrow> nat \<times> bytes" where
  "get_frac v =
     (case v of
        s # d # r \<Rightarrow>
          if (s = 46 \<or> s = 44) \<and> is_digit d then
            (let ds = takeWhile is_digit (d # r); ns = take 9 ds in
             (dec_value ns 0 * 10 ^ (9 - length ns), dropWhile is_digit (d # r)))
          else (0, v)
      | _ \<Rightarrow> (0, v))"

definition get_zone :: "bytes \<Rightarrow> time_error + (zone \<times> bytes)" where
  "get_zone v =
     (case v of
        [] \<Rightarrow> Inl BadFormat
      | z # r0 \<Rightarrow>
          if z = 90 then Inr (UTC, r0)
          else (case v of
                  s # h1 # h2 # c # m1 # m2 # r \<Rightarrow>
                    if c \<noteq> 58 then Inl BadFormat
                    else (case (getnum [h1, h2] True, getnum [m1, m2] True) of
                            (Some (hr, _), Some (mm, _)) \<Rightarrow>
                              if hr > 24 then Inl (OutOfRange ''time zone offset hour'')
                              else if mm > 60 then Inl (OutOfRange ''time zone offset minute'')
                              else if s = 43 then Inr (FixedZone (int ((hr * 60 + mm) * 60)), r)
                              else if s = 45 then Inr (FixedZone (- int ((hr * 60 + mm) * 60)), r)
                              else Inl BadFormat
                          | _ \<Rightarrow> Inl BadFormat)
                | _ \<Rightarrow> Inl BadFormat))"

section \<open>time.Parse at RFC3339MICRO\<close>

definition need :: "'a option \<Rightarrow> ('a \<Rightarrow> time_error + 'b) \<Rightarrow> time_error + 'b" where
  "need x k = (case x of None \<Rightarrow> Inl BadFormat | Some v \<Rightarrow> k v)"

definition check :: "bool \<Rightarrow> string \<Rightarrow> (time_error + 'b) \<Rightarrow> time_error + 'b" where
  "check ok what k = (if ok then k else Inl (OutOfRange what))"

definition parse_zone_and_day ::
    "nat \<Rightarrow> nat \<Rightarrow> nat \<Rightarrow> nat \<Rightarrow> nat \<Rightarrow> nat \<Rightarrow> nat \<Rightarrow> bytes \<Rightarrow> time_error + gotime" where
  "parse_zone_and_day y mo d h mi s ns v =
     (case get_zone v of
        Inl e \<Rightarrow> Inl e
      | Inr (z, v') \<Rightarrow>
          if v' \<noteq> [] then Inl ExtraText
          else if d < 1 \<or> d > daysIn mo (int y) then Inl (OutOfRange ''day'')
          else Inr \<lparr>t_year = int y, t_month = mo, t_day = d, t_hour = h, t_min = mi, t_sec = s,
                    t_nsec = ns, t_zone = z\<rparr>)"

definition time_Parse_RFC3339MICRO :: "bytes \<Rightarrow> time_error + gotime" where
  "time_Parse_RFC3339MICRO v0 =
     need (get_year v0) (\<lambda>(y, v1).
     need (skip_byte 45 v1) (\<lambda>v2.
     need (getnum v2 True) (\<lambda>(mo, v3).
     check (1 \<le> mo \<and> mo \<le> 12) ''month'' (
     need (skip_byte 45 v3) (\<lambda>v4.
     need (getnum v4 True) (\<lambda>(d, v5).
     need (skip_byte 84 v5) (\<lambda>v6.
     need (getnum v6 False) (\<lambda>(h, v7).
     check (h < 24) ''hour'' (
     need (skip_byte 58 v7) (\<lambda>v8.
     need (getnum v8 True) (\<lambda>(mi, v9).
     check (mi < 60) ''minute'' (
     need (skip_byte 58 v9) (\<lambda>v10.
     need (getnum v10 True) (\<lambda>(s, v11).
     check (s < 60) ''second'' (
       (case get_frac v11 of (ns, v12) \<Rightarrow>
          parse_zone_and_day y mo d h mi s ns v12))))))))))))))))"

end
