(* ===== verification/Syslog.thy ===== *)
theory Syslog
  imports Common GoTime
begin

text \<open>
  The root package (syslog.go): the fields every message format shares (\<open>Base\<close>), the derived
  facility and severity texts, and the validity check. A Go pointer field is an option; the
  message types of the formats extend the record, as the Go structs embed \<open>syslog.Base\<close>.
\<close>

record Base =
  Facility :: "8 word option"
  Severity :: "8 word option"
  Priority :: "8 word option"
  MessageCounter :: "32 word option"
  Sequence :: "32 word option"
  Timestamp :: "gotime option"
  Hostname :: "bytes option"
  Appname :: "bytes option"
  ProcID :: "bytes option"
  MsgID :: "bytes option"
  Message :: "bytes option"

text \<open>The zero value of the struct: every pointer nil.\<close>

definition Base_zero :: Base where
  "Base_zero = \<lparr>Facility = None, Severity = None, Priority = None, MessageCounter = None,
     Sequence = None, Timestamp = None, Hostname = None, Appname = None, ProcID = None,
     MsgID = None, Message = None\<rparr>"

text \<open>Names that package \<open>common\<close> and the record share: the tables stay qualified.\<close>

abbreviation (input) facility_table :: "8 word \<rightharpoonup> bytes" where
  "facility_table \<equiv> Common.Facility"

definition Valid :: "'a Base_scheme \<Rightarrow> bool" where
  "Valid m = (case Priority m of None \<Rightarrow> False | Some pr \<Rightarrow> ValidPriority pr)"

definition ComputeFromPriority :: "8 word \<Rightarrow> 'a Base_scheme \<Rightarrow> 'a Base_scheme" where
  "ComputeFromPriority value m =
     m\<lparr>Priority := Some value, Facility := Some (value div 8), Severity := Some (value mod 8)\<rparr>"

definition FacilityMessage :: "'a Base_scheme \<Rightarrow> bytes option" where
  "FacilityMessage m =
     (case Facility m of None \<Rightarrow> None | Some f \<Rightarrow> Some (go_lookup facility_table f))"

definition FacilityLevel :: "'a Base_scheme \<Rightarrow> bytes option" where
  "FacilityLevel m =
     (case Facility m of
        None \<Rightarrow> None
      | Some f \<Rightarrow>
          (case FacilityKeywords f of
             Some msg \<Rightarrow> Some msg
           | None \<Rightarrow> Some (go_lookup facility_table f)))"

definition SeverityMessage :: "'a Base_scheme \<Rightarrow> bytes option" where
  "SeverityMessage m =
     (case Severity m of None \<Rightarrow> None | Some s \<Rightarrow> Some (go_lookup SeverityMessages s))"

definition SeverityLevel :: "'a Base_scheme \<Rightarrow> bytes option" where
  "SeverityLevel m =
     (case Severity m of None \<Rightarrow> None | Some s \<Rightarrow> Some (go_lookup SeverityLevels s))"

definition SeverityShortLevel :: "'a Base_scheme \<Rightarrow> bytes option" where
  "SeverityShortLevel m =
     (case Severity m of None \<Rightarrow> None | Some s \<Rightarrow> Some (go_lookup SeverityLevelsShort s))"

section \<open>Facts about PRI\<close>

lemma ComputeFromPriority_unat:
  fixes pr :: "8 word"
  shows "unat (pr div 8) = unat pr div 8" "unat (pr mod 8) = unat pr mod 8"
  by (simp_all add: unat_div unat_mod)

lemma Valid_ComputeFromPriority:
  "Valid (ComputeFromPriority value m) \<longleftrightarrow> unat value \<le> 191"
  by (simp add: Valid_def ComputeFromPriority_def ValidPriority_iff)

lemma facility_of_valid:
  "unat (value :: 8 word) \<le> 191 \<Longrightarrow> value div 8 < 24"
  by (simp add: word_less_nat_alt unat_div)

lemma severity_of_any: "(value :: 8 word) mod 8 < 8"
  by (simp add: word_less_nat_alt unat_mod)

end
