(* ===== verification/RFC5424_Message.thy ===== *)
theory RFC5424_Message
  imports Syslog "HOL-Library.Finite_Map"
begin

text \<open>
  rfc5424/syslog_message.go: the parser's working message (\<open>syslogMessage\<close>), the exported
  message (\<open>SyslogMessage\<close>, which embeds \<open>syslog.Base\<close>), and the functions between them.
  A Go map is a finite map, and \<open>None\<close> for the nil map: both read as empty, but writing to a nil
  map panics. The working message holds maps that the machine made, so only its outer map can be nil;
  in an exported message, whose fields anyone can set, the maps of the elements can be nil too.
\<close>

type_synonym sdmap = "(bytes, (bytes, bytes) fmap) fmap"
type_synonym elements = "(bytes, (bytes, bytes) fmap option) fmap option"

text \<open>What reads and loops see of such a map, and a map of maps without nil.\<close>

definition nil_is_empty :: "elements \<Rightarrow> sdmap" where
  "nil_is_empty es =
     (case es of
        None \<Rightarrow> fmempty
      | Some m \<Rightarrow> fmmap (\<lambda>ps. case ps of None \<Rightarrow> fmempty | Some ps \<Rightarrow> ps) m)"

definition made :: "sdmap \<Rightarrow> elements" where
  "made sd = Some (fmmap Some sd)"

lemma nil_is_empty_made [simp]: "nil_is_empty (made sd) = sd"
  by (rule fmap_ext) (simp add: nil_is_empty_def made_def option.map_comp comp_def option.map_ident)

lemma made_eq [simp]: "made sd = made sd' \<longleftrightarrow> sd = sd'"
  by (metis nil_is_empty_made)

record syslogMessage =
  prioritySet :: bool
  priorityOptional :: bool
  timestampSet :: bool
  hasElements :: bool
  priority :: "8 word"
  version :: "16 word"
  timestamp :: "gotime option"
  hostname :: bytes
  appname :: bytes
  procID :: bytes
  msgID :: bytes
  structuredData :: "sdmap option"
  message :: bytes

record SyslogMessage = Base +
  Version :: "16 word"
  StructuredData :: "elements option"

definition syslogMessage_init :: "bool \<Rightarrow> syslogMessage" where
  "syslogMessage_init opt =
     \<lparr>prioritySet = False, priorityOptional = opt, timestampSet = False, hasElements = False,
      priority = 0, version = 0, timestamp = None, hostname = [], appname = [], procID = [],
      msgID = [], structuredData = None, message = []\<rparr>"

definition SyslogMessage_zero :: SyslogMessage where
  "SyslogMessage_zero = Base.extend Base_zero \<lparr>Version = 0, StructuredData = None\<rparr>"

definition minimal :: "syslogMessage \<Rightarrow> bool" where
  "minimal sm =
     (if \<not> ValidVersion (version sm) then False
      else if prioritySet sm then ValidPriority (priority sm)
      else priorityOptional sm)"

text \<open>A text field is exported unless it is the nil value \<open>-\<close> or was never set.\<close>

definition export_text :: "bytes \<Rightarrow> bytes option" where
  "export_text s = (if s \<noteq> [45] \<and> s \<noteq> [] then Some s else None)"

definition export :: "syslogMessage \<Rightarrow> SyslogMessage" where
  "export sm =
     (let out = SyslogMessage_zero;
          out = (if prioritySet sm then ComputeFromPriority (priority sm) out else out);
          out = out\<lparr>Version := version sm\<rparr>;
          out = (if timestampSet sm then out\<lparr>Timestamp := timestamp sm\<rparr> else out);
          out = out\<lparr>Hostname := export_text (hostname sm)\<rparr>;
          out = out\<lparr>Appname := export_text (appname sm)\<rparr>;
          out = out\<lparr>ProcID := export_text (procID sm)\<rparr>;
          out = out\<lparr>MsgID := export_text (msgID sm)\<rparr>;
          out = (if hasElements sm
            then out\<lparr>StructuredData := Some (case structuredData sm of None \<Rightarrow> None | Some sd \<Rightarrow> made sd)\<rparr>
            else out);
          out = (if message sm \<noteq> [] then out\<lparr>Message := Some (message sm)\<rparr> else out)
      in out)"

definition SyslogMessage_Valid :: "SyslogMessage \<Rightarrow> bool" where
  "SyslogMessage_Valid sm =
     (if \<not> ValidVersion (Version sm) then False
      else (case Priority sm of None \<Rightarrow> True | Some pr \<Rightarrow> ValidPriority pr))"

section \<open>Facts\<close>

lemma export_fields [simp]:
  "Version (export sm) = version sm"
  "Priority (export sm) = (if prioritySet sm then Some (priority sm) else None)"
  "Facility (export sm) = (if prioritySet sm then Some (priority sm div 8) else None)"
  "Severity (export sm) = (if prioritySet sm then Some (priority sm mod 8) else None)"
  "Timestamp (export sm) = (if timestampSet sm then timestamp sm else None)"
  "Hostname (export sm) = export_text (hostname sm)"
  "Appname (export sm) = export_text (appname sm)"
  "ProcID (export sm) = export_text (procID sm)"
  "MsgID (export sm) = export_text (msgID sm)"
  "StructuredData (export sm) =
    (if hasElements sm then Some (case structuredData sm of None \<Rightarrow> None | Some sd \<Rightarrow> made sd) else None)"
  "Message (export sm) = (if message sm = [] then None else Some (message sm))"
  "MessageCounter (export sm) = None"
  "Sequence (export sm) = None"
  by (simp_all add: export_def ComputeFromPriority_def SyslogMessage_zero_def Base_zero_def
      Base.extend_def Let_def)

lemma minimal_Valid: "minimal sm \<Longrightarrow> SyslogMessage_Valid (export sm)"
  by (simp add: minimal_def SyslogMessage_Valid_def split: if_splits)

end
