(* ===== verification/RFC5424_Machine.thy ===== *)
theory RFC5424_Machine
  imports RFC5424_Message
begin

text \<open>
  rfc5424/machine.go: the finite-state machine that Ragel generates from machine.go.rl, and the
  \<open>Parse\<close> method around it. The states keep their numbers. A label \<open>stCaseN\<close> with the
  transitions \<open>trM\<close> it jumps to is a clause of a step function; the chains of states that count
  the characters of a field (300..553, 253..299, 126..252, 95..125, 64..94, 20..51) are one clause
  each, because consecutive states of a chain differ in their successor only.

  A step answers with the state in which the machine tests for the end of the input (\<open>Next\<close>),
  with leaving through \<open>_out\<close> (\<open>Out\<close>), or with a run-time panic of Go (\<open>Panic\<close>): a slice or
  index out of range, or a write to a nil map.

  \<open>goto stN\<close> increments \<open>p\<close>. Each error action sets the error, decrements \<open>p\<close> (\<open>fhold\<close>)
  and jumps to \<open>st614\<close>, which increments it again, so \<open>p\<close> is unchanged: the byte that caused
  the error is consumed once more by state 614. The statements after such a jump are unreachable.
\<close>

section \<open>Errors\<close>

datatype err_kind =
    ErrPrival | ErrPri | ErrVersion | ErrTimestamp | ErrHostname | ErrAppname | ErrProcID
  | ErrMsgID | ErrStructuredData | ErrSdID | ErrSdIDDuplicated | ErrSdParam | ErrMsg
  | ErrMsgNotCompliant | ErrEscape | ErrParse
  | ErrTime time_error \<comment> \<open>the error of \<open>time.Parse\<close>\<close>

text \<open>An error is its kind and the column that \<open>ColumnPositionTemplate\<close> reports.\<close>

type_synonym perror = "err_kind \<times> nat"

fun err_template :: "err_kind \<Rightarrow> string" where
  "err_template ErrPrival = ''expecting a priority value in the range 1-191 or equal to 0''"
| "err_template ErrPri = ''expecting a priority value within angle brackets''"
| "err_template ErrVersion = ''expecting a version value in the range 1-999''"
| "err_template ErrTimestamp = ''expecting a RFC3339MICRO timestamp or a nil value''"
| "err_template ErrHostname =
     ''expecting an hostname (from 1 to max 255 US-ASCII characters) or a nil value''"
| "err_template ErrAppname =
     ''expecting an app-name (from 1 to max 48 US-ASCII characters) or a nil value''"
| "err_template ErrProcID =
     ''expecting a procid (from 1 to max 128 US-ASCII characters) or a nil value''"
| "err_template ErrMsgID =
     ''expecting a msgid (from 1 to max 32 US-ASCII characters) or a nil value''"
| "err_template ErrStructuredData =
     ''expecting a structured data section containing one or more elements (`[id( key=\"value\")*]+`) or a nil value''"
| "err_template ErrSdID =
     ''expecting a structured data element id (from 1 to max 32 US-ASCII characters; except `=`, ` `, `]`, and `\"`''"
| "err_template ErrSdIDDuplicated = ''duplicate structured data element id''"
| "err_template ErrSdParam =
     ''expecting a structured data parameter (`key=\"value\"`, both part from 1 to max 32 US-ASCII characters; key cannot contain `=`, ` `, `]`, and `\"`, while value cannot contain `]`, backslash, and `\"` unless escaped)''"
| "err_template ErrMsg =
     ''expecting a free-form optional message in UTF-8 (starting with or without BOM)''"
| "err_template ErrMsgNotCompliant =
     ''expecting a free-form optional message in UTF-8 (starting with or without BOM) or a free-form optional message in any encoding (starting without BOM)''"
| "err_template ErrEscape = ''expecting chars `]`, `\"`, and `'' @ [CHR 0x5C] @ ''` to be escaped within param value''"
| "err_template ErrParse = ''parsing error''"
| "err_template (ErrTime e) =
     (case e of BadFormat \<Rightarrow> ''cannot parse'' | OutOfRange w \<Rightarrow> w @ '' out of range''
      | ExtraText \<Rightarrow> ''extra text'')"

section \<open>State\<close>

record machine =
  m_data :: bytes
  m_cs :: nat
  m_p :: nat
  m_pe :: nat
  m_eof :: nat
  m_pb :: nat
  m_err :: "perror option"
  m_currentelem :: bytes
  m_currentparam :: bytes
  m_msgat :: nat
  m_backslashat :: "nat list"
  m_bestEffort :: bool
  m_compliantMsg :: bool
  m_optionalPriority :: bool

definition start :: nat where "start = 1"
definition firstFinal :: nat where "firstFinal = 603"
definition enMsgAny :: nat where "enMsgAny = 607"
definition enMsgCompliant :: nat where "enMsgCompliant = 609"
definition enFail :: nat where "enFail = 614"
definition enMainMessageBody :: nat where "enMainMessageBody = 4"

datatype outcome =
    Panic
  | Out machine syslogMessage
  | Next machine syslogMessage

text \<open>The zero value of the struct, which \<open>NewMachine\<close> passes to its options.\<close>

definition machine_zero :: machine where
  "machine_zero =
     \<lparr>m_data = [], m_cs = 0, m_p = 0, m_pe = 0, m_eof = 0, m_pb = 0, m_err = None,
      m_currentelem = [], m_currentparam = [], m_msgat = 0, m_backslashat = [],
      m_bestEffort = False, m_compliantMsg = False, m_optionalPriority = False\<rparr>"

definition NewMachine :: "(machine \<Rightarrow> machine) list \<Rightarrow> machine" where
  "NewMachine options = fold (\<lambda>opt m. opt m) options machine_zero"

definition machine_WithBestEffort :: "machine \<Rightarrow> machine" where
  "machine_WithBestEffort m = m\<lparr>m_bestEffort := True\<rparr>"

definition machine_WithOptionalPriority :: "machine \<Rightarrow> machine" where
  "machine_WithOptionalPriority m = m\<lparr>m_optionalPriority := True\<rparr>"

definition machine_HasBestEffort :: "machine \<Rightarrow> bool" where
  "machine_HasBestEffort m = m_bestEffort m"

definition machine_Err :: "machine \<Rightarrow> perror option" where
  "machine_Err m = m_err m"

definition m_text :: "machine \<Rightarrow> bytes option" where
  "m_text m = gslice (m_data m) (m_pb m) (m_p m)"

section \<open>Actions\<close>

definition goto_st :: "nat \<Rightarrow> machine \<Rightarrow> machine" where
  "goto_st n m = m\<lparr>m_cs := n, m_p := m_p m + 1\<rparr>"

definition mark :: "machine \<Rightarrow> machine" where
  "mark m = m\<lparr>m_pb := m_p m\<rparr>"

text \<open>\<open>m.err = ...; (m.p)--; goto st614\<close>, and \<open>st614\<close> begins with \<open>(m.p)++\<close>.\<close>

definition fail_with :: "err_kind \<Rightarrow> machine \<Rightarrow> syslogMessage \<Rightarrow> outcome" where
  "fail_with k m out = Next (m\<lparr>m_err := Some (k, m_p m), m_cs := enFail\<rparr>) out"

text \<open>An action that reads \<open>m.text()\<close>: the panic of the slice ends the run.\<close>

definition with_text ::
    "machine \<Rightarrow> (bytes \<Rightarrow> outcome) \<Rightarrow> outcome" where
  "with_text m k = (case m_text m of None \<Rightarrow> Panic | Some t \<Rightarrow> k t)"

definition set_prival :: "bytes \<Rightarrow> syslogMessage \<Rightarrow> syslogMessage" where
  "set_prival t out =
     out\<lparr>priority := ucast (UnsafeUTF8DecimalCodePointsToInt t), prioritySet := True\<rparr>"

definition set_version :: "bytes \<Rightarrow> syslogMessage \<Rightarrow> syslogMessage" where
  "set_version t out = out\<lparr>version := ucast (UnsafeUTF8DecimalCodePointsToInt t)\<rparr>"

text \<open>\<open>set_timestamp\<close>, with what follows when \<open>time.Parse\<close> succeeds.\<close>

definition set_timestamp ::
    "machine \<Rightarrow> syslogMessage \<Rightarrow> (syslogMessage \<Rightarrow> outcome) \<Rightarrow> outcome" where
  "set_timestamp m out k =
     with_text m (\<lambda>t.
       case time_Parse_RFC3339MICRO t of
         Inl e \<Rightarrow> fail_with (ErrTime e) m out
       | Inr ts \<Rightarrow> k (out\<lparr>timestamp := Some ts, timestampSet := True\<rparr>))"

definition ini_elements :: "syslogMessage \<Rightarrow> syslogMessage" where
  "ini_elements out = out\<lparr>structuredData := Some fmempty\<rparr>"

text \<open>
  \<open>set_id\<close>: a duplicate id is an error; else a new empty element becomes the current one. Writing
  the element into a nil map would panic.
\<close>

definition set_id ::
    "machine \<Rightarrow> syslogMessage \<Rightarrow> (machine \<Rightarrow> syslogMessage \<Rightarrow> outcome) \<Rightarrow> outcome" where
  "set_id m out k =
     with_text m (\<lambda>t.
       if (case structuredData out of None \<Rightarrow> False | Some sd \<Rightarrow> fmlookup sd t \<noteq> None)
       then fail_with ErrSdIDDuplicated m out
       else (case structuredData out of
               None \<Rightarrow> Panic
             | Some sd \<Rightarrow>
                 k (m\<lparr>m_currentelem := t\<rparr>)
                   (out\<lparr>structuredData := Some (fmupd t fmempty sd), hasElements := True\<rparr>)))"

definition ini_sdparam :: "machine \<Rightarrow> machine" where
  "ini_sdparam m = m\<lparr>m_backslashat := []\<rparr>"

definition add_slash :: "machine \<Rightarrow> machine" where
  "add_slash m = m\<lparr>m_backslashat := m_backslashat m @ [m_p m]\<rparr>"

definition set_paramname :: "machine \<Rightarrow> (machine \<Rightarrow> outcome) \<Rightarrow> outcome" where
  "set_paramname m k = with_text m (\<lambda>t. k (m\<lparr>m_currentparam := t\<rparr>))"

text \<open>
  \<open>set_paramvalue\<close>: the text without its escaping backslashes is stored under the current
  parameter of the current element; a missing element is a nil inner map, so the write panics.
\<close>

definition set_paramvalue ::
    "machine \<Rightarrow> syslogMessage \<Rightarrow> (syslogMessage \<Rightarrow> outcome) \<Rightarrow> outcome" where
  "set_paramvalue m out k =
     (if \<not> hasElements out then k out
      else with_text m (\<lambda>t.
        case (if m_backslashat m \<noteq> [] then RemoveBytes t (m_backslashat m) (m_pb m) else Some t) of
          None \<Rightarrow> Panic
        | Some txt \<Rightarrow>
            (case structuredData out of
               None \<Rightarrow> Panic
             | Some sd \<Rightarrow>
                 (case fmlookup sd (m_currentelem m) of
                    None \<Rightarrow> Panic
                  | Some params \<Rightarrow>
                      k (out\<lparr>structuredData :=
                             Some (fmupd (m_currentelem m)
                                     (fmupd (m_currentparam m) txt params) sd)\<rparr>)))))"

definition set_msg :: "bytes \<Rightarrow> syslogMessage \<Rightarrow> syslogMessage" where
  "set_msg t out = out\<lparr>message := t\<rparr>"

text \<open>\<open>err_sdid\<close>: the current element is deleted; no element left clears \<open>hasElements\<close>.\<close>

definition del_elem :: "bytes \<Rightarrow> syslogMessage \<Rightarrow> syslogMessage" where
  "del_elem e out =
     (let sd = map_option (fmdrop e) (structuredData out);
          o' = out\<lparr>structuredData := sd\<rparr>
      in if (case sd of None \<Rightarrow> True | Some x \<Rightarrow> fmdom x = {||})
         then o'\<lparr>hasElements := False\<rparr> else o')"

definition err_sdid :: "machine \<Rightarrow> syslogMessage \<Rightarrow> outcome" where
  "err_sdid m out = fail_with ErrSdID m (del_elem (m_currentelem m) out)"

text \<open>\<open>err_sdparam\<close>: the current parameter of the current element is deleted.\<close>

definition del_param :: "bytes \<Rightarrow> bytes \<Rightarrow> syslogMessage \<Rightarrow> syslogMessage" where
  "del_param e n out =
     (case structuredData out of
        None \<Rightarrow> out
      | Some sd \<Rightarrow>
          (case fmlookup sd e of
             None \<Rightarrow> out
           | Some params \<Rightarrow> out\<lparr>structuredData := Some (fmupd e (fmdrop n params) sd)\<rparr>))"

definition err_sdparam :: "machine \<Rightarrow> syslogMessage \<Rightarrow> outcome" where
  "err_sdparam m out = fail_with ErrSdParam m (del_param (m_currentelem m) (m_currentparam m) out)"

text \<open>
  \<open>err_msg\<close>: what was read of the message so far is kept. \<open>m.data[m.msgat:m.p]\<close> is a slice.
\<close>

definition err_msg :: "machine \<Rightarrow> syslogMessage \<Rightarrow> outcome" where
  "err_msg m out =
     (let k = (if m_compliantMsg m then ErrMsgNotCompliant else ErrMsg) in
      if m_msgat m > 0 then
        (case gslice (m_data m) (m_msgat m) (m_p m) of
           None \<Rightarrow> Panic
         | Some t \<Rightarrow> fail_with k m (set_msg t out))
      else fail_with k m out)"

section \<open>Steps\<close>

text \<open>PRI: states 1, 2, 3, 593, 594, 595. The digits read so far are converted in each state.\<close>

definition step_pri :: "nat \<Rightarrow> byte \<Rightarrow> machine \<Rightarrow> syslogMessage \<Rightarrow> outcome" where
  "step_pri cs b m out =
     (if cs = 1 then
        (if b = 60 then Next (goto_st 2 m) out else fail_with ErrPri m out)
      else if cs = 2 then
        (if b = 48 then Next (goto_st 3 (mark m)) out
         else if b = 49 then Next (goto_st 593 (mark m)) out
         else if in_range 50 57 b then Next (goto_st 594 (mark m)) out
         else fail_with ErrPrival m out)
      else
        with_text m (\<lambda>t. let out = set_prival t out in
          if b = 62 then Next (goto_st 4 m) out
          else if cs = 593 \<and> b = 57 then Next (goto_st 595 m) out
          else if cs = 593 \<and> in_range 48 56 b then Next (goto_st 594 m) out
          else if cs = 594 \<and> in_range 48 57 b then Next (goto_st 3 m) out
          else if cs = 595 \<and> in_range 48 49 b then Next (goto_st 3 m) out
          else fail_with ErrPrival m out))"

text \<open>VERSION: states 4, 5, 591, 592.\<close>

definition step_version :: "nat \<Rightarrow> byte \<Rightarrow> machine \<Rightarrow> syslogMessage \<Rightarrow> outcome" where
  "step_version cs b m out =
     (if cs = 4 then
        (if in_range 49 57 b then Next (goto_st 5 (mark m)) out else fail_with ErrVersion m out)
      else
        with_text m (\<lambda>t. let out = set_version t out in
          if b = 32 then Next (goto_st 6 m) out
          else if cs = 5 \<and> in_range 48 57 b then Next (goto_st 591 m) out
          else if cs = 591 \<and> in_range 48 57 b then Next (goto_st 592 m) out
          else fail_with (if cs = 5 then ErrParse else ErrVersion) m out))"

text \<open>
  The transitions of TIMESTAMP that only read: states 554 (second digit of the year) to 577 and
  579 to 590, as a table from a state and a byte to the next state.
\<close>

definition timestamp_next :: "nat \<Rightarrow> byte \<Rightarrow> nat option" where
  "timestamp_next cs b =
     (if cs = 554 \<and> is_digit b then Some 555
      else if cs = 555 \<and> is_digit b then Some 556
      else if cs = 556 \<and> is_digit b then Some 557
      else if cs = 557 \<and> b = 45 then Some 558
      else if cs = 558 \<and> b = 48 then Some 559
      else if cs = 558 \<and> b = 49 then Some 590
      else if cs = 559 \<and> in_range 49 57 b then Some 560
      else if cs = 560 \<and> b = 45 then Some 561
      else if cs = 561 \<and> b = 48 then Some 562
      else if cs = 561 \<and> b = 51 then Some 589
      else if cs = 561 \<and> in_range 49 50 b then Some 588
      else if cs = 562 \<and> in_range 49 57 b then Some 563
      else if cs = 563 \<and> b = 84 then Some 564
      else if cs = 564 \<and> b = 50 then Some 587
      else if cs = 564 \<and> in_range 48 49 b then Some 565
      else if cs = 565 \<and> is_digit b then Some 566
      else if cs = 566 \<and> b = 58 then Some 567
      else if cs = 567 \<and> in_range 48 53 b then Some 568
      else if cs = 568 \<and> is_digit b then Some 569
      else if cs = 569 \<and> b = 58 then Some 570
      else if cs = 570 \<and> in_range 48 53 b then Some 571
      else if cs = 571 \<and> is_digit b then Some 572
      else if cs = 572 \<and> (b = 43 \<or> b = 45) then Some 573
      else if cs = 572 \<and> b = 46 then Some 580
      else if cs = 572 \<and> b = 90 then Some 578
      else if cs = 573 \<and> b = 50 then Some 579
      else if cs = 573 \<and> in_range 48 49 b then Some 574
      else if cs = 574 \<and> is_digit b then Some 575
      else if cs = 575 \<and> b = 58 then Some 576
      else if cs = 576 \<and> in_range 48 53 b then Some 577
      else if cs = 577 \<and> is_digit b then Some 578
      else if cs = 579 \<and> in_range 48 51 b then Some 575
      else if cs = 580 \<and> is_digit b then Some 581
      else if 581 \<le> cs \<and> cs \<le> 586 \<and> (b = 43 \<or> b = 45) then Some 573
      else if 581 \<le> cs \<and> cs \<le> 586 \<and> b = 90 then Some 578
      else if 581 \<le> cs \<and> cs \<le> 585 \<and> is_digit b then Some (cs + 1)
      else if cs = 587 \<and> in_range 48 51 b then Some 566
      else if cs = 588 \<and> is_digit b then Some 563
      else if cs = 589 \<and> in_range 48 49 b then Some 563
      else if cs = 590 \<and> in_range 48 50 b then Some 560
      else None)"

text \<open>TIMESTAMP: states 6 and 7 (the nil value) and the states of \<open>timestamp_next\<close> with 578.\<close>

definition step_timestamp :: "nat \<Rightarrow> byte \<Rightarrow> machine \<Rightarrow> syslogMessage \<Rightarrow> outcome" where
  "step_timestamp cs b m out =
     (if cs = 6 then
        (if b = 45 then Next (goto_st 7 m) out
         else if is_digit b then Next (goto_st 554 (mark m)) out
         else fail_with ErrTimestamp m out)
      else if cs = 7 then
        (if b = 32 then Next (goto_st 8 m) out else fail_with ErrParse m out)
      else if cs = 578 then
        set_timestamp m out (\<lambda>out.
          if b = 32 then Next (goto_st 8 m) out else fail_with ErrParse m out)
      else
        (case timestamp_next cs b of
           Some n \<Rightarrow> Next (goto_st n m) out
         | None \<Rightarrow> fail_with ErrTimestamp m out))"

text \<open>
  A header field of visible characters: from the state \<open>first\<close> one visible byte is marked; then
  the state \<open>first + 1\<close> and the chain \<open>lo..hi\<close> count further bytes up to a space, which stores the
  field and goes to the state \<open>done\<close>. In the last state only the space is accepted.
\<close>

definition step_field ::
    "nat \<Rightarrow> nat \<Rightarrow> nat \<Rightarrow> nat \<Rightarrow> err_kind \<Rightarrow> (bytes \<Rightarrow> syslogMessage \<Rightarrow> syslogMessage) \<Rightarrow>
     nat \<Rightarrow> byte \<Rightarrow> machine \<Rightarrow> syslogMessage \<Rightarrow> outcome" where
  "step_field first lo hi done err setter cs b m out =
     (if cs = first then
        (if is_graph b then Next (goto_st (first + 1) (mark m)) out else fail_with err m out)
      else if b = 32 then with_text m (\<lambda>t. Next (goto_st done m) (setter t out))
      else if is_graph b \<and> cs = first + 1 then Next (goto_st lo m) out
      else if is_graph b \<and> lo \<le> cs \<and> cs < hi then Next (goto_st (cs + 1) m) out
      else fail_with err m out)"

definition step_hostname :: "nat \<Rightarrow> byte \<Rightarrow> machine \<Rightarrow> syslogMessage \<Rightarrow> outcome" where
  "step_hostname = step_field 8 300 553 10 ErrHostname (\<lambda>t out. out\<lparr>hostname := t\<rparr>)"

definition step_appname :: "nat \<Rightarrow> byte \<Rightarrow> machine \<Rightarrow> syslogMessage \<Rightarrow> outcome" where
  "step_appname = step_field 10 253 299 12 ErrAppname (\<lambda>t out. out\<lparr>appname := t\<rparr>)"

definition step_procid :: "nat \<Rightarrow> byte \<Rightarrow> machine \<Rightarrow> syslogMessage \<Rightarrow> outcome" where
  "step_procid = step_field 12 126 252 14 ErrProcID (\<lambda>t out. out\<lparr>procID := t\<rparr>)"

definition step_msgid :: "nat \<Rightarrow> byte \<Rightarrow> machine \<Rightarrow> syslogMessage \<Rightarrow> outcome" where
  "step_msgid = step_field 14 95 125 16 ErrMsgID (\<lambda>t out. out\<lparr>msgID := t\<rparr>)"

text \<open>The bytes of an SD-NAME: visible, except the double quote, the equals sign and the bracket.\<close>

definition is_sdname :: "byte \<Rightarrow> bool" where
  [byte_class]: "is_sdname b \<longleftrightarrow>
     b = 33 \<or> 35 \<le> b \<and> b \<le> 60 \<or> 62 \<le> b \<and> b \<le> 92 \<or> 94 \<le> b \<and> b \<le> 126"

text \<open>STRUCTURED-DATA, the element id: states 16, 606, 17, 18 and the chain 64..94.\<close>

definition step_sdid :: "nat \<Rightarrow> byte \<Rightarrow> machine \<Rightarrow> syslogMessage \<Rightarrow> outcome" where
  "step_sdid cs b m out =
     (if cs = 16 then
        (if b = 45 then Next (goto_st 603 m) out
         else if b = 91 then Next (goto_st 17 m) (ini_elements out)
         else fail_with ErrStructuredData m out)
      else if cs = 606 then
        (if b = 32 then Next (goto_st 604 m) out
         else if b = 91 then Next (goto_st 17 m) out
         else fail_with ErrStructuredData m out)
      else if cs = 17 then
        (if is_sdname b then Next (goto_st 18 (mark m)) out else err_sdid m out)
      else if b = 32 then set_id m out (\<lambda>m out. Next (goto_st 19 m) out)
      else if b = 93 then set_id m out (\<lambda>m out. Next (goto_st 606 m) out)
      else if is_sdname b \<and> cs = 18 then Next (goto_st 64 m) out
      else if is_sdname b \<and> 64 \<le> cs \<and> cs < 94 then Next (goto_st (cs + 1) m) out
      else set_id m out err_sdid)"

text \<open>The parameter name: state 19, the chain 20..51, and state 52 (the opening quote).\<close>

definition step_sdname :: "nat \<Rightarrow> byte \<Rightarrow> machine \<Rightarrow> syslogMessage \<Rightarrow> outcome" where
  "step_sdname cs b m out =
     (if cs = 19 then
        (if is_sdname b then Next (goto_st 20 (mark (ini_sdparam m))) out else err_sdparam m out)
      else if cs = 52 then
        (if b = 34 then Next (goto_st 53 m) out else err_sdparam m out)
      else if b = 61 then set_paramname m (\<lambda>m. Next (goto_st 52 m) out)
      else if is_sdname b \<and> 20 \<le> cs \<and> cs < 51 then Next (goto_st (cs + 1) m) out
      else err_sdparam m out)"

text \<open>
  The states that a lead byte of a UTF-8 sequence opens inside a parameter value (57..63), and
  their continuation bytes.
\<close>

definition utf8_lead :: "byte \<Rightarrow> nat option" where
  "utf8_lead b =
     (if in_range 194 223 b then Some 0
      else if b = 224 then Some 1
      else if b = 237 then Some 3
      else if in_range 225 239 b then Some 2
      else if b = 240 then Some 4
      else if in_range 241 243 b then Some 5
      else if b = 244 then Some 6
      else None)"

text \<open>From the sequence state \<open>base + i\<close> (0..6) to the next one, or \<open>None\<close> for the character's end.\<close>

definition utf8_cont :: "nat \<Rightarrow> byte \<Rightarrow> nat option option" where
  "utf8_cont i b =
     (if i = 0 \<and> in_range 128 191 b then Some None
      else if i = 1 \<and> in_range 160 191 b then Some (Some 0)
      else if i = 2 \<and> in_range 128 191 b then Some (Some 0)
      else if i = 3 \<and> in_range 128 159 b then Some (Some 0)
      else if i = 4 \<and> in_range 144 191 b then Some (Some 2)
      else if i = 5 \<and> in_range 128 191 b then Some (Some 2)
      else if i = 6 \<and> in_range 128 143 b then Some (Some 2)
      else None)"

text \<open>
  The parameter value: state 53 (its first byte, marked), 54 (between characters), 55 (after the
  closing quote), 56 (after a backslash) and 57..63 (inside a UTF-8 sequence).
\<close>

definition step_sdvalue :: "nat \<Rightarrow> byte \<Rightarrow> machine \<Rightarrow> syslogMessage \<Rightarrow> outcome" where
  "step_sdvalue cs b m out =
     (if cs = 53 \<or> cs = 54 then
        (let m1 = (if cs = 53 then mark m else m) in
         if b = 34 then set_paramvalue m1 out (\<lambda>out. Next (goto_st 55 m1) out)
         else if b = 92 then Next (goto_st 56 (add_slash m1)) out
         else if b = 93 then fail_with ErrEscape m out
         else if b < 128 then Next (goto_st 54 m1) out
         else (case utf8_lead b of
                 Some i \<Rightarrow> Next (goto_st (57 + i) m1) out
               | None \<Rightarrow> fail_with ErrEscape m out))
      else if cs = 55 then
        (if b = 32 then Next (goto_st 19 m) out
         else if b = 93 then Next (goto_st 606 m) out
         else err_sdparam m out)
      else if cs = 56 then
        (if b = 34 \<or> b = 92 \<or> b = 93 then Next (goto_st 54 m) out else fail_with ErrEscape m out)
      else
        (case utf8_cont (cs - 57) b of
           Some None \<Rightarrow> Next (goto_st 54 m) out
         | Some (Some i) \<Rightarrow> Next (goto_st (57 + i) m) out
         | None \<Rightarrow> err_sdparam m out))"

text \<open>
  MSG: 603 (after the nil structured data), 604 and 605 (\<open>select_msg_mode\<close>, which holds the byte
  and enters one of the two message machines), 607 and 608 (any bytes), 609..613 and 596..602
  (any bytes not starting with a BOM, or a BOM and UTF-8).
\<close>

definition step_msg :: "nat \<Rightarrow> byte \<Rightarrow> machine \<Rightarrow> syslogMessage \<Rightarrow> outcome" where
  "step_msg cs b m out =
     (if cs = 603 then
        (if b = 32 then Next (goto_st 604 m) out else fail_with ErrParse m out)
      else if cs = 604 then
        Next (m\<lparr>m_cs := if m_compliantMsg m then enMsgCompliant else enMsgAny\<rparr>) out
      else if cs = 605 then fail_with ErrParse m out
      else if cs = 607 then Next (goto_st 608 (m\<lparr>m_pb := m_p m, m_msgat := m_p m\<rparr>)) out
      else if cs = 608 then Next (goto_st 608 m) out
      else if cs = 609 then
        Next (goto_st (if b = 239 then 611 else 610) (m\<lparr>m_pb := m_p m, m_msgat := m_p m\<rparr>)) out
      else if cs = 610 then Next (goto_st 610 m) out
      else if cs = 611 then Next (goto_st (if b = 187 then 612 else 610) m) out
      else if cs = 612 then Next (goto_st (if b = 191 then 613 else 610) m) out
      else if cs = 613 then
        (if b < 128 then Next (goto_st 613 m) out
         else (case utf8_lead b of
                 Some i \<Rightarrow> Next (goto_st (596 + i) m) out
               | None \<Rightarrow> err_msg m out))
      else
        (case utf8_cont (cs - 596) b of
           Some None \<Rightarrow> Next (goto_st 613 m) out
         | Some (Some i) \<Rightarrow> Next (goto_st (596 + i) m) out
         | None \<Rightarrow> err_msg m out))"

text \<open>
  State 614 (\<open>fail\<close>): everything up to a line break is skipped; a line break leaves through
  \<open>st0\<close> with \<open>cs = 0\<close>.
\<close>

definition step_fail :: "byte \<Rightarrow> machine \<Rightarrow> syslogMessage \<Rightarrow> outcome" where
  "step_fail b m out =
     (if b = 10 \<or> b = 13 then Out (m\<lparr>m_cs := 0\<rparr>) out else Next (goto_st 614 m) out)"

text \<open>The dispatch on \<open>m.cs\<close>. State 0 leaves through \<open>st0\<close>; a number that is
  no state jumps to \<open>stOut\<close>, which runs into \<open>_testEof2\<close> (and never happens).\<close>

definition step :: "byte \<Rightarrow> machine \<Rightarrow> syslogMessage \<Rightarrow> outcome" where
  "step b m out =
     (let cs = m_cs m in
      if cs \<in> {1, 2, 3, 593, 594, 595} then step_pri cs b m out
      else if cs \<in> {4, 5, 591, 592} then step_version cs b m out
      else if cs = 6 \<or> cs = 7 \<or> 554 \<le> cs \<and> cs \<le> 590 then step_timestamp cs b m out
      else if cs = 8 \<or> cs = 9 \<or> 300 \<le> cs \<and> cs \<le> 553 then step_hostname cs b m out
      else if cs = 10 \<or> cs = 11 \<or> 253 \<le> cs \<and> cs \<le> 299 then step_appname cs b m out
      else if cs = 12 \<or> cs = 13 \<or> 126 \<le> cs \<and> cs \<le> 252 then step_procid cs b m out
      else if cs = 14 \<or> cs = 15 \<or> 95 \<le> cs \<and> cs \<le> 125 then step_msgid cs b m out
      else if cs \<in> {16, 17, 18, 606} \<or> 64 \<le> cs \<and> cs \<le> 94 then step_sdid cs b m out
      else if 19 \<le> cs \<and> cs \<le> 52 then step_sdname cs b m out
      else if 53 \<le> cs \<and> cs \<le> 63 then step_sdvalue cs b m out
      else if 603 \<le> cs \<and> cs \<le> 613 \<or> 596 \<le> cs \<and> cs \<le> 602 then step_msg cs b m out
      else if cs = 614 then step_fail b m out
      else if cs = 0 then Out (m\<lparr>m_cs := 0\<rparr>) out
      else Out (m\<lparr>m_cs := 2\<rparr>) out)"

section \<open>End of input\<close>

text \<open>
  The actions at \<open>p == eof\<close>, by state. An error action goes to \<open>st614\<close>, finds the end of the
  input there and comes back with \<open>cs = 614\<close>, which has no action: so its \<open>Next\<close> is the end.
\<close>

definition eof_message :: "nat \<Rightarrow> machine \<Rightarrow> syslogMessage \<Rightarrow> outcome" where
  "eof_message cs m out =
     (if cs \<in> {608, 610, 611, 612, 613} then with_text m (\<lambda>t. Out m (set_msg t out))
      else if 596 \<le> cs \<and> cs \<le> 602 then err_msg m out
      else if cs = 607 \<or> cs = 609 then
        (let m = m\<lparr>m_pb := m_p m, m_msgat := m_p m\<rparr> in with_text m (\<lambda>t. Out m (set_msg t out)))
      else Out m out)"

definition eof_header :: "nat \<Rightarrow> machine \<Rightarrow> syslogMessage \<Rightarrow> outcome" where
  "eof_header cs m out =
     (if cs = 1 then fail_with ErrPri m out
      else if cs = 7 then fail_with ErrParse m out
      else if cs = 5 then with_text m (\<lambda>t. fail_with ErrParse m (set_version t out))
      else if cs = 578 then set_timestamp m out (\<lambda>out. fail_with ErrParse m out)
      else if cs \<in> {2, 3, 593, 594, 595} then fail_with ErrPrival m out
      else if cs = 4 then fail_with ErrVersion m out
      else if cs = 6 \<or> 554 \<le> cs \<and> cs \<le> 590 then fail_with ErrTimestamp m out
      else if cs = 8 \<or> cs = 9 \<or> 300 \<le> cs \<and> cs \<le> 553 then fail_with ErrHostname m out
      else if cs = 10 \<or> cs = 11 \<or> 253 \<le> cs \<and> cs \<le> 299 then fail_with ErrAppname m out
      else if cs = 12 \<or> cs = 13 \<or> 126 \<le> cs \<and> cs \<le> 252 then fail_with ErrProcID m out
      else if cs = 14 \<or> cs = 15 \<or> 95 \<le> cs \<and> cs \<le> 125 then fail_with ErrMsgID m out
      else if cs = 16 then fail_with ErrStructuredData m out
      else if cs = 591 \<or> cs = 592 then fail_with ErrVersion m out
      else eof_message cs m out)"

definition eof_actions :: "machine \<Rightarrow> syslogMessage \<Rightarrow> outcome" where
  "eof_actions m out =
     (let cs = m_cs m in
      if cs = 17 then err_sdid m out
      else if cs = 53 \<or> cs = 54 \<or> cs = 56 then fail_with ErrEscape m out
      else if 19 \<le> cs \<and> cs \<le> 63 then err_sdparam m out
      else if cs = 18 \<or> 64 \<le> cs \<and> cs \<le> 94 then set_id m out err_sdid
      else eof_header cs m out)"

definition finish :: "outcome \<Rightarrow> (machine \<times> syslogMessage) option" where
  "finish r = (case r of Panic \<Rightarrow> None | Out m out \<Rightarrow> Some (m, out) | Next m out \<Rightarrow> Some (m, out))"

section \<open>Progress\<close>

text \<open>
  Every step but the held ones advances \<open>p\<close>; a held step enters the error state 614 or one of the
  two message machines, and these states always advance. This is the measure of the run.
\<close>

definition waiting :: "nat \<Rightarrow> bool" where
  "waiting cs \<longleftrightarrow> cs = 607 \<or> cs = 609 \<or> cs = 614"

fun progress :: "machine \<Rightarrow> outcome \<Rightarrow> bool" where
  "progress m (Next m' out) \<longleftrightarrow>
     m_data m' = m_data m \<and> m_pe m' = m_pe m \<and>
     (m_p m' = m_p m + 1 \<or> m_p m' = m_p m \<and> \<not> waiting (m_cs m) \<and> waiting (m_cs m'))"
| "progress m Panic = True"
| "progress m (Out m' out) = True"

named_theorems action_defs \<open>the actions of the machine, for a case analysis of a step\<close>

lemmas [action_defs] = goto_st_def mark_def fail_with_def with_text_def set_timestamp_def set_id_def
  ini_sdparam_def add_slash_def set_paramname_def set_paramvalue_def err_sdid_def err_sdparam_def
  err_msg_def enFail_def enMsgAny_def enMsgCompliant_def

text \<open>The fields that the actions on the machine leave alone.\<close>

lemma mark_simps [simp]:
  "m_data (mark m) = m_data m" "m_p (mark m) = m_p m" "m_pe (mark m) = m_pe m"
  "m_eof (mark m) = m_eof m" "m_cs (mark m) = m_cs m" "m_pb (mark m) = m_p m"
  "m_msgat (mark m) = m_msgat m" "m_backslashat (mark m) = m_backslashat m"
  "m_currentelem (mark m) = m_currentelem m" "m_currentparam (mark m) = m_currentparam m"
  "m_err (mark m) = m_err m" "m_compliantMsg (mark m) = m_compliantMsg m"
  "m_bestEffort (mark m) = m_bestEffort m" "m_optionalPriority (mark m) = m_optionalPriority m"
  by (simp_all add: mark_def)

lemma goto_simps [simp]:
  "m_data (goto_st n m) = m_data m" "m_p (goto_st n m) = m_p m + 1" "m_pe (goto_st n m) = m_pe m"
  "m_eof (goto_st n m) = m_eof m" "m_cs (goto_st n m) = n" "m_pb (goto_st n m) = m_pb m"
  "m_msgat (goto_st n m) = m_msgat m" "m_backslashat (goto_st n m) = m_backslashat m"
  "m_currentelem (goto_st n m) = m_currentelem m" "m_currentparam (goto_st n m) = m_currentparam m"
  "m_err (goto_st n m) = m_err m" "m_compliantMsg (goto_st n m) = m_compliantMsg m"
  "m_bestEffort (goto_st n m) = m_bestEffort m" "m_optionalPriority (goto_st n m) = m_optionalPriority m"
  by (simp_all add: goto_st_def)

lemma slash_simps [simp]:
  "m_data (add_slash m) = m_data m" "m_p (add_slash m) = m_p m" "m_pe (add_slash m) = m_pe m"
  "m_eof (add_slash m) = m_eof m" "m_pb (add_slash m) = m_pb m" "m_msgat (add_slash m) = m_msgat m"
  "m_backslashat (add_slash m) = m_backslashat m @ [m_p m]"
  "m_currentelem (add_slash m) = m_currentelem m" "m_currentparam (add_slash m) = m_currentparam m"
  "m_cs (add_slash m) = m_cs m"
  "m_data (ini_sdparam m) = m_data m" "m_p (ini_sdparam m) = m_p m" "m_pe (ini_sdparam m) = m_pe m"
  "m_eof (ini_sdparam m) = m_eof m" "m_pb (ini_sdparam m) = m_pb m"
  "m_msgat (ini_sdparam m) = m_msgat m" "m_backslashat (ini_sdparam m) = []"
  "m_currentelem (ini_sdparam m) = m_currentelem m"
  "m_currentparam (ini_sdparam m) = m_currentparam m"
  "m_cs (ini_sdparam m) = m_cs m"
  "m_err (add_slash m) = m_err m" "m_err (ini_sdparam m) = m_err m"
  "m_bestEffort (add_slash m) = m_bestEffort m" "m_bestEffort (ini_sdparam m) = m_bestEffort m"
  "m_compliantMsg (add_slash m) = m_compliantMsg m"
  "m_compliantMsg (ini_sdparam m) = m_compliantMsg m"
  by (simp_all add: add_slash_def ini_sdparam_def)

lemma progress_goto [simp]:
  "m_data m1 = m_data m \<Longrightarrow> m_p m1 = m_p m \<Longrightarrow> m_pe m1 = m_pe m \<Longrightarrow>
    progress m (Next (goto_st n m1) out)"
  by simp

lemma progress_fail:
  "\<not> waiting (m_cs m) \<Longrightarrow> m_data m1 = m_data m \<Longrightarrow> m_p m1 = m_p m \<Longrightarrow> m_pe m1 = m_pe m \<Longrightarrow>
    progress m (fail_with k m1 out)"
  by (simp add: fail_with_def enFail_def waiting_def)

lemma progress_text: "(\<And>t. progress m (k t)) \<Longrightarrow> progress m (with_text m1 k)"
  by (simp add: with_text_def split: option.splits)

lemma progress_timestamp:
  "\<not> waiting (m_cs m) \<Longrightarrow> (\<And>out. progress m (k out)) \<Longrightarrow> progress m (set_timestamp m out k)"
  by (auto simp: set_timestamp_def intro!: progress_text progress_fail split: sum.splits)

lemma progress_paramvalue:
  "(\<And>out. progress m (k out)) \<Longrightarrow> progress m (set_paramvalue m1 out k)"
  by (auto simp: set_paramvalue_def intro!: progress_text split: option.splits)

lemma progress_id:
  "\<not> waiting (m_cs m) \<Longrightarrow> (\<And>m1 out. m_data m1 = m_data m \<Longrightarrow> m_p m1 = m_p m \<Longrightarrow>
      m_pe m1 = m_pe m \<Longrightarrow> progress m (k m1 out)) \<Longrightarrow>
    progress m (set_id m out k)"
  by (auto simp: set_id_def intro!: progress_text progress_fail split: option.splits)

lemma progress_paramname:
  "(\<And>m1. m_data m1 = m_data m \<Longrightarrow> m_p m1 = m_p m \<Longrightarrow> m_pe m1 = m_pe m \<Longrightarrow>
      progress m (k m1)) \<Longrightarrow> progress m (set_paramname m k)"
  by (auto simp: set_paramname_def intro!: progress_text)

lemma progress_err:
  assumes "\<not> waiting (m_cs m)" "m_data m1 = m_data m" "m_p m1 = m_p m" "m_pe m1 = m_pe m"
  shows "progress m (err_sdid m1 out)" "progress m (err_sdparam m1 out)" "progress m (err_msg m1 out)"
  using assms
  by (auto simp: err_sdid_def err_sdparam_def err_msg_def Let_def intro!: progress_fail
      split: option.splits)

lemmas progress_intros =
  progress_fail progress_text progress_timestamp progress_paramvalue progress_id
  progress_paramname progress_err

lemma step_pri_progress: "\<not> waiting (m_cs m) \<Longrightarrow> progress m (step_pri cs b m out)"
  by (simp add: step_pri_def Let_def progress_intros)

lemma step_version_progress: "\<not> waiting (m_cs m) \<Longrightarrow> progress m (step_version cs b m out)"
  by (simp add: step_version_def Let_def progress_intros)

lemma step_timestamp_progress: "\<not> waiting (m_cs m) \<Longrightarrow> progress m (step_timestamp cs b m out)"
  by (simp add: step_timestamp_def progress_intros split: option.split)

lemma step_field_progress: "\<not> waiting (m_cs m) \<Longrightarrow> progress m (step_field f lo hi d e g cs b m out)"
  by (simp add: step_field_def progress_intros)

lemma step_sdid_progress: "\<not> waiting (m_cs m) \<Longrightarrow> progress m (step_sdid cs b m out)"
  by (simp add: step_sdid_def progress_intros)

lemma step_sdname_progress: "\<not> waiting (m_cs m) \<Longrightarrow> progress m (step_sdname cs b m out)"
  by (simp add: step_sdname_def progress_intros)

lemma step_sdvalue_progress: "\<not> waiting (m_cs m) \<Longrightarrow> progress m (step_sdvalue cs b m out)"
  by (simp add: step_sdvalue_def Let_def progress_intros split: option.split)

lemma step_msg_progress:
  "cs = m_cs m \<Longrightarrow> cs \<noteq> 614 \<Longrightarrow> progress m (step_msg cs b m out)"
  by (cases "waiting cs")
    (auto simp: step_msg_def waiting_def enMsgAny_def enMsgCompliant_def
      intro!: progress_intros split: option.split)

lemma step_progress: "progress m (step b m out)"
proof (cases "waiting (m_cs m)")
  case True
  then consider "m_cs m = 607" | "m_cs m = 609" | "m_cs m = 614"
    by (auto simp: waiting_def)
  then show ?thesis
    by cases (simp_all add: step_def step_fail_def step_msg_progress)
next
  case False
  then show ?thesis
    by (simp add: step_def Let_def step_hostname_def step_appname_def step_procid_def
        step_msgid_def step_pri_progress step_version_progress step_timestamp_progress
        step_field_progress step_sdid_progress step_sdname_progress step_sdvalue_progress
        step_msg_progress step_fail_def)
qed

section \<open>The run\<close>

text \<open>
  The loop: \<open>goto _testEof\<close> when \<open>p == pe\<close>, else the code of the current state on \<open>data[p]\<close>.
\<close>

definition run_measure :: "machine \<Rightarrow> nat" where
  "run_measure m = 2 * (length (m_data m) - m_p m) + (if waiting (m_cs m) then 0 else 1)"

function run :: "machine \<Rightarrow> syslogMessage \<Rightarrow> (machine \<times> syslogMessage) option" where
  "run m out =
     (if m_p m = m_pe m then
        (if m_p m = m_eof m then finish (eof_actions m out) else Some (m, out))
      else (case gindex (m_data m) (m_p m) of
              None \<Rightarrow> None
            | Some b \<Rightarrow>
                (case step b m out of
                   Panic \<Rightarrow> None
                 | Out m' out' \<Rightarrow> Some (m', out')
                 | Next m' out' \<Rightarrow> run m' out')))"
  by pat_completeness auto
termination
proof (relation "measure (\<lambda>(m, out). run_measure m)", goal_cases)
  case (2 m out b m' out')
  from 2(2) have "m_p m < length (m_data m)"
    by (auto simp: gindex_def split: if_splits)
  with step_progress [of m b out] 2(3) show ?case
    by (auto simp: run_measure_def)
qed simp

declare run.simps [simp del]

text \<open>\<open>Parse\<close>. \<open>None\<close> is a panic; otherwise the machine after the call, the message and the error.\<close>

definition init_parse :: "bytes \<Rightarrow> machine \<Rightarrow> machine" where
  "init_parse input m =
     m\<lparr>m_data := input, m_p := 0, m_pb := 0, m_msgat := 0, m_backslashat := [],
       m_pe := length input, m_eof := length input, m_err := None,
       m_cs := (if m_optionalPriority m \<and> \<not> (input \<noteq> [] \<and> input ! 0 = 60)
                then enMainMessageBody else start)\<rparr>"

definition parse_result ::
    "machine \<Rightarrow> syslogMessage \<Rightarrow> SyslogMessage option \<times> perror option" where
  "parse_result m out =
     (if m_cs m < firstFinal \<or> m_cs m = enFail then
        (if m_bestEffort m \<and> minimal out then (Some (export out), m_err m) else (None, m_err m))
      else (Some (export out), None))"

definition Parse ::
    "machine \<Rightarrow> bytes \<Rightarrow> (machine \<times> SyslogMessage option \<times> perror option) option" where
  "Parse m input =
     (case run (init_parse input m) (syslogMessage_init (m_optionalPriority m)) of
        None \<Rightarrow> None
      | Some (m', out) \<Rightarrow> Some (m', parse_result m' out))"

end
