(* ===== verification/RFC5424_Safety.thy ===== *)
theory RFC5424_Safety
  imports RFC5424_Machine
begin

text \<open>
  Run-time safety of the RFC 5424 machine: no input makes \<open>Parse\<close> slice or index out of range,
  or write to a nil map. The invariant relates the pointers of the machine, the structured-data maps
  and the recorded backslashes to the state number; every step keeps it.
\<close>

section \<open>The invariant\<close>

definition wf_ptr :: "machine \<Rightarrow> bool" where
  "wf_ptr m \<longleftrightarrow>
     m_pe m = length (m_data m) \<and> m_eof m = length (m_data m) \<and> m_p m \<le> length (m_data m) \<and>
     m_pb m \<le> m_p m \<and> m_msgat m \<le> m_p m"

definition slashes_ok :: "machine \<Rightarrow> bool" where
  "slashes_ok m \<longleftrightarrow>
     sorted_wrt (<) (m_backslashat m) \<and> (\<forall>x\<in>set (m_backslashat m). m_pb m \<le> x \<and> x < m_p m)"

definition elem_ok :: "machine \<Rightarrow> syslogMessage \<Rightarrow> bool" where
  "elem_ok m out \<longleftrightarrow>
     (\<exists>sd. structuredData out = Some sd \<and> fmlookup sd (m_currentelem m) \<noteq> None)"

definition sd_ok :: "machine \<Rightarrow> syslogMessage \<Rightarrow> bool" where
  "sd_ok m out \<longleftrightarrow>
     (m_cs m \<in> {17, 18, 606} \<or> 64 \<le> m_cs m \<and> m_cs m \<le> 94 \<longrightarrow> structuredData out \<noteq> None) \<and>
     (19 \<le> m_cs m \<and> m_cs m \<le> 63 \<longrightarrow> elem_ok m out) \<and>
     (20 \<le> m_cs m \<and> m_cs m \<le> 53 \<longrightarrow> m_backslashat m = []) \<and>
     (54 \<le> m_cs m \<and> m_cs m \<le> 63 \<and> m_cs m \<noteq> 55 \<longrightarrow> slashes_ok m)"

fun safe :: "outcome \<Rightarrow> bool" where
  "safe Panic = False"
| "safe (Out m out) = wf_ptr m"
| "safe (Next m out) = (wf_ptr m \<and> sd_ok m out)"

text \<open>A conditional is taken apart as a rule, so that each leaf is one goal with its guards.\<close>

lemma safe_if: "(c \<Longrightarrow> safe x) \<Longrightarrow> (\<not> c \<Longrightarrow> safe y) \<Longrightarrow> safe (if c then x else y)"
  by simp

lemma safe_option:
  "(x = None \<Longrightarrow> safe y) \<Longrightarrow> (\<And>v. x = Some v \<Longrightarrow> safe (f v)) \<Longrightarrow>
    safe (case x of None \<Rightarrow> y | Some v \<Rightarrow> f v)"
  by (cases x) simp_all

lemma m_text_defined: "wf_ptr m \<Longrightarrow> \<exists>t. m_text m = Some t"
  by (simp add: m_text_def wf_ptr_def gslice_def)

lemma wf_ptr_mark [simp]: "wf_ptr m \<Longrightarrow> wf_ptr (mark m)"
  by (simp add: wf_ptr_def)

lemma wf_ptr_slash [simp]: "wf_ptr (add_slash m) = wf_ptr m" "wf_ptr (ini_sdparam m) = wf_ptr m"
  by (simp_all add: wf_ptr_def)

lemma wf_ptr_elem [simp]:
  "wf_ptr (m\<lparr>m_currentelem := e\<rparr>) = wf_ptr m" "wf_ptr (m\<lparr>m_currentparam := e\<rparr>) = wf_ptr m"
  by (simp_all add: wf_ptr_def)

lemma wf_ptr_goto: "wf_ptr m \<Longrightarrow> m_p m < length (m_data m) \<Longrightarrow> wf_ptr (goto_st n m)"
  by (simp add: wf_ptr_def)

lemma safe_fail [simp]: "wf_ptr m \<Longrightarrow> safe (fail_with k m out)"
  by (simp add: fail_with_def enFail_def wf_ptr_def sd_ok_def)

lemma safe_text: "wf_ptr m \<Longrightarrow> (\<And>t. safe (k t)) \<Longrightarrow> safe (with_text m k)"
  using m_text_defined [of m] by (auto simp: with_text_def)

lemma safe_timestamp:
  "wf_ptr m \<Longrightarrow> (\<And>out. safe (k out)) \<Longrightarrow> safe (set_timestamp m out k)"
  by (auto simp: set_timestamp_def intro!: safe_text split: sum.splits)

lemma safe_id:
  assumes "wf_ptr m" "structuredData out \<noteq> None"
    and "\<And>t sd. safe (k (m\<lparr>m_currentelem := t\<rparr>)
           (out\<lparr>structuredData := Some (fmupd t fmempty sd), hasElements := True\<rparr>))"
  shows "safe (set_id m out k)"
  using assms by (auto simp: set_id_def intro!: safe_text split: option.splits)

lemma safe_err:
  assumes "wf_ptr m"
  shows "safe (err_sdid m out)" "safe (err_sdparam m out)" "safe (err_msg m out)"
  using assms
  by (auto simp: err_sdid_def err_sdparam_def err_msg_def Let_def wf_ptr_def gslice_def
      split: option.splits)

lemma remove_loop_defined:
  "sorted_wrt (<) ps \<Longrightarrow> \<forall>x\<in>set ps. offset + i \<le> x \<and> x < offset + i + length cp \<Longrightarrow>
    \<exists>r. remove_loop cp ps i offset = Some r"
proof (induction ps arbitrary: cp i)
  case Nil
  then show ?case by simp
next
  case (Cons x ps)
  let ?k = "x - i - offset"
  from Cons.prems have k: "?k < length cp" "offset + i \<le> x"
    by auto
  then have at: "nat (int x - int i - int offset) = ?k"
    by linarith
  have "\<exists>r. remove_loop (take ?k cp @ drop (?k + 1) cp) ps (i + 1) offset = Some r"
    using Cons.prems k by (intro Cons.IH) force+
  with k at show ?case
    by (simp add: Let_def)
qed

lemma safe_paramvalue:
  assumes "wf_ptr m" "elem_ok m out" "slashes_ok m"
    and "\<And>sd params. structuredData out = Some sd \<Longrightarrow>
      safe (k (out\<lparr>structuredData := Some (fmupd (m_currentelem m) params sd)\<rparr>))"
    and "safe (k out)"
  shows "safe (set_paramvalue m out k)"
proof -
  from assms(1) obtain t where t: "m_text m = Some t"
    using m_text_defined by blast
  then have len: "m_pb m + length t = m_p m"
    using assms(1) slice_length [of "m_data m" "m_pb m" "m_p m" t]
    by (simp add: m_text_def wf_ptr_def)
  have "\<exists>r. RemoveBytes t (m_backslashat m) (m_pb m) = Some r"
    unfolding RemoveBytes_def using assms(3) len
    by (intro remove_loop_defined) (auto simp: slashes_ok_def)
  then obtain r where r: "RemoveBytes t (m_backslashat m) (m_pb m) = Some r" ..
  from assms(2) obtain sd ps where sd: "structuredData out = Some sd"
    "fmlookup sd (m_currentelem m) = Some ps"
    by (auto simp: elem_ok_def)
  show ?thesis
    using t r sd assms(4) [OF sd(1)] assms(5)
    by (simp add: set_paramvalue_def with_text_def)
qed

section \<open>Every step is safe\<close>

lemma sd_ok_other:
  "\<not> (17 \<le> n \<and> n \<le> 94 \<or> n = 606) \<Longrightarrow> sd_ok (goto_st n m) out"
  by (auto simp: sd_ok_def)

lemma safe_goto_other:
  "wf_ptr m \<Longrightarrow> m_p m < length (m_data m) \<Longrightarrow> \<not> (17 \<le> n \<and> n \<le> 94 \<or> n = 606) \<Longrightarrow>
    safe (Next (goto_st n m) out)"
  by (simp add: wf_ptr_goto sd_ok_other)

lemma step_pri_safe:
  "wf_ptr m \<Longrightarrow> m_p m < length (m_data m) \<Longrightarrow> safe (step_pri cs b m out)"
  by (simp add: step_pri_def Let_def safe_text safe_goto_other del: safe.simps)

lemma step_version_safe:
  "wf_ptr m \<Longrightarrow> m_p m < length (m_data m) \<Longrightarrow> safe (step_version cs b m out)"
  by (simp add: step_version_def Let_def safe_text safe_goto_other del: safe.simps)

lemma timestamp_next_range: "timestamp_next cs b = Some n \<Longrightarrow> 555 \<le> n \<and> n \<le> 590"
  by (auto simp: timestamp_next_def split: if_splits)

lemma step_timestamp_safe:
  assumes "wf_ptr m" "m_p m < length (m_data m)"
  shows "safe (step_timestamp cs b m out)"
  unfolding step_timestamp_def
  by (intro safe_if safe_option safe_timestamp safe_fail safe_goto_other)
    (use assms timestamp_next_range in fastforce)+

lemma step_field_safe:
  assumes "wf_ptr m" "m_p m < length (m_data m)" "f < 16" "d < 17" "94 < lo" "lo < 606" "hi < 606"
  shows "safe (step_field f lo hi d e g cs b m out)"
  unfolding step_field_def
  by (intro safe_if safe_text safe_fail safe_goto_other) (use assms in simp_all)

lemma step_sdid_safe:
  assumes "wf_ptr m" "m_p m < length (m_data m)" "sd_ok m out" "cs = m_cs m"
    and "cs \<in> {16, 17, 18, 606} \<or> 64 \<le> cs \<and> cs \<le> 94"
  shows "safe (step_sdid cs b m out)"
proof -
  have sd: "structuredData out \<noteq> None" if "cs \<noteq> 16"
    using assms(3-5) that by (auto simp: sd_ok_def)
  have chain: "safe (Next (goto_st n m1) out)"
    if "(n = 17 \<or> n = 18 \<or> 64 \<le> n \<and> n \<le> 94) \<and> cs \<noteq> 16 \<or> n = 603 \<or> n = 604"
      "m1 = m \<or> m1 = mark m" for n m1
    using that assms(1,2) sd by (auto simp: sd_ok_def wf_ptr_goto)
  have ini: "safe (Next (goto_st 17 m) (ini_elements out))"
    using assms by (simp add: wf_ptr_goto sd_ok_def ini_elements_def)
  have id: "safe (set_id m out (\<lambda>m out. Next (goto_st n m) out))"
    if "n = 19 \<or> n = 606" "cs \<noteq> 16" for n
    using assms(1,2) that sd by (intro safe_id) (auto simp: wf_ptr_goto sd_ok_def elem_ok_def)
  have iderr: "safe (set_id m out err_sdid)" if "cs \<noteq> 16"
    using assms(1) that sd by (intro safe_id) (auto simp: safe_err)
  show ?thesis
    unfolding step_sdid_def
    by (intro safe_if safe_fail safe_err chain ini id iderr) (use assms(1,5) in auto)
qed

lemma step_sdname_safe:
  assumes "wf_ptr m" "m_p m < length (m_data m)" "sd_ok m out" "cs = m_cs m" "19 \<le> cs" "cs \<le> 52"
  shows "safe (step_sdname cs b m out)"
proof -
  have el: "elem_ok m out" using assms by (auto simp: sd_ok_def)
  have "safe (set_paramname m (\<lambda>m. Next (goto_st 52 m) out))" if "cs \<noteq> 19"
    using that assms el unfolding set_paramname_def
    by (intro safe_text) (auto simp: wf_ptr_goto sd_ok_def elem_ok_def)
  moreover have "safe (Next (goto_st 20 (mark (ini_sdparam m))) out)"
    using assms el by (auto simp: wf_ptr_goto sd_ok_def elem_ok_def)
  moreover have "safe (Next (goto_st n m) out)" if "cs \<noteq> 19" "20 \<le> n" "n \<le> 53" for n
    using that assms el by (auto simp: wf_ptr_goto sd_ok_def elem_ok_def)
  ultimately show ?thesis
    using assms by (auto simp: step_sdname_def safe_err simp del: safe.simps)
qed

lemma utf8_lead_range: "utf8_lead b = Some i \<Longrightarrow> i \<le> 6"
  by (auto simp: utf8_lead_def split: if_splits)

lemma utf8_cont_range: "utf8_cont i b = Some (Some j) \<Longrightarrow> j \<le> 2"
  by (auto simp: utf8_cont_def split: if_splits)

lemma slashes_ok_goto [simp]: "slashes_ok m \<Longrightarrow> slashes_ok (goto_st n m)"
  by (auto simp: slashes_ok_def)

lemma slashes_ok_mark [simp]: "m_backslashat m = [] \<Longrightarrow> slashes_ok (mark m)"
  by (simp add: slashes_ok_def)

lemma slashes_ok_add:
  "slashes_ok m \<Longrightarrow> m_pb m \<le> m_p m \<Longrightarrow> slashes_ok (goto_st n (add_slash m))"
  by (auto simp: slashes_ok_def sorted_wrt_append)

lemma step_sdvalue_safe:
  assumes wf: "wf_ptr m" and p: "m_p m < length (m_data m)" and sd: "sd_ok m out"
    and cs: "cs = m_cs m" "53 \<le> cs" "cs \<le> 63"
  shows "safe (step_sdvalue cs b m out)"
proof -
  define m1 where "m1 = (if cs = 53 then mark m else m)"
  have el: "elem_ok m out" using assms by (auto simp: sd_ok_def)
  have wf1: "wf_ptr m1" and p1: "m_p m1 < length (m_data m1)" and el1: "elem_ok m1 out"
    using wf p el by (auto simp: m1_def elem_ok_def)
  have sl1: "slashes_ok m1" if "cs \<noteq> 55"
    using that sd cs by (auto simp: m1_def sd_ok_def)
  have val: "safe (Next (goto_st n m1) out)" if "54 \<le> n" "n \<le> 63" "cs \<noteq> 55" for n
    using that wf1 p1 el1 sl1 by (auto simp: wf_ptr_goto sd_ok_def elem_ok_def)
  have val': "safe (Next (goto_st n m) out)" if "54 \<le> n" "n \<le> 63" "cs \<noteq> 55" "cs \<noteq> 53" for n
    using val [OF that(1-3)] that(4) by (simp add: m1_def)
  have slash: "safe (Next (goto_st 56 (add_slash m1)) out)" if "cs \<noteq> 55"
    using that wf1 p1 el1 sl1
    by (auto simp: wf_ptr_goto sd_ok_def elem_ok_def slashes_ok_add wf_ptr_def)
  have store: "safe (set_paramvalue m1 out (\<lambda>out. Next (goto_st 55 m1) out))" if "cs \<noteq> 55"
    using that wf1 p1 el1 sl1
    by (intro safe_paramvalue) (auto simp: wf_ptr_goto sd_ok_def elem_ok_def)
  have end55: "safe (Next (goto_st n m) out)" if "n = 19 \<or> n = 606" "cs = 55" for n
    using that wf p el by (auto simp: wf_ptr_goto sd_ok_def elem_ok_def)
  have cont: "safe (case utf8_cont (cs - 57) b of
           Some None \<Rightarrow> Next (goto_st 54 m) out
         | Some (Some i) \<Rightarrow> Next (goto_st (57 + i) m) out
         | None \<Rightarrow> err_sdparam m out)" if "cs \<noteq> 53" "cs \<noteq> 55"
  proof (cases "utf8_cont (cs - 57) b")
    case None
    then show ?thesis using wf by (simp add: safe_err)
  next
    case (Some r)
    then show ?thesis
      using val' that utf8_cont_range [of "cs - 57" b] by (cases r) (auto simp del: safe.simps)
  qed
  have lead: "57 + i \<le> 63" if "utf8_lead b = Some i" for i
    using utf8_lead_range [OF that] by simp
  show ?thesis
    unfolding step_sdvalue_def Let_def m1_def [symmetric]
    by (intro safe_if safe_option safe_fail store slash val val' end55 cont safe_err)
      (use wf lead in auto)
qed

lemma wf_ptr_msgmark [simp]: "wf_ptr m \<Longrightarrow> wf_ptr (m\<lparr>m_pb := m_p m, m_msgat := m_p m\<rparr>)"
  by (simp add: wf_ptr_def)

lemma safe_select:
  "wf_ptr m \<Longrightarrow> safe (Next (m\<lparr>m_cs := if c then enMsgCompliant else enMsgAny\<rparr>) out)"
  by (simp add: wf_ptr_def sd_ok_def enMsgCompliant_def enMsgAny_def)

lemma step_msg_safe:
  assumes wf: "wf_ptr m" and p: "m_p m < length (m_data m)" and "596 \<le> cs" "cs \<le> 613" "cs \<noteq> 606"
  shows "safe (step_msg cs b m out)"
proof -
  let ?m1 = "m\<lparr>m_pb := m_p m, m_msgat := m_p m\<rparr>"
  have to: "safe (Next (goto_st n m1) out)"
    if "596 \<le> n \<and> n \<noteq> 606" "m1 = m \<or> m1 = ?m1" for n m1
    using that wf p by (intro safe_goto_other) auto
  have go: "safe (Next (goto_st 604 m) out)" "safe (Next (goto_st 608 ?m1) out)"
    "safe (Next (goto_st 608 m) out)" "safe (Next (goto_st (if b = 239 then 611 else 610) ?m1) out)"
    "safe (Next (goto_st 610 m) out)" "safe (Next (goto_st (if b = 187 then 612 else 610) m) out)"
    "safe (Next (goto_st (if b = 191 then 613 else 610) m) out)" "safe (Next (goto_st 613 m) out)"
    by (rule to; simp)+
  have lead: "safe (Next (goto_st (596 + i) m) out)" if "utf8_lead b = Some i" for i
    by (rule to) (use utf8_lead_range [OF that] in simp_all)
  have cont: "safe (Next (goto_st (596 + i) m) out)" if "utf8_cont n b = Some (Some i)" for n i
    by (rule to) (use utf8_cont_range [OF that] in simp_all)
  have cont': "safe (Next (goto_st (596 + i) m) out)" if "utf8_cont n b = Some r" "r = Some i" for n r i
    using that by (intro cont) simp
  show ?thesis
    unfolding step_msg_def
    by (intro safe_if safe_option safe_fail safe_err safe_select go wf; (erule lead | erule (1) cont'))
qed

lemma step_safe:
  assumes "wf_ptr m" "m_p m < length (m_data m)" "sd_ok m out"
  shows "safe (step b m out)"
proof -
  have fl: "safe (step_fail b m out)" "safe (Out (m\<lparr>m_cs := n\<rparr>) out)" for n
    using assms by (auto simp: step_fail_def wf_ptr_goto sd_ok_other) (auto simp: wf_ptr_def)
  have sdi: "safe (step_sdid (m_cs m) b m out)"
    if "m_cs m \<in> {16, 17, 18, 606} \<or> 64 \<le> m_cs m \<and> m_cs m \<le> 94"
    using assms that by (intro step_sdid_safe refl)
  have sdn: "safe (step_sdname (m_cs m) b m out)" if "19 \<le> m_cs m \<and> m_cs m \<le> 52"
    using assms that by (intro step_sdname_safe refl) simp_all
  have sdv: "safe (step_sdvalue (m_cs m) b m out)" if "53 \<le> m_cs m \<and> m_cs m \<le> 63"
    using assms that by (intro step_sdvalue_safe refl) simp_all
  have msg: "safe (step_msg (m_cs m) b m out)"
    if "603 \<le> m_cs m \<and> m_cs m \<le> 613 \<or> 596 \<le> m_cs m \<and> m_cs m \<le> 602"
      "\<not> (m_cs m \<in> {16, 17, 18, 606} \<or> 64 \<le> m_cs m \<and> m_cs m \<le> 94)"
    using assms(1,2) that by (intro step_msg_safe) auto
  have fields: "safe (step_hostname cs b m out)" "safe (step_appname cs b m out)"
    "safe (step_procid cs b m out)" "safe (step_msgid cs b m out)" for cs
    unfolding step_hostname_def step_appname_def step_procid_def step_msgid_def
    using assms(1,2) by (auto intro!: step_field_safe)
  show ?thesis
    unfolding step_def Let_def
    by (intro safe_if step_pri_safe step_version_safe step_timestamp_safe fields sdi sdn sdv msg fl
        assms(1,2))
qed

section \<open>The run is safe\<close>

lemma eof_safe:
  assumes "wf_ptr m" "sd_ok m out"
  shows "eof_actions m out \<noteq> Panic"
proof -
  have np: "r \<noteq> Panic" if "safe r" for r
    using that by auto
  have msg: "safe (with_text m1 (\<lambda>t. Out m1 (set_msg t out)))"
    if "m1 = m \<or> m1 = m\<lparr>m_pb := m_p m, m_msgat := m_p m\<rparr>" for m1
    using that assms(1) by (intro safe_text) auto
  have out: "safe (Out m out)"
    using assms(1) by simp
  have id: "safe (set_id m out err_sdid)" if "m_cs m = 18 \<or> 64 \<le> m_cs m \<and> m_cs m \<le> 94"
    using assms that by (intro safe_id) (auto simp: safe_err sd_ok_def)
  have "safe (eof_message (m_cs m) m out)"
    unfolding eof_message_def Let_def
    by (intro safe_if safe_err out msg assms(1) disjI1 disjI2 refl)
  then have "safe (eof_header (m_cs m) m out)"
    unfolding eof_header_def
    by (intro safe_if safe_fail safe_text safe_timestamp assms(1))
  then have "safe (eof_actions m out)"
    unfolding eof_actions_def Let_def
    by (intro safe_if safe_err safe_fail id assms(1))
  then show ?thesis
    by (rule np)
qed

theorem run_safe: "wf_ptr m \<Longrightarrow> sd_ok m out \<Longrightarrow> run m out \<noteq> None"
proof (induction m out rule: run.induct)
  case (1 m out)
  show ?case
  proof (cases "m_p m = m_pe m")
    case True
    with 1 eof_safe [of m out] show ?thesis
      by (simp add: run.simps [of m out] finish_def split: outcome.splits)
  next
    case False
    with 1 have p: "m_p m < length (m_data m)"
      by (auto simp: wf_ptr_def)
    let ?b = "m_data m ! m_p m"
    have s: "safe (step ?b m out)"
      using 1 p by (intro step_safe)
    show ?thesis
      using s False p 1
      by (cases "step ?b m out") (auto simp: run.simps [of m out] gindex_def)
  qed
qed

text \<open>
  C2: \<open>Parse\<close> of the RFC 5424 machine never panics: whatever the options, the earlier uses of the
  machine and the input bytes, the run ends, no slice or index is out of range and no nil map is
  written to.
\<close>

theorem Parse_no_panic: "Parse m input \<noteq> None"
proof -
  have "wf_ptr (init_parse input m)" "sd_ok (init_parse input m) out" for out
    by (simp_all add: wf_ptr_def sd_ok_def init_parse_def start_def enMainMessageBody_def)
  then have "run (init_parse input m) (syslogMessage_init (m_optionalPriority m)) \<noteq> None"
    by (rule run_safe)
  then show ?thesis
    by (auto simp: Parse_def)
qed


end
