(* ===== verification/RFC5424_View.thy ===== *)
theory RFC5424_View
  imports RFC5424_Safety
begin

text \<open>
  A view of the machine for proofs about whole fields: the unread input (\<open>rest\<close>), the text since
  the last mark (\<open>marked\<close>), and the result of running from a configuration to the end
  (\<open>result\<close>). A stage of a reference parser either fails with an error and the message so far, or
  hands on a column, the unread input and the message; \<open>sim\<close> says that the machine started in
  some state computes a stage and stops in another state.
\<close>

section \<open>Unread input and marked text\<close>

definition rest :: "machine \<Rightarrow> bytes" where
  "rest m = drop (m_p m) (m_data m)"

definition marked :: "machine \<Rightarrow> bytes" where
  "marked m = take (m_p m - m_pb m) (drop (m_pb m) (m_data m))"

lemma rest_Cons_p: "rest m = b # r \<Longrightarrow> m_p m < length (m_data m) \<and> m_data m ! m_p m = b"
  unfolding rest_def by (metis drop_all leI list.distinct(1) nth_via_drop)

lemma rest_goto [simp]: "rest m = b # r \<Longrightarrow> rest (goto_st n m) = r"
  by (simp add: rest_def drop_Suc flip: tl_drop)

lemma rest_mark [simp]: "rest (mark m) = rest m"
  by (simp add: rest_def)

lemma marked_mark [simp]: "marked (mark m) = []"
  by (simp add: marked_def)

lemma marked_goto [simp]:
  assumes "wf_ptr m" "rest m = b # r"
  shows "marked (goto_st n m) = marked m @ [b]"
proof -
  have "m_p m < length (m_data m)" "m_data m ! m_p m = b"
    using rest_Cons_p [OF assms(2)] by simp_all
  then show ?thesis
    using assms(1) take_Suc_conv_app_nth [of "m_p m - m_pb m" "drop (m_pb m) (m_data m)"]
    by (simp add: marked_def wf_ptr_def Suc_diff_le diff_less_mono)
qed

lemma wf_goto [simp]: "wf_ptr m \<Longrightarrow> rest m = b # r \<Longrightarrow> wf_ptr (goto_st n m)"
  by (simp add: wf_ptr_goto rest_Cons_p)

lemma m_text_marked [simp]: "wf_ptr m \<Longrightarrow> m_text m = Some (marked m)"
  by (simp add: m_text_def gslice_def marked_def wf_ptr_def)

lemma with_text_marked [simp]: "wf_ptr m \<Longrightarrow> with_text m k = k (marked m)"
  by (simp add: with_text_def)

lemma rest_Nil_iff: "wf_ptr m \<Longrightarrow> rest m = [] \<longleftrightarrow> m_p m = m_pe m"
  by (auto simp: rest_def wf_ptr_def)

section \<open>Running to the end\<close>

definition result ::
    "machine \<Rightarrow> syslogMessage \<Rightarrow> (SyslogMessage option \<times> perror option) option" where
  "result m out = map_option (\<lambda>(m', out'). parse_result m' out') (run m out)"

lemma result_Cons:
  assumes "wf_ptr m" "rest m = b # r" "step b m out = Next m' out'"
  shows "result m out = result m' out'"
proof -
  have "m_p m < length (m_data m)" "m_data m ! m_p m = b"
    using rest_Cons_p [OF assms(2)] by simp_all
  then show ?thesis
    using assms by (simp add: result_def run.simps [of m out] gindex_def wf_ptr_def)
qed

lemma result_Out:
  assumes "wf_ptr m" "rest m = b # r" "step b m out = Out m' out'"
  shows "result m out = Some (parse_result m' out')"
proof -
  have "m_p m < length (m_data m)" "m_data m ! m_p m = b"
    using rest_Cons_p [OF assms(2)] by simp_all
  then show ?thesis
    using assms by (simp add: result_def run.simps [of m out] gindex_def wf_ptr_def)
qed

lemma result_Nil:
  "wf_ptr m \<Longrightarrow> rest m = [] \<Longrightarrow>
    result m out = map_option (\<lambda>(m', out'). parse_result m' out') (finish (eof_actions m out))"
  by (simp add: result_def run.simps [of m out] rest_Nil_iff) (simp add: wf_ptr_def)

section \<open>Failure\<close>

text \<open>What a failed run returns: the message so far in best-effort mode, and the error.\<close>

definition fail_result ::
    "bool \<Rightarrow> perror \<Rightarrow> syslogMessage \<Rightarrow> SyslogMessage option \<times> perror option" where
  "fail_result be e out = (if be \<and> minimal out then Some (export out) else None, Some e)"

text \<open>State 614 reads up to a line break or the end, and changes neither error nor message.\<close>

lemma result_614:
  "wf_ptr m \<Longrightarrow> m_cs m = 614 \<Longrightarrow> m_err m = Some e \<Longrightarrow>
    result m out = Some (fail_result (m_bestEffort m) e out)"
proof (induction "rest m" arbitrary: m)
  case Nil
  then have "eof_actions m out = Out m out"
    by (simp add: eof_actions_def eof_header_def eof_message_def)
  with Nil show ?case
    by (simp add: result_Nil finish_def parse_result_def fail_result_def enFail_def)
next
  case (Cons b r)
  show ?case
  proof (cases "b = 10 \<or> b = 13")
    case True
    then have "step b m out = Out (m\<lparr>m_cs := 0\<rparr>) out"
      using Cons.prems by (auto simp: step_def step_fail_def)
    then have "result m out = Some (parse_result (m\<lparr>m_cs := 0\<rparr>) out)"
      using Cons.hyps(2) Cons.prems by (intro result_Out [where b = b and r = r]) auto
    then show ?thesis
      using Cons.prems by (simp add: parse_result_def fail_result_def firstFinal_def)
  next
    case False
    then have "step b m out = Next (goto_st 614 m) out"
      using Cons.prems by (simp add: step_def step_fail_def)
    then have "result m out = result (goto_st 614 m) out"
      using Cons.hyps(2) Cons.prems by (intro result_Cons [where b = b and r = r]) auto
    also have "\<dots> = Some (fail_result (m_bestEffort m) e out)"
      using Cons.hyps(1) [of "goto_st 614 m"] Cons.hyps(2) [symmetric] Cons.prems by simp
    finally show ?thesis .
  qed
qed

lemma result_fail_step:
  assumes "wf_ptr m" "rest m = b # r" "step b m out = fail_with k m1 out'"
    and "m1 = m \<or> wf_ptr m1 \<and> m_p m1 = m_p m \<and> m_bestEffort m1 = m_bestEffort m"
  shows "result m out = Some (fail_result (m_bestEffort m) (k, m_p m) out')"
proof -
  let ?m' = "m1\<lparr>m_err := Some (k, m_p m1), m_cs := enFail\<rparr>"
  have "wf_ptr ?m'"
    using assms(1,4) by (auto simp: wf_ptr_def)
  moreover have "result m out = result ?m' out'"
    using assms by (intro result_Cons [where b = b and r = r]) (auto simp: fail_with_def)
  ultimately show ?thesis
    using assms(4) result_614 [of ?m'] by (auto simp: enFail_def)
qed

lemma result_fail_eof:
  assumes "wf_ptr m" "rest m = []" "eof_actions m out = fail_with k m1 out'"
    and "m1 = m \<or> m_p m1 = m_p m \<and> m_bestEffort m1 = m_bestEffort m"
  shows "result m out = Some (fail_result (m_bestEffort m) (k, m_p m) out')"
  using assms
  by (auto simp: result_Nil finish_def fail_with_def parse_result_def fail_result_def enFail_def)

section \<open>Stages\<close>

type_synonym stage = "(perror \<times> syslogMessage) + (nat \<times> bytes \<times> syslogMessage)"

definition andThen :: "stage \<Rightarrow> (nat \<Rightarrow> bytes \<Rightarrow> syslogMessage \<Rightarrow> stage) \<Rightarrow> stage" where
  "andThen s k = (case s of Inl e \<Rightarrow> Inl e | Inr (col, r, out) \<Rightarrow> k col r out)"

lemma andThen_simps [simp]:
  "andThen (Inl e) k = Inl e" "andThen (Inr (col, r, out)) k = k col r out"
  by (simp_all add: andThen_def)

text \<open>The options of two machines agree.\<close>

definition same_opts :: "machine \<Rightarrow> machine \<Rightarrow> bool" where
  "same_opts m m' \<longleftrightarrow>
     m_bestEffort m' = m_bestEffort m \<and> m_compliantMsg m' = m_compliantMsg m \<and>
     m_data m' = m_data m"

lemma same_opts_refl [simp]: "same_opts m m"
  by (simp add: same_opts_def)

lemma same_opts_trans [trans]: "same_opts a b \<Longrightarrow> same_opts b c \<Longrightarrow> same_opts a c"
  by (simp add: same_opts_def)

text \<open>
  \<open>sim m out cs' s\<close>: run from \<open>m\<close> with the message \<open>out\<close>, the machine gives the stage's
  failure, or the same result as from a well-formed machine in the state \<open>cs'\<close> at the stage's column.
\<close>

definition sim :: "machine \<Rightarrow> syslogMessage \<Rightarrow> nat \<Rightarrow> stage \<Rightarrow> bool" where
  "sim m out cs' s =
     (case s of
        Inl (e, out') \<Rightarrow> result m out = Some (fail_result (m_bestEffort m) e out')
      | Inr (col, r, out') \<Rightarrow>
          (\<exists>m'. wf_ptr m' \<and> m_cs m' = cs' \<and> m_p m' = col \<and> rest m' = r \<and> same_opts m m' \<and>
                m_p m \<le> m_p m' \<and> result m out = result m' out'))"

lemma sim_Inl [simp]:
  "sim m out cs' (Inl (e, out')) \<longleftrightarrow> result m out = Some (fail_result (m_bestEffort m) e out')"
  by (simp add: sim_def)

lemma sim_Inr [intro]:
  "wf_ptr m' \<Longrightarrow> m_cs m' = cs' \<Longrightarrow> m_p m' = col \<Longrightarrow> rest m' = r \<Longrightarrow> same_opts m m' \<Longrightarrow>
    m_p m \<le> m_p m' \<Longrightarrow> result m out = result m' out' \<Longrightarrow> sim m out cs' (Inr (col, r, out'))"
  by (auto simp: sim_def)

lemma sim_andThen:
  assumes "sim m out c s"
    and "\<And>m' out'. wf_ptr m' \<Longrightarrow> m_cs m' = c \<Longrightarrow> same_opts m m' \<Longrightarrow> m_p m \<le> m_p m' \<Longrightarrow>
           s = Inr (m_p m', rest m', out') \<Longrightarrow> sim m' out' c' (k (m_p m') (rest m') out')"
  shows "sim m out c' (andThen s k)"
proof (cases s)
  case (Inl e)
  with assms(1) show ?thesis by (cases e) simp
next
  case (Inr t)
  obtain col r out' where t: "t = (col, r, out')" by (cases t)
  with Inr assms(1) obtain m' where m': "wf_ptr m'" "m_cs m' = c" "m_p m' = col" "rest m' = r"
    "same_opts m m'" "m_p m \<le> m_p m'" "result m out = result m' out'"
    by (auto simp: sim_def)
  have "sim m' out' c' (k col r out')"
    using assms(2) [OF m'(1,2,5,6)] m'(3,4) Inr t by simp
  then have "sim m out c' (k col r out')"
    using m'(5-7) unfolding sim_def same_opts_def
    by (auto split: sum.splits prod.splits intro: order_trans)
  with Inr t show ?thesis by simp
qed

text \<open>A step to the next byte, followed by a stage.\<close>

lemma sim_step:
  assumes "wf_ptr m" "rest m = b # r" "step b m out = Next m1 out1"
    and "same_opts m m1" "m_p m \<le> m_p m1" "sim m1 out1 c s"
  shows "sim m out c s"
proof -
  have "result m out = result m1 out1"
    using assms by (intro result_Cons)
  with assms(4-6) show ?thesis
    unfolding sim_def same_opts_def
    by (auto split: sum.splits prod.splits intro: order_trans)
qed

end
