(* ===== verification/RFC5424_Spec.thy ===== *)
theory RFC5424_Spec
  imports RFC5424_View
begin

text \<open>
  A reference parser for RFC 5424: a recursive-descent reading of the grammar of common.rl and
  machine.go.rl over byte lists, with no states, no marks and no pointers. Each stage splits its
  field off the unread input and either fails with an error at a column and the message so far, or
  hands on. RFC5424_Sim proves that the generated machine computes exactly this function.
\<close>

section \<open>Header\<close>

text \<open>
  A PRIVAL: no leading zero, value at most 191. \<open>prival_len\<close> is the number of digits that can
  start one.
\<close>

definition prival_ok :: "bytes \<Rightarrow> bool" where
  "prival_ok ds \<longleftrightarrow> ds \<noteq> [] \<and> list_all is_digit ds \<and>
     (hd ds = 48 \<longrightarrow> ds = [48]) \<and> dec_value ds 0 \<le> 191"

definition prival_len :: "bytes \<Rightarrow> nat" where
  "prival_len r =
     (case takeWhile is_digit r of
        [] \<Rightarrow> 0
      | [a] \<Rightarrow> 1
      | [a, b] \<Rightarrow> if a = 48 then 1 else 2
      | a # b # c # _ \<Rightarrow> if a = 48 then 1 else if dec_value [a, b, c] 0 \<le> 191 then 3 else 2)"

definition spec_pri :: "nat \<Rightarrow> bytes \<Rightarrow> syslogMessage \<Rightarrow> stage" where
  "spec_pri col r out =
     (case r of
        [] \<Rightarrow> Inl ((ErrPri, col), out)
      | b # r1 \<Rightarrow>
          if b \<noteq> 60 then Inl ((ErrPri, col), out)
          else (let n = prival_len r1 in
                case drop n r1 of
                  c # r2 \<Rightarrow>
                    if n > 0 \<and> c = 62 then Inr (col + n + 2, r2, set_prival (take n r1) out)
                    else Inl ((ErrPrival, col + n + 1), out)
                | [] \<Rightarrow> Inl ((ErrPrival, col + n + 1), out)))"

text \<open>
  VERSION: one to three digits, the first not zero. On failure the version keeps the digits
  converted so far; at the end of the input the last digit is not among them.
\<close>

definition spec_version :: "nat \<Rightarrow> bytes \<Rightarrow> syslogMessage \<Rightarrow> stage" where
  "spec_version col r out =
     (case r of
        [] \<Rightarrow> Inl ((ErrVersion, col), out)
      | b # _ \<Rightarrow>
          if \<not> is_nonzero_digit b then Inl ((ErrVersion, col), out)
          else (let n = min (length (takeWhile is_digit r)) 3; err = (if n = 1 then ErrParse else ErrVersion)
                in case drop n r of
                     [] \<Rightarrow> Inl ((err, col + n), set_version (take (max 1 (n - 1)) r) out)
                   | c # r1 \<Rightarrow>
                       if c = 32 then Inr (col + n + 1, r1, set_version (take n r) out)
                       else Inl ((err, col + n), set_version (take n r) out)))"

text \<open>
  \<open>ts_scan cs r\<close>: how many bytes of \<open>r\<close> the timestamp grammar accepts from its position
  \<open>cs\<close>, and whether the timestamp is then complete (position 578).
\<close>

fun ts_scan :: "nat \<Rightarrow> bytes \<Rightarrow> nat \<times> bool" where
  "ts_scan cs [] = (0, cs = 578)"
| "ts_scan cs (b # r) =
     (if cs = 578 then (0, True)
      else (case timestamp_next cs b of
              None \<Rightarrow> (0, False)
            | Some n \<Rightarrow> (case ts_scan n r of (k, ok) \<Rightarrow> (k + 1, ok))))"

definition spec_timestamp :: "nat \<Rightarrow> bytes \<Rightarrow> syslogMessage \<Rightarrow> stage" where
  "spec_timestamp col r out =
     (case r of
        [] \<Rightarrow> Inl ((ErrTimestamp, col), out)
      | b # r1 \<Rightarrow>
          if b = 45 then
            (case r1 of
               c # r2 \<Rightarrow> if c = 32 then Inr (col + 2, r2, out) else Inl ((ErrParse, col + 1), out)
             | [] \<Rightarrow> Inl ((ErrParse, col + 1), out))
          else if \<not> is_digit b then Inl ((ErrTimestamp, col), out)
          else (case ts_scan 554 r1 of
                  (k, False) \<Rightarrow> Inl ((ErrTimestamp, col + k + 1), out)
                | (k, True) \<Rightarrow>
                    (case time_Parse_RFC3339MICRO (take (k + 1) r) of
                       Inl e \<Rightarrow> Inl ((ErrTime e, col + k + 1), out)
                     | Inr t \<Rightarrow>
                         (let out1 = out\<lparr>timestamp := Some t, timestampSet := True\<rparr> in
                          case drop (k + 1) r of
                            c # r2 \<Rightarrow> if c = 32 then Inr (col + k + 2, r2, out1)
                                       else Inl ((ErrParse, col + k + 1), out1)
                          | [] \<Rightarrow> Inl ((ErrParse, col + k + 1), out1)))))"

text \<open>A field of one to \<open>mx\<close> visible characters and the space after it.\<close>

definition spec_field ::
    "nat \<Rightarrow> err_kind \<Rightarrow> (bytes \<Rightarrow> syslogMessage \<Rightarrow> syslogMessage) \<Rightarrow>
     nat \<Rightarrow> bytes \<Rightarrow> syslogMessage \<Rightarrow> stage" where
  "spec_field mx err setter col r out =
     (let f = takeWhile is_graph r; n = length f in
      case drop n r of
        c # r1 \<Rightarrow> if f \<noteq> [] \<and> n \<le> mx \<and> c = 32 then Inr (col + n + 1, r1, setter f out)
                   else Inl ((err, col + min n mx), out)
      | [] \<Rightarrow> Inl ((err, col + min n mx), out))"

definition spec_header :: "nat \<Rightarrow> bytes \<Rightarrow> syslogMessage \<Rightarrow> stage" where
  "spec_header col r out =
     andThen (spec_version col r out) (\<lambda>col r out.
     andThen (spec_timestamp col r out) (\<lambda>col r out.
     andThen (spec_field 255 ErrHostname (\<lambda>t out. out\<lparr>hostname := t\<rparr>) col r out) (\<lambda>col r out.
     andThen (spec_field 48 ErrAppname (\<lambda>t out. out\<lparr>appname := t\<rparr>) col r out) (\<lambda>col r out.
     andThen (spec_field 128 ErrProcID (\<lambda>t out. out\<lparr>procID := t\<rparr>) col r out)
       (spec_field 32 ErrMsgID (\<lambda>t out. out\<lparr>msgID := t\<rparr>))))))"

section \<open>Structured data\<close>

text \<open>
  \<open>seq_scan i r\<close>: how many bytes of \<open>r\<close> continue a UTF-8 sequence from its position \<open>i\<close>, and
  whether they complete it.
\<close>

fun seq_scan :: "nat \<Rightarrow> bytes \<Rightarrow> nat \<times> bool" where
  "seq_scan i [] = (0, False)"
| "seq_scan i (b # r) =
     (case utf8_cont i b of
        None \<Rightarrow> (0, False)
      | Some None \<Rightarrow> (1, True)
      | Some (Some j) \<Rightarrow> (case seq_scan j r of (k, ok) \<Rightarrow> (k + 1, ok)))"

lemma seq_scan_len: "seq_scan i r = (k, ok) \<Longrightarrow> k \<le> length r"
  by (induction i r arbitrary: k ok rule: seq_scan.induct)
    (auto split: option.splits prod.splits)

text \<open>
  One character of a parameter value, other than the closing quote: how many bytes it takes and what
  it stands for (a backslash makes one of the three special characters part of the value), or the
  error and its offset.
\<close>

definition spec_char :: "bytes \<Rightarrow> perror + (nat \<times> bytes)" where
  "spec_char r =
     (case r of
        [] \<Rightarrow> Inl (ErrEscape, 0)
      | b # r1 \<Rightarrow>
          if b = 92 then
            (if r1 \<noteq> [] \<and> toescape (hd r1) then Inr (2, [hd r1]) else Inl (ErrEscape, 1))
          else if b = 93 then Inl (ErrEscape, 0)
          else if b < 128 then Inr (1, [b])
          else (case utf8_lead b of
                  None \<Rightarrow> Inl (ErrEscape, 0)
                | Some i \<Rightarrow>
                    (case seq_scan i r1 of
                       (k, ok) \<Rightarrow>
                         if ok then Inr (k + 1, b # take k r1) else Inl (ErrSdParam, k + 1))))"

lemma spec_char_length: "spec_char r = Inr (n, t) \<Longrightarrow> 0 < n \<and> n \<le> length r"
  by (cases r; cases "tl r")
    (auto simp: spec_char_def split: if_splits option.splits prod.splits dest: seq_scan_len)

text \<open>
  A parameter value after its opening quote: the column and the input after the closing quote, and
  the value with its escapes removed.
\<close>

function spec_value :: "nat \<Rightarrow> bytes \<Rightarrow> bytes \<Rightarrow> perror + (nat \<times> bytes \<times> bytes)" where
  "spec_value col r acc =
     (if r \<noteq> [] \<and> hd r = 34 then Inr (col + 1, tl r, acc)
      else (case spec_char r of
              Inl (k, off) \<Rightarrow> Inl (k, col + off)
            | Inr (n, t) \<Rightarrow> spec_value (col + n) (drop n r) (acc @ t)))"
  by pat_completeness auto
termination
  by (relation "measure (\<lambda>(col, r, acc). length r)") (auto dest!: spec_char_length)

declare spec_value.simps [simp del]

lemma spec_value_shorter: "spec_value col r acc = Inr (c, r', v) \<Longrightarrow> length r' < length r"
proof (induction col r acc rule: spec_value.induct)
  case (1 col r acc)
  show ?case
  proof (cases "r \<noteq> [] \<and> hd r = 34")
    case True
    then have "spec_value col r acc = Inr (col + 1, tl r, acc)"
      by (simp add: spec_value.simps [of col r acc])
    with 1(2) True show ?thesis
      by (cases r) auto
  next
    case False
    with 1(2) obtain n t where t: "spec_char r = Inr (n, t)"
      "spec_value (col + n) (drop n r) (acc @ t) = Inr (c, r', v)"
      by (auto simp: spec_value.simps [of col r acc] split: sum.splits)
    then show ?thesis
      using 1(1) [OF False] spec_char_length [OF t(1)] by force
  qed
qed

text \<open>The effect of a parameter on the message, and of an error after its name.\<close>

definition put_param :: "bytes \<Rightarrow> bytes \<Rightarrow> bytes \<Rightarrow> syslogMessage \<Rightarrow> syslogMessage" where
  "put_param e n v out =
     (case structuredData out of
        None \<Rightarrow> out
      | Some sd \<Rightarrow>
          (case fmlookup sd e of
             None \<Rightarrow> out
           | Some ps \<Rightarrow> out\<lparr>structuredData := Some (fmupd e (fmupd n v ps) sd)\<rparr>))"

definition undo_param :: "bytes \<Rightarrow> bytes option \<Rightarrow> syslogMessage \<Rightarrow> syslogMessage" where
  "undo_param e q out = (case q of None \<Rightarrow> out | Some n \<Rightarrow> del_param e n out)"

text \<open>
  The parameters of the element \<open>e\<close>, up to its closing bracket. An error in a name deletes the
  parameter \<open>q\<close> read before it, if any.
\<close>

function spec_params ::
    "bytes \<Rightarrow> bytes option \<Rightarrow> nat \<Rightarrow> bytes \<Rightarrow> syslogMessage \<Rightarrow> stage" where
  "spec_params e q col r out =
     (let name = takeWhile is_sdname r; n = length name in
      if n = 0 \<or> n > 32 \<or> drop n r = [] \<or> hd (drop n r) \<noteq> 61 then
        Inl ((ErrSdParam, col + min n 32), undo_param e q out)
      else if drop (n + 1) r = [] \<or> hd (drop (n + 1) r) \<noteq> 34 then
        Inl ((ErrSdParam, col + n + 1), undo_param e (Some name) out)
      else (case spec_value (col + n + 2) (drop (n + 2) r) [] of
              Inl (k, c) \<Rightarrow>
                Inl ((k, c), if k = ErrSdParam then undo_param e (Some name) out else out)
            | Inr (c, r', v) \<Rightarrow>
                (let out1 = put_param e name v out in
                 case r' of
                   [] \<Rightarrow> Inl ((ErrSdParam, c), undo_param e (Some name) out1)
                 | b # r2 \<Rightarrow>
                     if b = 32 then spec_params e (Some name) (c + 1) r2 out1
                     else if b = 93 then Inr (c + 1, r2, out1)
                     else Inl ((ErrSdParam, c), undo_param e (Some name) out1))))"
  by pat_completeness auto
termination
  by (relation "measure (\<lambda>(e, q, col, r, out). length r)")
    (auto dest!: spec_value_shorter)

declare spec_params.simps [simp del]

lemma spec_params_shorter:
  "spec_params e q col r out = Inr (c, r', out') \<Longrightarrow> length r' < length r"
proof (induction "length r" arbitrary: e q col r out rule: less_induct)
  case less
  have IH: "spec_params e1 q1 c1 r1 o1 = Inr (c, r', out') \<Longrightarrow> length r1 < length r \<Longrightarrow>
      length r' < length r" for e1 q1 c1 r1 o1
    using less.hyps [of r1 e1 q1 c1 o1] by simp
  from less.prems show ?case
    by (auto simp: spec_params.simps [of e q col r out] Let_def dest!: spec_value_shorter
        split: if_splits sum.splits list.splits prod.splits dest: IH)
qed

definition has_elem :: "bytes \<Rightarrow> syslogMessage \<Rightarrow> bool" where
  "has_elem e out \<longleftrightarrow>
     (case structuredData out of None \<Rightarrow> False | Some sd \<Rightarrow> fmlookup sd e \<noteq> None)"

definition add_elem :: "bytes \<Rightarrow> syslogMessage \<Rightarrow> syslogMessage" where
  "add_elem e out =
     out\<lparr>structuredData := map_option (fmupd e fmempty) (structuredData out), hasElements := True\<rparr>"

text \<open>
  An element, from its id to its closing bracket; \<open>e\<close> is the id of the element before, which an
  empty id deletes.
\<close>

definition spec_elem :: "bytes \<Rightarrow> nat \<Rightarrow> bytes \<Rightarrow> syslogMessage \<Rightarrow> stage" where
  "spec_elem e col r out =
     (let name = takeWhile is_sdname r; n = length name; id = take 32 name in
      if n = 0 then Inl ((ErrSdID, col), del_elem e out)
      else if has_elem id out then Inl ((ErrSdIDDuplicated, col + min n 32), out)
      else if n > 32 \<or> drop n r = [] \<or> hd (drop n r) \<notin> {32, 93} then
        Inl ((ErrSdID, col + min n 32), del_elem id (add_elem id out))
      else if hd (drop n r) = 32
      then spec_params id None (col + n + 1) (drop (n + 1) r) (add_elem id out)
      else Inr (col + n + 1, drop (n + 1) r, add_elem id out))"

lemma spec_elem_shorter: "spec_elem e col r out = Inr (c, r', out') \<Longrightarrow> length r' < length r"
  by (auto simp: spec_elem_def Let_def split: if_splits dest!: spec_params_shorter)

text \<open>The elements. The stage ends after the space in front of MSG, or at the end of the input.\<close>

function spec_elems :: "bytes \<Rightarrow> nat \<Rightarrow> bytes \<Rightarrow> syslogMessage \<Rightarrow> stage" where
  "spec_elems e col r out =
     (case spec_elem e col r out of
        Inl err \<Rightarrow> Inl err
      | Inr (c, r1, out1) \<Rightarrow>
          (case r1 of
             [] \<Rightarrow> Inr (c, [], out1)
           | b # r2 \<Rightarrow>
               if b = 32 then Inr (c + 1, r2, out1)
               else if b = 91 then spec_elems (take 32 (takeWhile is_sdname r)) (c + 1) r2 out1
               else Inl ((ErrStructuredData, c), out1)))"
  by pat_completeness auto
termination
  by (relation "measure (\<lambda>(e, col, r, out). length r)") (auto dest!: spec_elem_shorter)

declare spec_elems.simps [simp del]

definition spec_sd :: "nat \<Rightarrow> bytes \<Rightarrow> syslogMessage \<Rightarrow> stage" where
  "spec_sd col r out =
     (case r of
        [] \<Rightarrow> Inl ((ErrStructuredData, col), out)
      | b # r1 \<Rightarrow>
          if b = 45 then
            (case r1 of
               [] \<Rightarrow> Inr (col + 1, [], out)
             | c # r2 \<Rightarrow> if c = 32 then Inr (col + 2, r2, out) else Inl ((ErrParse, col + 1), out))
          else if b = 91 then spec_elems [] (col + 1) r1 (ini_elements out)
          else Inl ((ErrStructuredData, col), out))"

section \<open>Message\<close>

text \<open>How many bytes are UTF-8 characters, and whether they are all of them.\<close>

function msg_scan :: "bytes \<Rightarrow> nat \<times> bool" where
  "msg_scan r =
     (case r of
        [] \<Rightarrow> (0, True)
      | b # r1 \<Rightarrow>
          if b < 128 then (case msg_scan r1 of (k, ok) \<Rightarrow> (k + 1, ok))
          else (case utf8_lead b of
                  None \<Rightarrow> (0, False)
                | Some i \<Rightarrow>
                    (case seq_scan i r1 of
                       (n, ok) \<Rightarrow>
                         if ok then (case msg_scan (drop n r1) of (k, ok) \<Rightarrow> (n + 1 + k, ok))
                         else (n + 1, False))))"
  by pat_completeness auto
termination
  by (relation "measure length") auto

declare msg_scan.simps [simp del]

text \<open>
  MSG: any bytes; with the compliance option, a byte-order mark promises UTF-8, and the bytes
  before a violation are kept.
\<close>

definition spec_msg ::
    "bool \<Rightarrow> nat \<Rightarrow> bytes \<Rightarrow> syslogMessage \<Rightarrow> (perror \<times> syslogMessage) + syslogMessage" where
  "spec_msg compliant col r out =
     (if r = [] then Inr out
      else if compliant \<and> take 3 r = [239, 187, 191] then
        (case msg_scan (drop 3 r) of
           (k, ok) \<Rightarrow>
             if ok then Inr (set_msg r out)
             else Inl ((ErrMsgNotCompliant, col + 3 + k), set_msg (take (3 + k) r) out))
      else Inr (set_msg r out))"

section \<open>The parser\<close>

text \<open>
  The whole of \<open>Parse\<close>: with the optional-priority option an input that does not start with an
  angle bracket starts at the version.
\<close>

definition spec_parse ::
    "bool \<Rightarrow> bool \<Rightarrow> bool \<Rightarrow> bytes \<Rightarrow> SyslogMessage option \<times> perror option" where
  "spec_parse be compliant opt input =
     (let init = syslogMessage_init opt;
          body = (\<lambda>col r out. andThen (spec_header col r out) spec_sd);
          s = (if opt \<and> \<not> (input \<noteq> [] \<and> hd input = 60) then body 0 input init
               else andThen (spec_pri 0 input init) body)
      in case s of
           Inl (e, out) \<Rightarrow> fail_result be e out
         | Inr (col, r, out) \<Rightarrow>
             (case spec_msg compliant col r out of
                Inl (e, out') \<Rightarrow> fail_result be e out'
              | Inr out' \<Rightarrow> (Some (export out'), None)))"

end
