(* ===== verification/RFC5424_Sim.thy ===== *)
theory RFC5424_Sim
  imports RFC5424_Spec
begin

text \<open>
  The generated machine computes the reference parser: one simulation lemma per stage of
  RFC5424_Spec. The four header fields share their proof through the locale \<open>header_field\<close>.
\<close>

section \<open>Header fields\<close>

locale header_field =
  fixes first lo hi dn mx :: nat
    and err :: err_kind
    and setter :: "bytes \<Rightarrow> syslogMessage \<Rightarrow> syslogMessage"
  assumes field_step:
      "m_cs m = first \<or> m_cs m = first + 1 \<or> lo \<le> m_cs m \<and> m_cs m \<le> hi \<Longrightarrow>
        step b m out = step_field first lo hi dn err setter (m_cs m) b m out"
    and field_eof:
      "m_cs m = first \<or> m_cs m = first + 1 \<or> lo \<le> m_cs m \<and> m_cs m \<le> hi \<Longrightarrow>
        eof_actions m out = fail_with err m out"
    and field_chain: "first + 1 < lo" "lo \<le> hi" "mx = hi - lo + 2"
begin

text \<open>The state after \<open>k\<close> characters of the field.\<close>

definition pos :: "nat \<Rightarrow> nat" where
  "pos k = (if k = 1 then first + 1 else lo + k - 2)"

lemma pos_range: "1 \<le> k \<Longrightarrow> k \<le> mx \<Longrightarrow> pos k = first + 1 \<or> lo \<le> pos k \<and> pos k \<le> hi"
  using field_chain by (auto simp: pos_def)

lemma pos_not_first: "1 \<le> k \<Longrightarrow> pos k \<noteq> first"
  using field_chain by (auto simp: pos_def)

lemma step_graph:
  assumes "m_cs m = pos k" "1 \<le> k" "k < mx" "is_graph b"
  shows "step b m out = Next (goto_st (pos (k + 1)) m) out"
  using assms pos_range [of k] pos_not_first [of k] field_chain graph_not_space [of b]
  by (subst field_step) (auto simp: step_field_def pos_def)

lemma step_last:
  assumes "m_cs m = pos mx" "is_graph b"
  shows "step b m out = fail_with err m out"
  using assms pos_range [of mx] pos_not_first [of mx] field_chain graph_not_space [of b]
  by (subst field_step) (auto simp: step_field_def pos_def)

lemma step_end:
  assumes "m_cs m = pos k" "1 \<le> k" "k \<le> mx" "wf_ptr m"
  shows "step 32 m out = Next (goto_st dn m) (setter (marked m) out)"
  using assms pos_range [of k] pos_not_first [of k]
  by (subst field_step) (auto simp: step_field_def)

lemma step_bad:
  assumes "m_cs m = pos k" "1 \<le> k" "k \<le> mx" "\<not> is_graph b" "b \<noteq> 32"
  shows "step b m out = fail_with err m out"
  using assms pos_range [of k] pos_not_first [of k]
  by (subst field_step) (auto simp: step_field_def)

definition tail_stage :: "nat \<Rightarrow> bytes \<Rightarrow> nat \<Rightarrow> bytes \<Rightarrow> syslogMessage \<Rightarrow> stage" where
  "tail_stage k pre col r out =
     (let f = takeWhile is_graph r; n = length f in
      case drop n r of
        c # r1 \<Rightarrow> if k + n \<le> mx \<and> c = 32 then Inr (col + n + 1, r1, setter (pre @ f) out)
                   else Inl ((err, col + min n (mx - k)), out)
      | [] \<Rightarrow> Inl ((err, col + min n (mx - k)), out))"

lemma tail_stage_graph:
  assumes "is_graph b" "k < mx"
  shows "tail_stage k pre col (b # r) out = tail_stage (k + 1) (pre @ [b]) (col + 1) r out"
proof -
  have "min (Suc (length (takeWhile is_graph r))) (mx - k) =
      Suc (min (length (takeWhile is_graph r)) (mx - Suc k))"
    using assms(2) by (simp add: min_def) linarith
  with assms show ?thesis
    by (simp add: tail_stage_def Let_def split: list.splits)
qed

lemma tail_stage_last:
  "is_graph b \<Longrightarrow> tail_stage mx pre col (b # r) out = Inl ((err, col), out)"
  by (simp add: tail_stage_def Let_def split: list.splits)

lemma tail_sim:
  "wf_ptr m \<Longrightarrow> m_cs m = pos k \<Longrightarrow> 1 \<le> k \<Longrightarrow> k \<le> mx \<Longrightarrow>
    sim m out dn (tail_stage k (marked m) (m_p m) (rest m) out)"
proof (induction "rest m" arbitrary: m k)
  case Nil
  then have "eof_actions m out = fail_with err m out"
    using pos_range [of k] by (intro field_eof) auto
  with Nil have "result m out = Some (fail_result (m_bestEffort m) (err, m_p m) out)"
    by (intro result_fail_eof) auto
  with Nil(1) [symmetric] show ?case
    by (simp add: tail_stage_def)
next
  case (Cons b r)
  note r = Cons.hyps(2) [symmetric]
  consider (graph) "is_graph b" "k < mx" | (last) "is_graph b" "k = mx" | (sp) "b = 32"
    | (bad) "\<not> is_graph b" "b \<noteq> 32"
    using Cons.prems(4) by linarith
  then show ?case
  proof cases
    case graph
    let ?m = "goto_st (pos (k + 1)) m"
    have "sim ?m out dn (tail_stage (k + 1) (marked ?m) (m_p ?m) (rest ?m) out)"
      using Cons r graph by (intro Cons.hyps(1)) auto
    moreover have "step b m out = Next ?m out"
      using graph Cons.prems by (intro step_graph)
    ultimately show ?thesis
      using Cons.prems r graph
      by (intro sim_step [OF _ r]) (auto simp: tail_stage_graph same_opts_def)
  next
    case last
    then have "step b m out = fail_with err m out"
      using Cons.prems by (intro step_last) auto
    then have "result m out = Some (fail_result (m_bestEffort m) (err, m_p m) out)"
      using Cons.prems r by (intro result_fail_step) auto
    with last r show ?thesis
      by (simp add: tail_stage_last)
  next
    case sp
    have s: "step b m out = Next (goto_st dn m) (setter (marked m) out)"
      using sp Cons.prems step_end by simp
    have "result m out = result (goto_st dn m) (setter (marked m) out)"
      using Cons.prems r s by (intro result_Cons [OF _ r]) auto
    then show ?thesis
      using r sp Cons.prems
      by (auto simp: tail_stage_def same_opts_def intro!: sim_Inr [of "goto_st dn m"])
  next
    case bad
    then have "step b m out = fail_with err m out"
      using Cons.prems by (intro step_bad)
    then have "result m out = Some (fail_result (m_bestEffort m) (err, m_p m) out)"
      using Cons.prems r by (intro result_fail_step) auto
    with bad r show ?thesis
      by (simp add: tail_stage_def)
  qed
qed

lemma field_sim:
  assumes "wf_ptr m" "m_cs m = first"
  shows "sim m out dn (spec_field mx err setter (m_p m) (rest m) out)"
proof (cases "rest m")
  case Nil
  have "eof_actions m out = fail_with err m out"
    using assms(2) by (intro field_eof) auto
  with assms Nil have "result m out = Some (fail_result (m_bestEffort m) (err, m_p m) out)"
    by (intro result_fail_eof) auto
  with Nil show ?thesis
    by (simp add: spec_field_def)
next
  case (Cons b r)
  show ?thesis
  proof (cases "is_graph b")
    case True
    let ?m = "goto_st (pos 1) (mark m)"
    have s: "step b m out = Next ?m out"
      using assms True by (subst field_step) (auto simp: step_field_def pos_def)
    have r: "rest (mark m) = b # r"
      using Cons by simp
    have "sim ?m out dn (tail_stage 1 (marked ?m) (m_p ?m) (rest ?m) out)"
      using assms r field_chain by (intro tail_sim) auto
    moreover have "spec_field mx err setter (m_p m) (rest m) out =
        tail_stage 1 (marked ?m) (m_p ?m) (rest ?m) out"
    proof -
      have "min (Suc (length (takeWhile is_graph r))) mx =
          Suc (min (length (takeWhile is_graph r)) (mx - 1))"
        using field_chain by (simp add: min_def)
      then show ?thesis
        using True r assms Cons
        by (simp add: spec_field_def tail_stage_def Let_def split: list.splits)
    qed
    ultimately show ?thesis
      using assms Cons s by (intro sim_step [OF _ Cons s]) (auto simp: same_opts_def)
  next
    case False
    then have "step b m out = fail_with err m out"
      using assms by (subst field_step) (auto simp: step_field_def)
    then have "result m out = Some (fail_result (m_bestEffort m) (err, m_p m) out)"
      using assms Cons by (intro result_fail_step) auto
    with False Cons show ?thesis
      by (simp add: spec_field_def)
  qed
qed

end

lemma step_dispatch_hostname:
  "m_cs m = 8 \<or> m_cs m = 9 \<or> 300 \<le> m_cs m \<and> m_cs m \<le> 553 \<Longrightarrow>
    step b m out = step_hostname (m_cs m) b m out"
  by (auto simp: step_def)

lemma step_dispatch_appname:
  "m_cs m = 10 \<or> m_cs m = 11 \<or> 253 \<le> m_cs m \<and> m_cs m \<le> 299 \<Longrightarrow>
    step b m out = step_appname (m_cs m) b m out"
  by (auto simp: step_def)

lemma step_dispatch_procid:
  "m_cs m = 12 \<or> m_cs m = 13 \<or> 126 \<le> m_cs m \<and> m_cs m \<le> 252 \<Longrightarrow>
    step b m out = step_procid (m_cs m) b m out"
  by (auto simp: step_def)

lemma step_dispatch_msgid:
  "m_cs m = 14 \<or> m_cs m = 15 \<or> 95 \<le> m_cs m \<and> m_cs m \<le> 125 \<Longrightarrow>
    step b m out = step_msgid (m_cs m) b m out"
  by (auto simp: step_def)

lemma eof_fields:
  "m_cs m = 8 \<or> m_cs m = 9 \<or> 300 \<le> m_cs m \<and> m_cs m \<le> 553 \<Longrightarrow>
    eof_actions m out = fail_with ErrHostname m out"
  "m_cs m = 10 \<or> m_cs m = 11 \<or> 253 \<le> m_cs m \<and> m_cs m \<le> 299 \<Longrightarrow>
    eof_actions m out = fail_with ErrAppname m out"
  "m_cs m = 12 \<or> m_cs m = 13 \<or> 126 \<le> m_cs m \<and> m_cs m \<le> 252 \<Longrightarrow>
    eof_actions m out = fail_with ErrProcID m out"
  "m_cs m = 14 \<or> m_cs m = 15 \<or> 95 \<le> m_cs m \<and> m_cs m \<le> 125 \<Longrightarrow>
    eof_actions m out = fail_with ErrMsgID m out"
  by (auto simp: eof_actions_def eof_header_def)

interpretation hostname_field: header_field 8 300 553 10 255 ErrHostname "\<lambda>t out. out\<lparr>hostname := t\<rparr>"
  by unfold_locales (simp_all add: step_dispatch_hostname step_hostname_def eof_fields)

interpretation appname_field: header_field 10 253 299 12 48 ErrAppname "\<lambda>t out. out\<lparr>appname := t\<rparr>"
  by unfold_locales (simp_all add: step_dispatch_appname step_appname_def eof_fields)

interpretation procid_field: header_field 12 126 252 14 128 ErrProcID "\<lambda>t out. out\<lparr>procID := t\<rparr>"
  by unfold_locales (simp_all add: step_dispatch_procid step_procid_def eof_fields)

interpretation msgid_field: header_field 14 95 125 16 32 ErrMsgID "\<lambda>t out. out\<lparr>msgID := t\<rparr>"
  by unfold_locales (simp_all add: step_dispatch_msgid step_msgid_def eof_fields)


section \<open>PRI\<close>

text \<open>An error before the version is read exports nothing, whatever the message so far.\<close>

lemma fail_no_version: "version out = 0 \<Longrightarrow> fail_result be e out = (None, Some e)"
  by (simp add: fail_result_def minimal_def ValidVersion_iff)

lemma version_set_prival [simp]: "version (set_prival t out) = version out"
  by (simp add: set_prival_def)

lemma eof_pri:
  "m_cs m \<in> {2, 3, 593, 594, 595} \<Longrightarrow> eof_actions m out = fail_with ErrPrival m out"
  by (auto simp: eof_actions_def eof_header_def)

lemma step_dispatch_pri:
  "m_cs m \<in> {1, 2, 3, 593, 594, 595} \<Longrightarrow> step b m out = step_pri (m_cs m) b m out"
  by (simp add: step_def)

text \<open>The states of a priority value, by the digits read: which digits may follow.\<close>

definition prival_next :: "nat \<Rightarrow> byte \<Rightarrow> nat option" where
  "prival_next cs b =
     (if cs = 593 \<and> b = 57 then Some 595
      else if cs = 593 \<and> in_range 48 56 b then Some 594
      else if cs = 594 \<and> in_range 48 57 b then Some 3
      else if cs = 595 \<and> in_range 48 49 b then Some 3
      else None)"

fun prival_scan :: "nat \<Rightarrow> bytes \<Rightarrow> nat" where
  "prival_scan cs [] = 0"
| "prival_scan cs (b # r) =
     (case prival_next cs b of None \<Rightarrow> 0 | Some n \<Rightarrow> prival_scan n r + 1)"

lemma prival_next_digit: "prival_next cs b = Some n \<Longrightarrow> is_digit b \<and> n \<in> {3, 594, 595}"
  by (auto simp: prival_next_def byte_class word_le_nat_alt split: if_splits)

lemma not_digit_62 [simp]: "\<not> is_digit 62" "\<not> is_digit 32"
  by (simp_all add: byte_class)

text \<open>The tail of a priority value, from a state in which at least one digit is read.\<close>

definition prival_stage :: "nat \<Rightarrow> bytes \<Rightarrow> nat \<Rightarrow> bytes \<Rightarrow> syslogMessage \<Rightarrow> stage" where
  "prival_stage cs pre col r out =
     (let n = prival_scan cs r in
      case drop n r of
        c # r2 \<Rightarrow> if c = 62 then Inr (col + n + 1, r2, set_prival (pre @ take n r) out)
                   else Inl ((ErrPrival, col + n), out)
      | [] \<Rightarrow> Inl ((ErrPrival, col + n), out))"

lemma set_prival_twice [simp]: "set_prival t (set_prival u out) = set_prival t out"
  by (simp add: set_prival_def)

lemma prival_stage_set_prival:
  "prival_stage cs pre col r (set_prival u out) =
    (case prival_stage cs pre col r out of
       Inl (e, out') \<Rightarrow> Inl (e, set_prival u out') | Inr x \<Rightarrow> Inr x)"
  by (simp add: prival_stage_def Let_def split: list.splits)

lemma prival_sim:
  "wf_ptr m \<Longrightarrow> m_cs m \<in> {3, 593, 594, 595} \<Longrightarrow> version out = 0 \<Longrightarrow>
    sim m out 4 (prival_stage (m_cs m) (marked m) (m_p m) (rest m) out)"
proof (induction "rest m" arbitrary: m out)
  case Nil
  then have "result m out = Some (fail_result (m_bestEffort m) (ErrPrival, m_p m) out)"
    by (intro result_fail_eof [OF _ _ eof_pri]) auto
  with Nil(1) [symmetric] show ?case
    by (simp add: prival_stage_def)
next
  case (Cons b r)
  note r = Cons.hyps(2) [symmetric]
  let ?out = "set_prival (marked m) out"
  have step: "step b m out =
      (if b = 62 then Next (goto_st 4 m) ?out
       else case prival_next (m_cs m) b of
              Some n \<Rightarrow> Next (goto_st n m) ?out
            | None \<Rightarrow> fail_with ErrPrival m ?out)"
    using Cons.prems by (subst step_dispatch_pri) (auto simp: step_pri_def prival_next_def)
  consider (gt) "b = 62" | (more) n where "b \<noteq> 62" "prival_next (m_cs m) b = Some n"
    | (bad) "b \<noteq> 62" "prival_next (m_cs m) b = None"
    by (cases "prival_next (m_cs m) b") auto
  then show ?case
  proof cases
    case gt
    then have "result m out = result (goto_st 4 m) ?out"
      using Cons.prems r step by (intro result_Cons [OF _ r]) auto
    moreover have "prival_next (m_cs m) 62 = None"
      using prival_next_digit [of "m_cs m" 62] by (cases "prival_next (m_cs m) 62") auto
    ultimately show ?thesis
      using r gt Cons.prems
      by (auto simp: prival_stage_def same_opts_def intro!: sim_Inr [of "goto_st 4 m"])
  next
    case more
    let ?m = "goto_st n m"
    have "sim ?m ?out 4 (prival_stage n (marked ?m) (m_p ?m) (rest ?m) ?out)"
      using Cons.hyps(1) [of ?m ?out] Cons.prems r prival_next_digit [OF more(2)] by auto
    moreover have "prival_stage (m_cs m) (marked m) (m_p m) (rest m) out =
        prival_stage n (marked ?m) (m_p ?m) (rest ?m) out"
      using more r Cons.prems by (simp add: prival_stage_def Let_def split: list.splits)
    ultimately have "sim ?m ?out 4 (prival_stage (m_cs m) (marked m) (m_p m) (rest m) out)"
      using Cons.prems(3) unfolding prival_stage_set_prival
      by (auto simp: sim_def prival_stage_def Let_def fail_no_version split: list.splits if_splits)
    then show ?thesis
      using more step Cons.prems r by (intro sim_step [OF _ r]) (auto simp: same_opts_def)
  next
    case bad
    then have "result m out = Some (fail_result (m_bestEffort m) (ErrPrival, m_p m) ?out)"
      using step Cons.prems r by (intro result_fail_step) auto
    with bad r Cons.prems(3) show ?thesis
      by (simp add: prival_stage_def fail_no_version)
  qed
qed

definition prival_first :: "byte \<Rightarrow> nat" where
  "prival_first b = (if b = 48 then 3 else if b = 49 then 593 else 594)"

lemma prival_next_simps [simp]:
  "prival_next 3 b = None"
  "prival_next 594 b = (if is_digit b then Some 3 else None)"
  "prival_next 595 b = (if in_range 48 49 b then Some 3 else None)"
  "prival_next 593 b = (if b = 57 then Some 595 else if is_digit b then Some 594 else None)"
  by (auto simp: prival_next_def in_range_def is_digit_def word_le_nat_alt word_unat_eq_iff)

lemma prival_scan_3 [simp]: "prival_scan 3 r = 0"
  by (cases r) simp_all

lemma prival_three:
  assumes "is_digit a" "a \<noteq> 48" "is_digit b" "is_digit c"
  shows "dec_value [a, b, c] 0 \<le> 191 \<longleftrightarrow> a = 49 \<and> (b \<noteq> 57 \<or> in_range 48 49 c)"
  using assms by (auto simp: byte_class in_range_def word_le_nat_alt word_unat_eq_iff)

lemma is_digit_57 [simp]: "is_digit 57" "is_digit 48"
  by (simp_all add: byte_class)
lemma digit_range: "in_range 48 49 b \<Longrightarrow> is_digit b"
  by (auto simp: byte_class in_range_def word_le_nat_alt)

lemma prival_len_scan:
  assumes "is_digit a"
  shows "prival_len (a # r) = prival_scan (prival_first a) r + 1"
proof (cases r)
  case Nil
  then show ?thesis using assms by (simp add: prival_len_def prival_first_def)
next
  case r: (Cons b r')
  show ?thesis
  proof (cases "is_digit b \<and> a \<noteq> 48")
    case False
    then show ?thesis
      using assms r by (auto simp: prival_len_def prival_first_def split: list.splits)
  next
    case True
    have three: "dec_value [a, b, c] 0 \<le> 191 \<longleftrightarrow> a = 49 \<and> (b \<noteq> 57 \<or> in_range 48 49 c)"
      if "is_digit c" for c
      using prival_three [OF assms _ _ that] True by blast
    show ?thesis
      using assms r True three digit_range
      by (cases r') (auto simp: prival_len_def prival_first_def simp del: dec_value.simps split: list.splits)
  qed
qed


lemma prival_len_zero: "r = [] \<or> \<not> is_digit (hd r) \<Longrightarrow> prival_len r = 0"
  by (cases r) (auto simp: prival_len_def)

text \<open>The stage from the opening bracket.\<close>

lemma sim_fail:
  assumes "wf_ptr m" "rest m = [] \<Longrightarrow> eof_actions m out = fail_with k m out"
    "\<And>b r. rest m = b # r \<Longrightarrow> step b m out = fail_with k m out"
  shows "result m out = Some (fail_result (m_bestEffort m) (k, m_p m) out)"
proof (cases "rest m")
  case Nil
  with assms show ?thesis by (intro result_fail_eof) auto
next
  case (Cons b r)
  with assms show ?thesis by (intro result_fail_step [of m b r]) auto
qed

lemma prival_start_sim:
  assumes "wf_ptr m" "m_cs m = 2" "version out = 0"
  shows "sim m out 4
    (let r1 = rest m; n = prival_len r1 in
     case drop n r1 of
       c # r2 \<Rightarrow> if n > 0 \<and> c = 62 then Inr (m_p m + n + 1, r2, set_prival (take n r1) out)
                  else Inl ((ErrPrival, m_p m + n), out)
     | [] \<Rightarrow> Inl ((ErrPrival, m_p m + n), out))"
proof (cases "rest m = [] \<or> \<not> is_digit (hd (rest m))")
  case True
  have "result m out = Some (fail_result (m_bestEffort m) (ErrPrival, m_p m) out)"
    using assms True
    by (intro sim_fail)
      (auto simp: eof_pri step_dispatch_pri step_pri_def in_range_def byte_class word_le_nat_alt)
  with True show ?thesis
    by (auto simp: prival_len_zero Let_def split: list.split)
next
  case False
  then obtain a r where r: "rest m = a # r" and a: "is_digit a"
    by (cases "rest m") auto
  let ?m = "goto_st (prival_first a) (mark m)"
  have st: "step a m out = Next ?m out"
    using a assms
    by (auto simp: step_dispatch_pri step_pri_def prival_first_def in_range_def byte_class
        word_le_nat_alt word_unat_eq_iff)
  have "prival_first a \<in> {3, 593, 594, 595}"
    by (simp add: prival_first_def)
  then have "sim ?m out 4 (prival_stage (m_cs ?m) (marked ?m) (m_p ?m) (rest ?m) out)"
    using assms r by (intro prival_sim) auto
  then show ?thesis
    using assms r a by (intro sim_step [OF _ r st])
      (auto simp: same_opts_def prival_len_scan prival_stage_def Let_def split: list.splits)
qed

lemma pri_sim:
  assumes "wf_ptr m" "m_cs m = 1" "version out = 0"
  shows "sim m out 4 (spec_pri (m_p m) (rest m) out)"
proof (cases "\<exists>r. rest m = 60 # r")
  case False
  then have "result m out = Some (fail_result (m_bestEffort m) (ErrPri, m_p m) out)"
    using assms
    by (intro sim_fail) (auto simp: eof_actions_def eof_header_def step_dispatch_pri step_pri_def)
  with False show ?thesis
    by (auto simp: spec_pri_def split: list.splits)
next
  case True
  then obtain r where r: "rest m = 60 # r" by auto
  have st: "step 60 m out = Next (goto_st 2 m) out"
    using assms by (simp add: step_dispatch_pri step_pri_def)
  show ?thesis
    using prival_start_sim [of "goto_st 2 m" out] assms r
    by (intro sim_step [OF _ r st])
      (auto simp: same_opts_def spec_pri_def Let_def cong: if_cong split: list.split)
qed

section \<open>VERSION\<close>

lemma step_dispatch_version:
  "m_cs m \<in> {4, 5, 591, 592} \<Longrightarrow> step b m out = step_version (m_cs m) b m out"
  by (auto simp: step_def)

lemma set_version_twice [simp]: "set_version t (set_version u out) = set_version t out"
  by (simp add: set_version_def)

lemma not_digit_space [simp]: "\<not> is_digit 32"
  by (simp add: byte_class)

text \<open>A state of VERSION with a byte that does not continue it.\<close>

lemma version_end:
  assumes "wf_ptr m" "m_cs m \<in> {5, 591, 592}"
    and "rest m = [] \<or> \<not> is_digit (hd (rest m)) \<or> m_cs m = 592"
  shows "sim m out 6
    (case rest m of
       [] \<Rightarrow> Inl ((if m_cs m = 5 then ErrParse else ErrVersion, m_p m),
              if m_cs m = 5 then set_version (marked m) out else out)
     | c # r \<Rightarrow> if c = 32 then Inr (m_p m + 1, r, set_version (marked m) out)
                else Inl ((if m_cs m = 5 then ErrParse else ErrVersion, m_p m),
                          set_version (marked m) out))"
proof (cases "rest m")
  case Nil
  have "eof_actions m out = fail_with (if m_cs m = 5 then ErrParse else ErrVersion) m
      (if m_cs m = 5 then set_version (marked m) out else out)"
    using assms(1,2) by (auto simp: eof_actions_def eof_header_def)
  from result_fail_eof [OF assms(1) Nil this] Nil show ?thesis
    by simp
next
  case (Cons c r)
  show ?thesis
  proof (cases "c = 32")
    case True
    then have "step c m out = Next (goto_st 6 m) (set_version (marked m) out)"
      using assms by (auto simp: step_dispatch_version step_version_def)
    then have "result m out = result (goto_st 6 m) (set_version (marked m) out)"
      using assms Cons by (intro result_Cons [OF _ Cons]) auto
    with True Cons assms show ?thesis
      by (auto simp: same_opts_def intro!: sim_Inr [of "goto_st 6 m"])
  next
    case False
    then have "step c m out =
        fail_with (if m_cs m = 5 then ErrParse else ErrVersion) m (set_version (marked m) out)"
      using assms Cons
      by (auto simp: step_dispatch_version step_version_def in_range_def is_digit_def)
    from result_fail_step [OF assms(1) Cons this] False Cons show ?thesis
      by simp
  qed
qed

lemma version_digit:
  assumes "wf_ptr m" "m_cs m = 5 \<and> n = 591 \<or> m_cs m = 591 \<and> n = 592"
    and "rest m = b # r" "is_digit b"
  shows "step b m out = Next (goto_st n m) (set_version (marked m) out)"
proof -
  have "b \<noteq> 32" using assms(4) by auto
  with assms show ?thesis
    by (auto simp: step_dispatch_version step_version_def in_range_def is_digit_def)
qed

lemma version_sim:
  assumes "wf_ptr m" "m_cs m = 4"
  shows "sim m out 6 (spec_version (m_p m) (rest m) out)"
proof (cases "\<exists>b r. rest m = b # r \<and> is_nonzero_digit b")
  case False
  then have "result m out = Some (fail_result (m_bestEffort m) (ErrVersion, m_p m) out)"
    using assms
    by (intro sim_fail) (auto simp: eof_actions_def eof_header_def step_dispatch_version
        step_version_def in_range_def is_nonzero_digit_def)
  with False show ?thesis
    by (auto simp: spec_version_def split: list.splits)
next
  case True
  then obtain a r where r: "rest m = a # r" and a: "is_nonzero_digit a" by auto
  then have a': "is_digit a"
    by (auto simp: byte_class word_le_nat_alt)
  let ?m1 = "goto_st 5 (mark m)"
  have st1: "step a m out = Next ?m1 out"
    using a assms by (simp add: step_dispatch_version step_version_def in_range_def is_nonzero_digit_def)
  have m1: "wf_ptr ?m1" "rest ?m1 = r" "marked ?m1 = [a]"
    using assms r by simp_all
  have "sim ?m1 out 6 (spec_version (m_p m) (rest m) out)"
  proof (cases "\<exists>b r2. r = b # r2 \<and> is_digit b")
    case False
    then have "length (takeWhile is_digit (rest m)) = 1"
      using r a' by (cases r) auto
    with False show ?thesis
      using version_end [of ?m1 out] m1 r a
      by (auto simp: spec_version_def split: list.splits)
  next
    case True
    then obtain b r2 where r2: "r = b # r2" and b: "is_digit b" by auto
    let ?m2 = "goto_st 591 ?m1"
    have st2: "step b ?m1 out = Next ?m2 (set_version [a] out)"
      using version_digit [of ?m1 591 b r2 out] m1 b r2 by simp
    have m2: "wf_ptr ?m2" "rest ?m2 = r2" "marked ?m2 = [a, b]"
      using m1 r2 by simp_all
    have "sim ?m2 (set_version [a] out) 6 (spec_version (m_p m) (rest m) out)"
    proof (cases "\<exists>c r3. r2 = c # r3 \<and> is_digit c")
      case False
      then have "length (takeWhile is_digit (rest m)) = 2"
        using r r2 a' b by (cases r2) auto
      with False show ?thesis
        using version_end [of ?m2 "set_version [a] out"] m2 r r2 a
        by (auto simp: spec_version_def split: list.splits)
    next
      case True
      then obtain c r3 where r3: "r2 = c # r3" and c: "is_digit c" by auto
      let ?m3 = "goto_st 592 ?m2"
      have st3: "step c ?m2 (set_version [a] out) = Next ?m3 (set_version [a, b] out)"
        using version_digit [of ?m2 592 c r3] m2 c r3 by simp
      have m3: "wf_ptr ?m3" "rest ?m3 = r3" "marked ?m3 = [a, b, c]"
        using m2 r3 by simp_all
      have "min (length (takeWhile is_digit (rest m))) 3 = 3"
        using r r2 r3 a' b c by simp
      then have "sim ?m3 (set_version [a, b] out) 6 (spec_version (m_p m) (rest m) out)"
        using version_end [of ?m3 "set_version [a, b] out"] m3 r r2 r3 a
        by (auto simp: spec_version_def numeral_2_eq_2 numeral_3_eq_3 split: list.splits)
      then show ?thesis
        using m2 r3 by (intro sim_step [OF m2(1) _ st3]) (auto simp: same_opts_def)
    qed
    then show ?thesis
      using m1 r2 by (intro sim_step [OF m1(1) _ st2]) (auto simp: same_opts_def)
  qed
  then show ?thesis
    using assms r by (intro sim_step [OF assms(1) r st1]) (auto simp: same_opts_def)
qed


section \<open>TIMESTAMP\<close>

lemma step_dispatch_timestamp:
  "m_cs m = 6 \<or> m_cs m = 7 \<or> 554 \<le> m_cs m \<and> m_cs m \<le> 590 \<Longrightarrow>
    step b m out = step_timestamp (m_cs m) b m out"
  by (auto simp: step_def)

lemma timestamp_next_states:
  "timestamp_next cs b = Some n \<Longrightarrow> cs \<noteq> 578 \<and> 554 \<le> n \<and> n \<le> 590"
  by (simp add: timestamp_next_def split: if_splits; linarith?)

definition ts_stage :: "nat \<Rightarrow> bytes \<Rightarrow> nat \<Rightarrow> bytes \<Rightarrow> syslogMessage \<Rightarrow> stage" where
  "ts_stage cs pre col r out =
     (case ts_scan cs r of
        (k, False) \<Rightarrow> Inl ((ErrTimestamp, col + k), out)
      | (k, True) \<Rightarrow>
          (case time_Parse_RFC3339MICRO (pre @ take k r) of
             Inl e \<Rightarrow> Inl ((ErrTime e, col + k), out)
           | Inr t \<Rightarrow>
               (let out1 = out\<lparr>timestamp := Some t, timestampSet := True\<rparr> in
                case drop k r of
                  c # r2 \<Rightarrow> if c = 32 then Inr (col + k + 1, r2, out1)
                             else Inl ((ErrParse, col + k), out1)
                | [] \<Rightarrow> Inl ((ErrParse, col + k), out1))))"

lemma ts_stage_next:
  "timestamp_next cs b = Some n \<Longrightarrow>
    ts_stage cs pre col (b # r) out = ts_stage n (pre @ [b]) (col + 1) r out"
  using timestamp_next_states [of cs b n]
  by (auto simp: ts_stage_def Let_def split: prod.splits bool.splits sum.splits list.splits)

lemma ts_end_sim:
  assumes "wf_ptr m" "m_cs m = 578"
  shows "sim m out 8 (ts_stage 578 (marked m) (m_p m) (rest m) out)"
proof (cases "time_Parse_RFC3339MICRO (marked m)")
  case (Inl e)
  then have "result m out = Some (fail_result (m_bestEffort m) (ErrTime e, m_p m) out)"
    using assms
    by (intro sim_fail) (auto simp: eof_actions_def eof_header_def step_dispatch_timestamp
        step_timestamp_def set_timestamp_def)
  with Inl show ?thesis
    by (cases "rest m") (simp_all add: ts_stage_def)
next
  case (Inr t)
  let ?out = "out\<lparr>timestamp := Some t, timestampSet := True\<rparr>"
  show ?thesis
  proof (cases "\<exists>r. rest m = 32 # r")
    case True
    then obtain r where r: "rest m = 32 # r" by auto
    have "step 32 m out = Next (goto_st 8 m) ?out"
      using assms Inr by (simp add: step_dispatch_timestamp step_timestamp_def set_timestamp_def)
    then have "result m out = result (goto_st 8 m) ?out"
      using assms r by (intro result_Cons [OF _ r]) auto
    with r Inr assms show ?thesis
      by (auto simp: ts_stage_def same_opts_def intro!: sim_Inr [of "goto_st 8 m"])
  next
    case False
    have "result m out = Some (fail_result (m_bestEffort m) (ErrParse, m_p m) ?out)"
    proof (cases "rest m")
      case Nil
      have "eof_actions m out = fail_with ErrParse m ?out"
        using assms Inr by (simp add: eof_actions_def eof_header_def set_timestamp_def)
      from result_fail_eof [OF assms(1) Nil this] show ?thesis by simp
    next
      case (Cons b r)
      then have "step b m out = fail_with ErrParse m ?out"
        using assms Inr False
        by (auto simp: step_dispatch_timestamp step_timestamp_def set_timestamp_def)
      from result_fail_step [OF assms(1) Cons this] show ?thesis by simp
    qed
    with Inr False show ?thesis
      by (cases "rest m") (auto simp: ts_stage_def)
  qed
qed

lemma ts_sim:
  "wf_ptr m \<Longrightarrow> 554 \<le> m_cs m \<Longrightarrow> m_cs m \<le> 590 \<Longrightarrow>
    sim m out 8 (ts_stage (m_cs m) (marked m) (m_p m) (rest m) out)"
proof (induction "rest m" arbitrary: m)
  case Nil
  show ?case
  proof (cases "m_cs m = 578")
    case True
    then show ?thesis using ts_end_sim [of m out] Nil by simp
  next
    case False
    then have "eof_actions m out = fail_with ErrTimestamp m out"
      using Nil.prems by (simp add: eof_actions_def eof_header_def)
    from result_fail_eof [OF Nil.prems(1) Nil(1) [symmetric] this] Nil(1) [symmetric] False
    show ?thesis by (simp add: ts_stage_def)
  qed
next
  case (Cons b r)
  note r = Cons.hyps(2) [symmetric]
  consider (fin) "m_cs m = 578" | (more) n where "timestamp_next (m_cs m) b = Some n"
    | (bad) "m_cs m \<noteq> 578" "timestamp_next (m_cs m) b = None"
    by (cases "timestamp_next (m_cs m) b") auto
  then show ?case
  proof cases
    case fin
    then show ?thesis using ts_end_sim [of m out] Cons.prems by simp
  next
    case more
    let ?m = "goto_st n m"
    note n = timestamp_next_states [OF more]
    have "sim ?m out 8 (ts_stage (m_cs ?m) (marked ?m) (m_p ?m) (rest ?m) out)"
      using Cons.hyps(1) [of ?m] Cons.prems r n by simp
    moreover have "step b m out = Next ?m out"
      using more n Cons.prems by (simp add: step_dispatch_timestamp step_timestamp_def)
    ultimately show ?thesis
      using Cons.prems r ts_stage_next [OF more]
      by (intro sim_step [OF _ r]) (auto simp: same_opts_def)
  next
    case bad
    then have "step b m out = fail_with ErrTimestamp m out"
      using Cons.prems by (simp add: step_dispatch_timestamp step_timestamp_def)
    from result_fail_step [OF Cons.prems(1) r this] r bad show ?thesis
      by (simp add: ts_stage_def)
  qed
qed

lemma timestamp_sim:
  assumes "wf_ptr m" "m_cs m = 6"
  shows "sim m out 8 (spec_timestamp (m_p m) (rest m) out)"
proof (cases "rest m = [] \<or> hd (rest m) \<noteq> 45 \<and> \<not> is_digit (hd (rest m))")
  case True
  then have "result m out = Some (fail_result (m_bestEffort m) (ErrTimestamp, m_p m) out)"
    using assms
    by (intro sim_fail)
      (auto simp: eof_actions_def eof_header_def step_dispatch_timestamp step_timestamp_def)
  with True show ?thesis
    by (cases "rest m") (simp_all add: spec_timestamp_def)
next
  case False
  then obtain a r where r: "rest m = a # r" and a: "a = 45 \<or> is_digit a"
    by (cases "rest m") auto
  show ?thesis
  proof (cases "a = 45")
    case dash: True
    let ?m = "goto_st 7 m"
    have st: "step a m out = Next ?m out"
      using dash assms by (simp add: step_dispatch_timestamp step_timestamp_def)
    have "sim ?m out 8 (spec_timestamp (m_p m) (rest m) out)"
    proof (cases "\<exists>r2. r = 32 # r2")
      case True
      then obtain r2 where r2: "r = 32 # r2" by auto
      have "result ?m out = result (goto_st 8 ?m) out"
        using assms r r2 by (intro result_Cons [of _ 32 r2])
          (auto simp: step_dispatch_timestamp step_timestamp_def)
      with dash r r2 assms show ?thesis
        by (auto simp: spec_timestamp_def same_opts_def intro!: sim_Inr [of "goto_st 8 ?m"])
    next
      case False
      then have "result ?m out = Some (fail_result (m_bestEffort ?m) (ErrParse, m_p ?m) out)"
        using assms r
        by (intro sim_fail)
          (auto simp: eof_actions_def eof_header_def step_dispatch_timestamp step_timestamp_def)
      with dash r False show ?thesis
        by (auto simp: spec_timestamp_def split: list.splits)
    qed
    then show ?thesis
      using assms by (intro sim_step [OF assms(1) r st]) (auto simp: same_opts_def)
  next
    case False
    with a have d: "is_digit a" by simp
    let ?m = "goto_st 554 (mark m)"
    have st: "step a m out = Next ?m out"
      using d False assms by (simp add: step_dispatch_timestamp step_timestamp_def)
    have "sim ?m out 8 (ts_stage (m_cs ?m) (marked ?m) (m_p ?m) (rest ?m) out)"
      using assms r by (intro ts_sim) auto
    moreover have "spec_timestamp (m_p m) (rest m) out =
        ts_stage (m_cs ?m) (marked ?m) (m_p ?m) (rest ?m) out"
      using assms r d False
      by (simp add: spec_timestamp_def ts_stage_def Let_def
          split: prod.split bool.split sum.split list.split)
    ultimately have "sim ?m out 8 (spec_timestamp (m_p m) (rest m) out)"
      by simp
    then show ?thesis
      using assms by (intro sim_step [OF assms(1) r st]) (auto simp: same_opts_def)
  qed
qed

text \<open>The header from VERSION to MSGID, and the structured data after it.\<close>

lemma header_sim:
  assumes "wf_ptr m" "m_cs m = 4"
  shows "sim m out 16 (spec_header (m_p m) (rest m) out)"
  unfolding spec_header_def
  by (rule sim_andThen, rule version_sim, fact, fact,
      rule sim_andThen, rule timestamp_sim, assumption, assumption,
      rule sim_andThen, rule hostname_field.field_sim, assumption, assumption,
      rule sim_andThen, rule appname_field.field_sim, assumption, assumption,
      rule sim_andThen, rule procid_field.field_sim, assumption, assumption,
      rule msgid_field.field_sim, assumption, assumption)


end
