(* ===== verification/RFC5424_SD.thy ===== *)
theory RFC5424_SD
  imports RFC5424_Sim
begin

text \<open>
  The simulation for STRUCTURED-DATA: names, values, parameters and elements, down to the byte.
\<close>

section \<open>Moving within the input\<close>

definition moved :: "nat \<Rightarrow> nat \<Rightarrow> machine \<Rightarrow> machine" where
  "moved cs n m = m\<lparr>m_cs := cs, m_p := m_p m + n\<rparr>"

lemma moved_simps [simp]:
  "m_data (moved cs n m) = m_data m" "m_p (moved cs n m) = m_p m + n"
  "m_pe (moved cs n m) = m_pe m" "m_eof (moved cs n m) = m_eof m" "m_cs (moved cs n m) = cs"
  "m_pb (moved cs n m) = m_pb m" "m_msgat (moved cs n m) = m_msgat m"
  "m_backslashat (moved cs n m) = m_backslashat m"
  "m_currentelem (moved cs n m) = m_currentelem m"
  "m_currentparam (moved cs n m) = m_currentparam m"
  "m_err (moved cs n m) = m_err m" "m_compliantMsg (moved cs n m) = m_compliantMsg m"
  "m_bestEffort (moved cs n m) = m_bestEffort m"
  by (simp_all add: moved_def)

lemma moved_goto: "moved cs n (goto_st c m) = moved cs (n + 1) m"
  by (simp add: moved_def goto_st_def)

lemma goto_moved: "goto_st cs m = moved cs 1 m"
  by (simp add: moved_def goto_st_def)

lemma moved_0: "m_cs m = cs \<Longrightarrow> moved cs 0 m = m"
  by (simp add: moved_def)

lemma rest_moved [simp]: "rest (moved cs n m) = drop n (rest m)"
  by (simp add: rest_def add.commute)

lemma length_rest: "wf_ptr m \<Longrightarrow> length (rest m) = length (m_data m) - m_p m"
  by (simp add: rest_def)

lemma wf_moved [simp]: "wf_ptr m \<Longrightarrow> n \<le> length (rest m) \<Longrightarrow> wf_ptr (moved cs n m)"
  by (auto simp: wf_ptr_def rest_def)

lemma marked_moved [simp]:
  assumes "wf_ptr m" "n \<le> length (rest m)"
  shows "marked (moved cs n m) = marked m @ take n (rest m)"
proof -
  have "m_p m + n - m_pb m = (m_p m - m_pb m) + n" "m_p m - m_pb m + m_pb m = m_p m"
    using assms by (simp_all add: wf_ptr_def)
  then show ?thesis
    by (simp only: marked_def rest_def moved_simps take_add drop_drop)
qed

lemma same_opts_moved [simp]: "same_opts m' (moved cs n m) \<longleftrightarrow> same_opts m' m"
  by (simp add: same_opts_def)

section \<open>Names\<close>

text \<open>The two chains of states that count the characters of a name, up to 32.\<close>

definition room :: "nat \<Rightarrow> bytes \<Rightarrow> nat" where
  "room k r = min (length (takeWhile is_sdname r)) (32 - k)"

lemma room_length: "room k r \<le> length r"
  using length_takeWhile_le [of is_sdname r] unfolding room_def by linarith

locale sd_chain =
  fixes pos :: "nat \<Rightarrow> nat"
  assumes chain_step:
    "m_cs m = pos k \<Longrightarrow> 1 \<le> k \<Longrightarrow> k < 32 \<Longrightarrow> is_sdname b \<Longrightarrow>
      step b m out = Next (goto_st (pos (k + 1)) m) out"
begin

lemma chain_run:
  "wf_ptr m \<Longrightarrow> m_cs m = pos k \<Longrightarrow> 1 \<le> k \<Longrightarrow> k \<le> 32 \<Longrightarrow>
    result m out = result (moved (pos (k + room k (rest m))) (room k (rest m)) m) out"
proof (induction "rest m" arbitrary: m k)
  case Nil
  then show ?case by (simp add: room_def moved_0 flip: Nil(1))
next
  case (Cons b r)
  note r = Cons.hyps(2) [symmetric]
  show ?case
  proof (cases "is_sdname b \<and> k < 32")
    case True
    let ?m = "goto_st (pos (k + 1)) m"
    have "result m out = result ?m out"
      using True Cons.prems by (intro result_Cons [OF _ r] chain_step) auto
    also have "\<dots> = result (moved (pos (k + 1 + room (k + 1) r)) (room (k + 1) r) ?m) out"
      using Cons.hyps(1) [of ?m "k + 1"] Cons.prems True r by simp
    also have "room k (b # r) = room (k + 1) r + 1"
      using True by (simp add: room_def min_def) linarith
    then have "moved (pos (k + 1 + room (k + 1) r)) (room (k + 1) r) ?m =
        moved (pos (k + room k (b # r))) (room k (b # r)) m"
      by (simp add: moved_goto)
    finally show ?thesis using r by simp
  next
    case False
    then have "room k (b # r) = 0"
      using Cons.prems by (auto simp: room_def)
    then show ?thesis using r Cons.prems by (simp add: moved_0)
  qed
qed

end

definition id_pos :: "nat \<Rightarrow> nat" where
  "id_pos k = (if k = 1 then 18 else 62 + k)"

lemma step_dispatch_sdid:
  "m_cs m \<in> {16, 17, 18, 606} \<or> 64 \<le> m_cs m \<and> m_cs m \<le> 94 \<Longrightarrow>
    step b m out = step_sdid (m_cs m) b m out"
  by (auto simp: step_def)

lemma step_dispatch_sdname:
  "19 \<le> m_cs m \<Longrightarrow> m_cs m \<le> 52 \<Longrightarrow> step b m out = step_sdname (m_cs m) b m out"
  by (auto simp: step_def)

lemma step_dispatch_sdvalue:
  "53 \<le> m_cs m \<Longrightarrow> m_cs m \<le> 63 \<Longrightarrow> step b m out = step_sdvalue (m_cs m) b m out"
  by (auto simp: step_def)

lemma sdname_not [simp]: "\<not> is_sdname 32" "\<not> is_sdname 93" "\<not> is_sdname 61" "\<not> is_sdname 34"
  by (simp_all add: is_sdname_def)

lemma sdname_noteq: "is_sdname b \<Longrightarrow> b \<noteq> 32 \<and> b \<noteq> 93 \<and> b \<noteq> 61 \<and> b \<noteq> 34"
  by auto

interpretation id_chain: sd_chain id_pos
proof
  fix m :: machine and k b out
  assume "m_cs m = id_pos k" "1 \<le> k" "k < 32" "is_sdname b"
  then show "step b m out = Next (goto_st (id_pos (k + 1)) m) out"
    using sdname_noteq [of b]
    by (subst step_dispatch_sdid) (auto simp: id_pos_def step_sdid_def)
qed

interpretation name_chain: sd_chain "\<lambda>k. 19 + k"
proof
  fix m :: machine and k b out
  assume "m_cs m = 19 + k" "1 \<le> k" "k < 32" "is_sdname b"
  then show "step b m out = Next (goto_st (19 + (k + 1)) m) out"
    using sdname_noteq [of b]
    by (subst step_dispatch_sdname) (auto simp: step_sdname_def)
qed


section \<open>The element id\<close>

lemma del_elem_has: "structuredData out \<noteq> None \<Longrightarrow> structuredData (del_elem e out) \<noteq> None"
  by (auto simp: del_elem_def Let_def)

lemma set_id_eq:
  "wf_ptr m \<Longrightarrow> structuredData out \<noteq> None \<Longrightarrow>
    set_id m out k =
      (if has_elem (marked m) out then fail_with ErrSdIDDuplicated m out
       else k (m\<lparr>m_currentelem := marked m\<rparr>) (add_elem (marked m) out))"
  by (auto simp: set_id_def has_elem_def add_elem_def)

text \<open>The machine after \<open>n\<close> bytes of a marked id.\<close>

lemma id_start:
  assumes "wf_ptr m" "m_cs m = 17" "rest m = b # r" "is_sdname b"
  defines "n \<equiv> min (length (takeWhile is_sdname (rest m))) 32"
  shows "result m out = result (moved (id_pos n) n (mark m)) out"
proof -
  let ?m = "goto_st 18 (mark m)"
  have "result m out = result ?m out"
    using assms by (intro result_Cons [OF _ assms(3)])
      (auto simp: step_dispatch_sdid step_sdid_def)
  also have "\<dots> = result (moved (id_pos (1 + room 1 r)) (room 1 r) ?m) out"
    using id_chain.chain_run [of ?m 1 out] assms(1,3) by (simp add: id_pos_def)
  also have "1 + room 1 r = n"
    using assms(3,4) by (simp add: n_def room_def)
  then have "moved (id_pos (1 + room 1 r)) (room 1 r) ?m = moved (id_pos n) n (mark m)"
    by (simp add: moved_goto)
  finally show ?thesis .
qed

lemma id_stop_step:
  assumes "m_cs m = id_pos n" "1 \<le> n" "n \<le> 32" "rest m = b # r" "is_sdname b \<Longrightarrow> n = 32"
    and "b \<noteq> 32" "b \<noteq> 93"
  shows "step b m out = set_id m out err_sdid"
  using assms by (subst step_dispatch_sdid) (auto simp: id_pos_def step_sdid_def)

lemma id_close_step:
  assumes "m_cs m = id_pos n" "1 \<le> n" "n \<le> 32"
  shows "step 32 m out = set_id m out (\<lambda>m out. Next (goto_st 19 m) out)"
    and "step 93 m out = set_id m out (\<lambda>m out. Next (goto_st 606 m) out)"
  using assms by (subst step_dispatch_sdid; auto simp: id_pos_def step_sdid_def)+

lemma id_eof:
  assumes "m_cs m = id_pos n" "1 \<le> n" "n \<le> 32"
  shows "eof_actions m out = set_id m out err_sdid"
  using assms by (auto simp: eof_actions_def id_pos_def)

lemma wf_elem_marked [simp]: "marked (m\<lparr>m_currentelem := e\<rparr>) = marked m"
  "rest (m\<lparr>m_currentelem := e\<rparr>) = rest m"
  "marked (m\<lparr>m_currentparam := e\<rparr>) = marked m" "rest (m\<lparr>m_currentparam := e\<rparr>) = rest m"
  "same_opts m' (m\<lparr>m_currentelem := e\<rparr>) = same_opts m' m"
  "same_opts m' (m\<lparr>m_currentparam := e\<rparr>) = same_opts m' m"
  "same_opts m' (mark m) = same_opts m' m"
  by (simp_all add: marked_def rest_def same_opts_def)

lemma id_stop:
  assumes "wf_ptr m" "m_cs m = id_pos n" "1 \<le> n" "n \<le> 32" "structuredData out \<noteq> None"
    and "rest m = [] \<or> \<not> (is_sdname (hd (rest m)) \<and> n < 32) \<and> hd (rest m) \<notin> {32, 93}"
  shows "result m out = Some (fail_result (m_bestEffort m)
      (if has_elem (marked m) out then ErrSdIDDuplicated else ErrSdID, m_p m)
      (if has_elem (marked m) out then out else del_elem (marked m) (add_elem (marked m) out)))"
proof -
  let ?k = "if has_elem (marked m) out then ErrSdIDDuplicated else ErrSdID"
  let ?o = "if has_elem (marked m) out then out else del_elem (marked m) (add_elem (marked m) out)"
  let ?m = "if has_elem (marked m) out then m else m\<lparr>m_currentelem := marked m\<rparr>"
  have eq: "set_id m out err_sdid = fail_with ?k ?m ?o"
    using assms by (simp add: set_id_eq err_sdid_def)
  have m: "?m = m \<or> wf_ptr ?m \<and> m_p ?m = m_p m \<and> m_bestEffort ?m = m_bestEffort m"
    using assms by simp
  show ?thesis
  proof (cases "rest m")
    case Nil
    show ?thesis
      using id_eof [OF assms(2-4), of out] eq m by (intro result_fail_eof [OF assms(1) Nil]) auto
  next
    case (Cons b r)
    show ?thesis
      using id_stop_step [OF assms(2-4) Cons, of out] eq m assms(4,6) Cons
      by (intro result_fail_step [OF assms(1) Cons]) auto
  qed
qed


section \<open>Parameter values\<close>

text \<open>The marked text without the recorded backslashes.\<close>

definition unesc :: "machine \<Rightarrow> bytes" where
  "unesc m = nths (marked m) {j. m_pb m + j \<notin> set (m_backslashat m)}"

lemma length_marked: "wf_ptr m \<Longrightarrow> length (marked m) = m_p m - m_pb m"
  by (auto simp: marked_def wf_ptr_def)

lemma nths_cong: "(\<And>i. i < length xs \<Longrightarrow> i \<in> A \<longleftrightarrow> i \<in> B) \<Longrightarrow> nths xs A = nths xs B"
  unfolding nths_def by (rule arg_cong [where f = "map fst"], rule filter_cong)
    (auto dest: set_zip_rightD)

lemma unesc_moved:
  assumes "wf_ptr m" "slashes_ok m" "n \<le> length (rest m)"
  shows "unesc (moved cs n m) = unesc m @ take n (rest m)"
proof -
  have "nths (take n (rest m)) {j. j + length (marked m) \<in> {j. m_pb m + j \<notin> set (m_backslashat m)}}
      = take n (rest m)"
    using assms length_marked [OF assms(1)]
    by (intro nths_all) (auto simp: slashes_ok_def wf_ptr_def)
  with assms show ?thesis
    by (simp add: unesc_def nths_append)
qed

lemma slashes_moved: "slashes_ok m \<Longrightarrow> slashes_ok (moved cs n m)"
  by (auto simp: slashes_ok_def)

lemma unesc_slash:
  assumes "wf_ptr m" "slashes_ok m" "rest m = 92 # r"
  shows "unesc (moved cs 1 (add_slash m)) = unesc m" "slashes_ok (moved cs 1 (add_slash m))"
proof -
  have wf: "wf_ptr (add_slash m)" "rest (add_slash m) = 92 # r" "marked (add_slash m) = marked m"
    using assms by (simp_all add: rest_def marked_def)
  have "nths (marked m) {j. m_pb m + j \<notin> set (m_backslashat m @ [m_p m])} = unesc m"
    unfolding unesc_def using length_marked [OF assms(1)] assms(1)
    by (intro nths_cong) (auto simp: wf_ptr_def)
  moreover have "nths [92 :: byte] {j. j + length (marked m) \<in>
      {j. m_pb m + j \<notin> set (m_backslashat m @ [m_p m])}} = []"
    using length_marked [OF assms(1)] assms(1) by (simp add: wf_ptr_def)
  ultimately show "unesc (moved cs 1 (add_slash m)) = unesc m"
    using wf by (simp add: unesc_def nths_append del: set_append)
  show "slashes_ok (moved cs 1 (add_slash m))"
    using assms(1,2) by (auto simp: slashes_ok_def sorted_wrt_append wf_ptr_def)
qed

lemma RemoveBytes_unesc:
  assumes "wf_ptr m" "slashes_ok m"
  shows "(if m_backslashat m \<noteq> [] then RemoveBytes (marked m) (m_backslashat m) (m_pb m)
          else Some (marked m)) = Some (unesc m)"
proof (cases "m_backslashat m = []")
  case True
  then show ?thesis by (simp add: unesc_def nths_all)
next
  case False
  have "RemoveBytes (marked m) (m_backslashat m) (m_pb m) = Some (unesc m)"
    using remove_loop_nths [of "m_backslashat m" "m_pb m" 0 "marked m"] assms
      length_marked [OF assms(1)]
    by (simp add: RemoveBytes_def unesc_def slashes_ok_def wf_ptr_def)
  with False show ?thesis by simp
qed

lemma seq_scan_sim:
  "wf_ptr m \<Longrightarrow> m_cs m = 57 + i \<Longrightarrow> i \<le> 6 \<Longrightarrow>
    (case seq_scan i (rest m) of (k, ok) \<Rightarrow>
       if ok then result m out = result (moved 54 k m) out
       else result m out = Some (fail_result (m_bestEffort m) (ErrSdParam, m_p m + k)
              (del_param (m_currentelem m) (m_currentparam m) out)))"
proof (induction "rest m" arbitrary: m i)
  case Nil
  have "eof_actions m out = err_sdparam m out"
    using Nil.prems by (simp add: eof_actions_def)
  then show ?case
    using Nil.prems Nil(1)
    by (simp add: err_sdparam_def result_fail_eof flip: Nil(1))
next
  case (Cons b r)
  note r = Cons.hyps(2) [symmetric]
  have step: "step b m out =
      (case utf8_cont i b of
         Some None \<Rightarrow> Next (goto_st 54 m) out
       | Some (Some j) \<Rightarrow> Next (goto_st (57 + j) m) out
       | None \<Rightarrow> err_sdparam m out)"
    using Cons.prems by (subst step_dispatch_sdvalue) (auto simp: step_sdvalue_def)
  consider (bad) "utf8_cont i b = None" | (last) "utf8_cont i b = Some None"
    | (more) j where "utf8_cont i b = Some (Some j)"
    by (cases "utf8_cont i b"; cases "the (utf8_cont i b)") auto
  then show ?case
  proof cases
    case bad
    then show ?thesis
      using step result_fail_step [OF Cons.prems(1) r, of out ErrSdParam m] r
      by (simp add: err_sdparam_def)
  next
    case last
    then have "result m out = result (goto_st 54 m) out"
      using step Cons.prems by (intro result_Cons [OF _ r]) auto
    with last r show ?thesis by (simp add: goto_moved)
  next
    case more
    let ?m = "goto_st (57 + j) m"
    have "j \<le> 6"
      using more by (auto simp: utf8_cont_def split: if_splits)
    moreover have "result m out = result ?m out"
      using more step Cons.prems by (intro result_Cons [OF _ r]) auto
    ultimately show ?thesis
      using Cons.hyps(1) [of ?m j] Cons.prems r more
      by (auto simp: moved_goto split: prod.splits if_splits)
  qed
qed


text \<open>A machine between characters of a value, \<open>n\<close> bytes further, that has read \<open>u\<close>.\<close>

definition in_value :: "machine \<Rightarrow> nat \<Rightarrow> bytes \<Rightarrow> machine \<Rightarrow> bool" where
  "in_value m n u m' \<longleftrightarrow>
     m_cs m' = 54 \<and> wf_ptr m' \<and> m_p m' = m_p m + n \<and> rest m' = drop n (rest m) \<and>
     slashes_ok m' \<and> unesc m' = u \<and> m_currentelem m' = m_currentelem m \<and>
     m_currentparam m' = m_currentparam m \<and> same_opts m m'"

text \<open>In state 53 the first byte is marked.\<close>

definition opened :: "machine \<Rightarrow> machine" where
  "opened m = (if m_cs m = 53 then mark m else m)"

lemma opened_simps [simp]:
  "rest (opened m) = rest m" "m_p (opened m) = m_p m" "m_currentelem (opened m) = m_currentelem m"
  "m_currentparam (opened m) = m_currentparam m" "same_opts m' (opened m) = same_opts m' m"
  "wf_ptr m \<Longrightarrow> wf_ptr (opened m)" "m_bestEffort (opened m) = m_bestEffort m"
  "m_data (opened m) = m_data m"
  by (simp_all add: opened_def)

lemma in_value_moved:
  assumes "wf_ptr m" "slashes_ok (opened m)" "n \<le> length (rest m)"
  shows "in_value m n (unesc (opened m) @ take n (rest m)) (moved 54 n (opened m))"
  using assms unesc_moved [of "opened m" n 54] slashes_moved [of "opened m"]
  by (simp add: in_value_def)

lemma value_step:
  assumes "m_cs m = 53 \<or> m_cs m = 54" "b \<noteq> 34"
  shows "step b m out =
     (if b = 92 then Next (goto_st 56 (add_slash (opened m))) out
      else if b = 93 then fail_with ErrEscape m out
      else if b < 128 then Next (goto_st 54 (opened m)) out
      else (case utf8_lead b of
              Some i \<Rightarrow> Next (goto_st (57 + i) (opened m)) out
            | None \<Rightarrow> fail_with ErrEscape m out))"
  using assms
  by (subst step_dispatch_sdvalue) (auto simp: step_sdvalue_def opened_def split: option.split)

lemma slash_view [simp]: "rest (add_slash m) = rest m" "marked (add_slash m) = marked m"
  "same_opts m' (add_slash m) = same_opts m' m"
  "rest (ini_sdparam m) = rest m" "same_opts m' (ini_sdparam m) = same_opts m' m"
  by (simp_all add: rest_def marked_def same_opts_def add_slash_def ini_sdparam_def)

lemma slash_sim:
  assumes "wf_ptr m" "m_cs m = 53 \<or> m_cs m = 54" "slashes_ok (opened m)" "rest m = 92 # r"
  shows "if r \<noteq> [] \<and> toescape (hd r)
    then \<exists>m'. in_value m 2 (unesc (opened m) @ [hd r]) m' \<and> result m out = result m' out
    else result m out = Some (fail_result (m_bestEffort m) (ErrEscape, m_p m + 1) out)"
proof -
  let ?m = "moved 56 1 (add_slash (opened m))"
  have wf: "wf_ptr ?m" "rest ?m = r"
    using assms by simp_all
  have m: "result m out = result ?m out"
    using assms value_step [of m 92 out]
    by (intro result_Cons [OF _ assms(4)]) (auto simp: goto_moved)
  have u: "unesc ?m = unesc (opened m)" "slashes_ok ?m"
    using unesc_slash [of "opened m" r 56] unesc_slash(2) [of "opened m" r] assms
    by (auto simp: slashes_ok_def)
  show ?thesis
  proof (cases "r \<noteq> [] \<and> toescape (hd r)")
    case True
    then obtain c r2 where r: "r = c # r2" "toescape c"
      by (cases r) auto
    have "step c ?m out = Next (goto_st 54 ?m) out"
      using r(2) by (subst step_dispatch_sdvalue) (auto simp: step_sdvalue_def toescape_def)
    then have "result ?m out = result (moved 54 1 ?m) out"
      using wf r(1) by (intro result_Cons [of ?m c r2]) (auto simp: goto_moved)
    moreover have "in_value m 2 (unesc (opened m) @ [c]) (moved 54 1 ?m)"
      using unesc_moved [of ?m 1 54] u wf r assms slashes_moved [OF u(2)]
      by (simp add: in_value_def)
    ultimately show ?thesis
      using True r m by auto
  next
    case False
    have "result ?m out = Some (fail_result (m_bestEffort ?m) (ErrEscape, m_p ?m) out)"
    proof (rule sim_fail)
      show "wf_ptr ?m" by (rule wf)
      show "eof_actions ?m out = fail_with ErrEscape ?m out"
        by (simp add: eof_actions_def)
      show "step b ?m out = fail_with ErrEscape ?m out" if "rest ?m = b # r'" for b r'
        using False wf that
        by (subst step_dispatch_sdvalue) (auto simp: step_sdvalue_def toescape_def)
    qed
    with False m show ?thesis
      by auto
  qed
qed

text \<open>One character.\<close>

lemma char_sim:
  assumes "wf_ptr m" "m_cs m = 53 \<or> m_cs m = 54" "slashes_ok (opened m)"
    and "rest m = [] \<or> hd (rest m) \<noteq> 34"
  shows "case spec_char (rest m) of
      Inl (k, off) \<Rightarrow> result m out = Some (fail_result (m_bestEffort m) (k, m_p m + off)
        (if k = ErrSdParam then del_param (m_currentelem m) (m_currentparam m) out else out))
    | Inr (n, t) \<Rightarrow>
        \<exists>m'. in_value m n (unesc (opened m) @ t) m' \<and> result m out = result m' out"
proof (cases "rest m")
  case Nil
  have "eof_actions m out = fail_with ErrEscape m out"
    using assms(2) by (auto simp: eof_actions_def)
  from result_fail_eof [OF assms(1) Nil this] Nil show ?thesis
    by (simp add: spec_char_def)
next
  case (Cons b r)
  then have b: "b \<noteq> 34" using assms(4) by simp
  note step = value_step [OF assms(2) b, of out]
  consider (slash) "b = 92" | (bad) "b = 93 \<or> b \<noteq> 92 \<and> \<not> b < 128 \<and> utf8_lead b = None"
    | (char) "b \<noteq> 92" "b \<noteq> 93" "b < 128"
    | (lead) i where "b \<noteq> 92" "b \<noteq> 93" "\<not> b < 128" "utf8_lead b = Some i"
    by (cases "utf8_lead b") auto
  then show ?thesis
  proof cases
    case slash
    then show ?thesis
      using slash_sim [OF assms(1-3), of r out] Cons by (auto simp: spec_char_def)
  next
    case bad
    then have "step b m out = fail_with ErrEscape m out"
      using step by auto
    from result_fail_step [OF assms(1) Cons this] Cons bad show ?thesis
      by (auto simp: spec_char_def)
  next
    case char
    then have "result m out = result (moved 54 1 (opened m)) out"
      using step assms(1) by (intro result_Cons [OF _ Cons]) (auto simp: goto_moved)
    then show ?thesis
      using in_value_moved [OF assms(1,3), of 1] Cons char by (auto simp: spec_char_def)
  next
    case lead
    let ?m = "moved (57 + i) 1 (opened m)"
    have m: "result m out = result ?m out"
      using step lead assms(1) by (intro result_Cons [OF _ Cons]) (auto simp: goto_moved)
    have "i \<le> 6"
      using lead(4) by (auto simp: utf8_lead_def split: if_splits)
    then have *: "case seq_scan i r of (k, ok) \<Rightarrow>
       if ok then result ?m out = result (moved 54 k ?m) out
       else result ?m out = Some (fail_result (m_bestEffort ?m) (ErrSdParam, m_p ?m + k)
              (del_param (m_currentelem ?m) (m_currentparam ?m) out))"
      using seq_scan_sim [of ?m i out] assms(1) Cons by simp
    obtain k ok where k: "seq_scan i r = (k, ok)" by fastforce
    show ?thesis
    proof (cases ok)
      case True
      have "moved 54 k ?m = moved 54 (k + 1) (opened m)"
        by (simp add: moved_def)
      then show ?thesis
        using True k * m lead Cons seq_scan_len [OF k]
          in_value_moved [OF assms(1,3), of "k + 1"]
        by (auto simp: spec_char_def)
    next
      case False
      then show ?thesis
        using k * m lead Cons by (simp add: spec_char_def)
    qed
  qed
qed


text \<open>The message holds the element.\<close>

definition elem_in :: "bytes \<Rightarrow> syslogMessage \<Rightarrow> bool" where
  "elem_in e out \<longleftrightarrow> hasElements out \<and> has_elem e out"

lemma elem_in_put [simp]: "elem_in e out \<Longrightarrow> elem_in e (put_param e n v out)"
  by (auto simp: elem_in_def has_elem_def put_param_def split: option.splits)

lemma elem_in_add [simp]: "structuredData out \<noteq> None \<Longrightarrow> elem_in e (add_elem e out)"
  by (auto simp: elem_in_def has_elem_def add_elem_def)

lemma elem_in_sd: "elem_in e out \<Longrightarrow> structuredData out \<noteq> None"
  by (auto simp: elem_in_def has_elem_def split: option.splits)

lemma paramvalue_eq:
  assumes "wf_ptr m" "slashes_ok m" "elem_in (m_currentelem m) out"
  shows "set_paramvalue m out k = k (put_param (m_currentelem m) (m_currentparam m) (unesc m) out)"
proof -
  from assms(3) obtain sd ps where sd: "hasElements out" "structuredData out = Some sd"
    "fmlookup sd (m_currentelem m) = Some ps"
    by (auto simp: elem_in_def has_elem_def split: option.splits)
  show ?thesis
    using sd assms(1) RemoveBytes_unesc [OF assms(1,2)]
    by (auto simp: set_paramvalue_def put_param_def split: option.splits if_splits)
qed

lemma value_sim:
  "wf_ptr m \<Longrightarrow> m_cs m = 53 \<or> m_cs m = 54 \<Longrightarrow> slashes_ok (opened m) \<Longrightarrow>
    elem_in (m_currentelem m) out \<Longrightarrow>
    (case spec_value (m_p m) (rest m) (unesc (opened m)) of
       Inl (k, c) \<Rightarrow> result m out = Some (fail_result (m_bestEffort m) (k, c)
         (if k = ErrSdParam then del_param (m_currentelem m) (m_currentparam m) out else out))
     | Inr (c, r', v) \<Rightarrow>
         \<exists>m'. m_cs m' = 55 \<and> wf_ptr m' \<and> m_p m' = c \<and> m_p m \<le> c \<and> rest m' = r' \<and>
              m_currentelem m' = m_currentelem m \<and> m_currentparam m' = m_currentparam m \<and>
              same_opts m m' \<and>
              result m out = result m' (put_param (m_currentelem m) (m_currentparam m) v out))"
proof (induction "length (rest m)" arbitrary: m rule: less_induct)
  case less
  show ?case
  proof (cases "rest m \<noteq> [] \<and> hd (rest m) = 34")
    case True
    then obtain r where r: "rest m = 34 # r" by (cases "rest m") auto
    let ?m = "goto_st 55 (opened m)"
    let ?out = "put_param (m_currentelem m) (m_currentparam m) (unesc (opened m)) out"
    have "step 34 m out = set_paramvalue (opened m) out (\<lambda>out. Next (goto_st 55 (opened m)) out)"
      using less.prems(2)
      by (subst step_dispatch_sdvalue) (auto simp: step_sdvalue_def opened_def Let_def)
    then have "result m out = result ?m ?out"
      using less.prems by (intro result_Cons [OF _ r]) (auto simp: paramvalue_eq)
    then show ?thesis
      using r less.prems
      by (auto simp: spec_value.simps [of "m_p m" "34 # r"] intro!: exI [of _ ?m] simp: goto_moved)
  next
    case False
    then have "rest m = [] \<or> hd (rest m) \<noteq> 34" by auto
    note char = char_sim [OF less.prems(1-3) this, of out]
    note unfold = spec_value.simps [of "m_p m" "rest m"]
    show ?thesis
    proof (cases "spec_char (rest m)")
      case (Inl x)
      with char False show ?thesis
        by (cases x) (auto simp: unfold)
    next
      case (Inr x)
      then obtain n t where x: "spec_char (rest m) = Inr (n, t)" by (cases x) auto
      with char obtain m' where m': "in_value m n (unesc (opened m) @ t) m'"
        "result m out = result m' out" by auto
      then have op: "opened m' = m'" and i: "m_cs m' = 54" "wf_ptr m'" "m_p m' = m_p m + n"
        "rest m' = drop n (rest m)" "slashes_ok m'" "unesc m' = unesc (opened m) @ t"
        "m_currentelem m' = m_currentelem m" "m_currentparam m' = m_currentparam m" "same_opts m m'"
        by (simp_all add: in_value_def opened_def)
      have "length (rest m') < length (rest m)"
        using spec_char_length [OF x] i(4) by (auto intro: diff_less)
      note IH = less.hyps [OF this i(2)]
      have eq: "spec_value (m_p m) (rest m) (unesc (opened m)) =
          spec_value (m_p m') (rest m') (unesc (opened m'))"
        using False x i op by (auto simp: unfold)
      have "m_bestEffort m' = m_bestEffort m"
        using i(9) by (simp add: same_opts_def)
      then show ?thesis
        unfolding eq using IH m'(2) i op less.prems(4)
        by (auto split: sum.splits intro: same_opts_trans)
    qed
  qed
qed


lemma sim_fail':
  assumes "wf_ptr m" "rest m = [] \<Longrightarrow> eof_actions m out = fail_with k m out'"
    "\<And>b r. rest m = b # r \<Longrightarrow> step b m out = fail_with k m out'"
  shows "result m out = Some (fail_result (m_bestEffort m) (k, m_p m) out')"
proof (cases "rest m")
  case Nil
  with assms show ?thesis by (intro result_fail_eof) auto
next
  case (Cons b r)
  with assms show ?thesis by (intro result_fail_step [of m b r]) auto
qed

section \<open>Parameters\<close>

text \<open>
  \<open>q\<close> is the parameter of the element that was read last; before the first one the element is
  empty, and deleting the machine's stale current parameter changes nothing.
\<close>

definition last_param :: "machine \<Rightarrow> bytes option \<Rightarrow> syslogMessage \<Rightarrow> bool" where
  "last_param m q out \<longleftrightarrow>
     (case q of
        None \<Rightarrow> (\<exists>sd. structuredData out = Some sd \<and> fmlookup sd (m_currentelem m) = Some fmempty)
      | Some n \<Rightarrow> m_currentparam m = n)"

lemma undo_last:
  assumes "last_param m q out"
  shows "del_param (m_currentelem m) (m_currentparam m) out = undo_param (m_currentelem m) q out"
proof (cases q)
  case None
  with assms obtain sd where sd: "structuredData out = Some sd"
    "fmlookup sd (m_currentelem m) = Some fmempty"
    by (auto simp: last_param_def)
  then have "fmupd (m_currentelem m) fmempty sd = sd"
    by (intro fmap_ext) auto
  with sd None show ?thesis
    by (simp add: del_param_def undo_param_def)
next
  case (Some n)
  with assms show ?thesis
    by (simp add: last_param_def undo_param_def)
qed

lemma undo_some: "del_param e n out = undo_param e (Some n) out"
  by (simp add: undo_param_def)

text \<open>The byte after the first 32 characters of a name.\<close>

lemma after_name:
  assumes "drop (min (length (takeWhile is_sdname r)) 32) r = c # x"
  shows "if length (takeWhile is_sdname r) \<le> 32
    then \<not> is_sdname c \<and> drop (length (takeWhile is_sdname r)) r = c # x else is_sdname c"
proof (cases "length (takeWhile is_sdname r) \<le> 32")
  case True
  then have c: "drop (length (takeWhile is_sdname r)) r = c # x"
    using assms by (simp add: min_def)
  then have "\<not> is_sdname c"
    using hd_dropWhile [of is_sdname r] by (simp add: dropWhile_eq_drop)
  with True c show ?thesis by simp
next
  case False
  then have "c = takeWhile is_sdname r ! 32"
    using assms takeWhile_nth [of 32 is_sdname r]
    by (simp add: min_def) (metis nth_via_drop)
  then have "is_sdname c"
    using False set_takeWhileD [of c is_sdname r] nth_mem [of 32 "takeWhile is_sdname r"] by simp
  with False show ?thesis by simp
qed

text \<open>The name up to the equals sign.\<close>

lemma name_sim:
  fixes m out
  defines "name \<equiv> takeWhile is_sdname (rest m)"
  assumes "wf_ptr m" "m_cs m = 19"
  shows "if name = [] \<or> length name > 32 \<or> drop (length name) (rest m) = [] \<or>
            hd (drop (length name) (rest m)) \<noteq> 61
    then result m out = Some (fail_result (m_bestEffort m)
      (ErrSdParam, m_p m + min (length name) 32)
      (del_param (m_currentelem m) (m_currentparam m) out))
    else result m out =
      result ((moved 52 (length name + 1) (mark (ini_sdparam m)))\<lparr>m_currentparam := name\<rparr>) out"
proof (cases "name = []")
  case True
  have "result m out = Some (fail_result (m_bestEffort m) (ErrSdParam, m_p m)
      (del_param (m_currentelem m) (m_currentparam m) out))"
  proof (cases "rest m")
    case Nil
    have "eof_actions m out = err_sdparam m out"
      using assms by (simp add: eof_actions_def)
    with Nil assms show ?thesis
      by (simp add: err_sdparam_def result_fail_eof)
  next
    case (Cons b r)
    then have "step b m out = err_sdparam m out"
      using True assms
      by (subst step_dispatch_sdname) (auto simp: step_sdname_def split: if_splits)
    with Cons assms result_fail_step [OF _ Cons, of out ErrSdParam m] show ?thesis
      by (simp add: err_sdparam_def)
  qed
  with True show ?thesis by simp
next
  case False
  then obtain b r where r: "rest m = b # r" "is_sdname b"
    unfolding name_def by (cases "rest m") (auto split: if_splits)
  let ?ms = "mark (ini_sdparam m)"
  let ?n = "min (length name) 32"
  let ?m = "moved (19 + ?n) ?n ?ms"
  have n: "1 \<le> ?n" "?n \<le> length name" "?n \<le> 32" "?n = 1 + room 1 r"
    using False r by (simp_all add: name_def room_def Suc_le_eq)
  have rest0: "rest ?ms = rest m" "wf_ptr ?ms" "marked ?ms = []"
    using assms by (simp_all add: rest_def)
  have "result m out = result (goto_st 20 ?ms) out"
    using assms r by (intro result_Cons [OF _ r(1)])
      (auto simp: step_dispatch_sdname step_sdname_def)
  also have "\<dots> = result ?m out"
    using name_chain.chain_run [of "goto_st 20 ?ms" 1 out] assms r rest0 n(4)
    by (simp add: moved_goto)
  finally have m: "result m out = result ?m out" .
  have len: "?n \<le> length (rest m)"
    using n(2) length_takeWhile_le [of is_sdname "rest m"] unfolding name_def by linarith
  have wf: "wf_ptr ?m" "rest ?m = drop ?n (rest m)" "marked ?m = take ?n (rest m)"
    using len rest0 by (simp_all only: wf_moved rest_moved marked_moved append_Nil)
  show ?thesis
  proof (cases "length name \<le> 32 \<and> drop (length name) (rest m) \<noteq> [] \<and>
      hd (drop (length name) (rest m)) = 61")
    case True
    then obtain r2 where r2: "rest ?m = 61 # r2"
      using wf(2) by (cases "drop (length name) (rest m)") auto
    have name: "take (length name) (rest m) = name"
      unfolding name_def by (simp flip: takeWhile_eq_take)
    have "step 61 ?m out = Next (goto_st 52 (?m\<lparr>m_currentparam := marked ?m\<rparr>)) out"
      using wf(1) n by (subst step_dispatch_sdname) (auto simp: step_sdname_def set_paramname_def)
    then have "result ?m out = result (goto_st 52 (?m\<lparr>m_currentparam := marked ?m\<rparr>)) out"
      by (intro result_Cons [OF wf(1) r2])
    moreover have "goto_st 52 (?m\<lparr>m_currentparam := marked ?m\<rparr>) =
        (moved 52 (length name + 1) ?ms)\<lparr>m_currentparam := name\<rparr>"
      using True name wf(3) by (simp add: moved_def goto_st_def)
    ultimately show ?thesis
      using True False m by simp
  next
    case bad: False
    have "result ?m out = Some (fail_result (m_bestEffort ?m) (ErrSdParam, m_p ?m)
        (del_param (m_currentelem ?m) (m_currentparam ?m) out))"
    proof (cases "rest ?m")
      case Nil
      have "eof_actions ?m out = err_sdparam ?m out"
        using n by (simp add: eof_actions_def)
      with Nil wf(1) show ?thesis
        by (simp add: err_sdparam_def result_fail_eof)
    next
      case (Cons c r2)
      have "c \<noteq> 61 \<and> (is_sdname c \<longrightarrow> ?n = 32)"
        using after_name [of "rest m" c r2] Cons wf(2) bad
        by (auto simp: name_def split: if_splits)
      then have "step c ?m out = err_sdparam ?m out"
        using n by (subst step_dispatch_sdname) (auto simp: step_sdname_def)
      with result_fail_step [OF wf(1) Cons, of out ErrSdParam ?m] show ?thesis
        by (simp add: err_sdparam_def)
    qed
    moreover have "\<not> (name \<noteq> [] \<and> length name \<le> 32 \<and> drop (length name) (rest m) \<noteq> [] \<and>
        hd (drop (length name) (rest m)) = 61)"
      using bad by blast
    ultimately show ?thesis
      using m by auto
  qed
qed


text \<open>The machine reaches the state after an element's bracket, or the stage's failure.\<close>

definition closes :: "machine \<Rightarrow> syslogMessage \<Rightarrow> bytes \<Rightarrow> stage \<Rightarrow> bool" where
  "closes m out e s =
     (case s of
        Inl (err, out') \<Rightarrow> result m out = Some (fail_result (m_bestEffort m) err out')
      | Inr (c, r', out') \<Rightarrow>
          \<exists>m'. m_cs m' = 606 \<and> wf_ptr m' \<and> m_p m' = c \<and> m_p m \<le> c \<and> rest m' = r' \<and>
               m_currentelem m' = e \<and> same_opts m m' \<and> elem_in e out' \<and>
               result m out = result m' out')"

lemma closes_from:
  assumes "result m out = result m1 out1" "same_opts m m1" "m_p m \<le> m_p m1" "closes m1 out1 e s"
  shows "closes m out e s"
  using assms unfolding closes_def same_opts_def
  by (auto split: sum.splits prod.splits intro: order_trans)

lemma closes_fail:
  assumes "wf_ptr m" "m_cs m = 52 \<or> m_cs m = 55" "m_currentelem m = e" "m_currentparam m = n"
    and "rest m = [] \<or> (if m_cs m = 52 then hd (rest m) \<noteq> 34 else hd (rest m) \<notin> {32, 93})"
  shows "closes m out e (Inl ((ErrSdParam, m_p m), undo_param e (Some n) out))"
proof -
  have "result m out = Some (fail_result (m_bestEffort m) (ErrSdParam, m_p m)
      (del_param (m_currentelem m) (m_currentparam m) out))"
  proof (rule sim_fail' [of m out ErrSdParam "del_param (m_currentelem m) (m_currentparam m) out"])
    show "eof_actions m out = fail_with ErrSdParam m (del_param (m_currentelem m) (m_currentparam m) out)"
      using assms(2) by (auto simp: eof_actions_def err_sdparam_def)
    show "step b m out = fail_with ErrSdParam m (del_param (m_currentelem m) (m_currentparam m) out)"
      if "rest m = b # r" for b r
    proof (cases "m_cs m = 52")
      case True
      with assms(5) that show ?thesis
        by (subst step_dispatch_sdname) (auto simp: step_sdname_def err_sdparam_def)
    next
      case False
      with assms(2,5) that show ?thesis
        by (subst step_dispatch_sdvalue) (auto simp: step_sdvalue_def err_sdparam_def)
    qed
  qed (rule assms)
  with assms(3,4) show ?thesis
    by (simp add: closes_def undo_param_def)
qed

lemma params_sim:
  "wf_ptr m \<Longrightarrow> m_cs m = 19 \<Longrightarrow> elem_in (m_currentelem m) out \<Longrightarrow> last_param m q out \<Longrightarrow>
    closes m out (m_currentelem m) (spec_params (m_currentelem m) q (m_p m) (rest m) out)"
proof (induction "length (rest m)" arbitrary: m q out rule: less_induct)
  case less
  note prems = less.prems
  define name where "name = takeWhile is_sdname (rest m)"
  let ?e = "m_currentelem m"
  let ?n = "length name"
  let ?bad = "name = [] \<or> ?n > 32 \<or> drop ?n (rest m) = [] \<or> hd (drop ?n (rest m)) \<noteq> 61"
  note name = name_sim [OF prems(1,2), of out, folded name_def]
  note unfold = spec_params.simps [of ?e q "m_p m" "rest m" out, folded name_def, unfolded Let_def]
  show ?case
  proof (cases ?bad)
    case True
    then have "result m out = Some (fail_result (m_bestEffort m)
        (ErrSdParam, m_p m + min ?n 32) (del_param ?e (m_currentparam m) out))"
      using name by (simp only: if_True)
    moreover from True have "?n = 0 \<or> ?n > 32 \<or> drop ?n (rest m) = [] \<or> hd (drop ?n (rest m)) \<noteq> 61"
      by simp
    ultimately show ?thesis
      unfolding unfold by (simp add: closes_def undo_last [OF prems(4)])
  next
    case False
    let ?m1 = "(moved 52 (?n + 1) (mark (ini_sdparam m)))\<lparr>m_currentparam := name\<rparr>"
    have m1: "result m out = result ?m1 out"
      using name False by (simp only: if_False)
    have "?n < length (rest m)"
      using False by simp
    then have wf1: "wf_ptr ?m1" "rest ?m1 = drop (?n + 1) (rest m)" "m_currentelem ?m1 = ?e"
      "m_p ?m1 = m_p m + ?n + 1"
      using prems(1) by simp_all
    show ?thesis
    proof (cases "rest ?m1 = [] \<or> hd (rest ?m1) \<noteq> 34")
      case True
      have "closes ?m1 out ?e (Inl ((ErrSdParam, m_p ?m1), undo_param ?e (Some name) out))"
        using True wf1 by (intro closes_fail) auto
      moreover have "spec_params ?e q (m_p m) (rest m) out =
          Inl ((ErrSdParam, m_p ?m1), undo_param ?e (Some name) out)"
        using False True wf1(2) unfolding unfold by auto
      ultimately show ?thesis
        by (intro closes_from [OF m1]) auto
    next
      case quote: False
      then obtain r2 where r2: "rest ?m1 = 34 # r2" by (cases "rest ?m1") auto
      let ?m2 = "goto_st 53 ?m1"
      have "step 34 ?m1 out = Next ?m2 out"
        by (subst step_dispatch_sdname) (auto simp: step_sdname_def)
      then have m2: "result m out = result ?m2 out"
        using m1 result_Cons [OF wf1(1) r2] by simp
      have wf2: "wf_ptr ?m2" "m_p ?m2 = m_p m + ?n + 2" "rest ?m2 = drop (?n + 2) (rest m)"
      proof -
        show "wf_ptr ?m2" using wf1(1) r2 by simp
        show "m_p ?m2 = m_p m + ?n + 2" by simp
        show "rest ?m2 = drop (?n + 2) (rest m)"
          unfolding goto_moved rest_moved wf1(2) by simp
      qed
      have u: "slashes_ok (opened ?m2)" "unesc (opened ?m2) = []"
        by (simp_all add: opened_def slashes_ok_def unesc_def)
      have "elem_in (m_currentelem ?m2) out"
        using prems(3) by simp
      note val = value_sim [OF wf2(1) _ u(1) this, unfolded u(2) wf2(2,3)]
      have spec: "spec_params ?e q (m_p m) (rest m) out =
         (case spec_value (m_p m + ?n + 2) (drop (?n + 2) (rest m)) [] of
              Inl (k, c) \<Rightarrow>
                Inl ((k, c), if k = ErrSdParam then undo_param ?e (Some name) out else out)
            | Inr (c, r', v) \<Rightarrow>
                (case r' of
                   [] \<Rightarrow> Inl ((ErrSdParam, c), undo_param ?e (Some name) (put_param ?e name v out))
                 | b # r2 \<Rightarrow>
                     if b = 32 then spec_params ?e (Some name) (c + 1) r2 (put_param ?e name v out)
                     else if b = 93 then Inr (c + 1, r2, put_param ?e name v out)
                     else Inl ((ErrSdParam, c),
                            undo_param ?e (Some name) (put_param ?e name v out))))"
        using False quote wf1(2) unfolding unfold by auto
      show ?thesis
      proof (cases "spec_value (m_p m + ?n + 2) (drop (?n + 2) (rest m)) []")
        case (Inl x)
        then show ?thesis
          using val m2 unfolding spec
          by (cases x) (auto simp: closes_def undo_param_def)
      next
        case (Inr x)
        then obtain c r' v where v: "spec_value (m_p m + ?n + 2) (drop (?n + 2) (rest m)) [] = Inr (c, r', v)"
          by (cases x) auto
        let ?out = "put_param ?e name v out"
        obtain m3 where m3: "m_cs m3 = 55" "wf_ptr m3" "m_p m3 = c" "m_p m + ?n + 2 \<le> c"
          "rest m3 = r'" "m_currentelem m3 = ?e" "m_currentparam m3 = name" "same_opts m m3"
          "result m out = result m3 ?out"
          using val v m2 by (fastforce simp: same_opts_def)
        have "closes m3 ?out ?e (spec_params ?e q (m_p m) (rest m) out)"
        proof (cases r')
          case Nil
          then have "closes m3 ?out ?e (Inl ((ErrSdParam, c), undo_param ?e (Some name) ?out))"
            using closes_fail [OF m3(2) _ m3(6,7)] m3 by auto
          with Nil v show ?thesis unfolding spec by simp
        next
          case (Cons b r4)
          have wf4: "wf_ptr (goto_st k m3)" "rest (goto_st k m3) = r4" for k
            using m3(2,5) Cons by auto
          consider (sp) "b = 32" | (close) "b = 93" | (bad) "b \<notin> {32, 93}" by auto
          then show ?thesis
          proof cases
            case sp
            let ?m4 = "goto_st 19 m3"
            have "length r4 < length (rest m)"
              using spec_value_shorter [OF v] Cons by simp
            then have "closes ?m4 ?out ?e (spec_params ?e (Some name) (c + 1) r4 ?out)"
              using less.hyps [of ?m4 ?out "Some name"] wf4 m3 prems(3)
              by (simp add: last_param_def)
            moreover have "result m3 ?out = result ?m4 ?out"
              using m3 sp Cons
              by (intro result_Cons [of m3 b r4]) (auto simp: step_dispatch_sdvalue step_sdvalue_def)
            ultimately show ?thesis
              using sp Cons v unfolding spec
              by (intro closes_from [of m3 ?out ?m4 ?out]) (auto simp: same_opts_def)
          next
            case close
            have "result m3 ?out = result (goto_st 606 m3) ?out"
              using m3 close Cons
              by (intro result_Cons [of m3 b r4]) (auto simp: step_dispatch_sdvalue step_sdvalue_def)
            then show ?thesis
              using close Cons v wf4 m3 prems(3) unfolding spec
              by (auto simp: closes_def same_opts_def intro!: exI [of _ "goto_st 606 m3"])
          next
            case bad
            then have "closes m3 ?out ?e (Inl ((ErrSdParam, c), undo_param ?e (Some name) ?out))"
              using closes_fail [OF m3(2) _ m3(6,7)] m3 Cons by auto
            with bad Cons v show ?thesis unfolding spec by simp
          qed
        qed
        then show ?thesis
          using m3 by (intro closes_from [OF m3(9)]) auto
      qed
    qed
  qed
qed


section \<open>Elements\<close>

text \<open>At the end of the input the states after structured data and before MSG accept alike.\<close>

lemma result_end:
  assumes "wf_ptr m" "m_cs m \<in> {603, 604, 606}" "rest m = []"
  shows "result m out = Some (Some (export out), None)"
proof -
  have "eof_actions m out = Out m out"
    using assms by (auto simp: eof_actions_def eof_header_def eof_message_def)
  with assms show ?thesis
    by (auto simp: result_Nil finish_def parse_result_def firstFinal_def enFail_def)
qed

lemma sim_end:
  assumes "wf_ptr m" "m_cs m \<in> {603, 606}" "rest m = []"
  shows "sim m out 604 (Inr (m_p m, [], out))"
proof -
  have "rest (m\<lparr>m_cs := 604\<rparr>) = []" "wf_ptr (m\<lparr>m_cs := 604\<rparr>)"
    using assms by (simp_all add: rest_def wf_ptr_def)
  with assms show ?thesis
    by (intro sim_Inr [of "m\<lparr>m_cs := 604\<rparr>"]) (auto simp: result_end same_opts_def)
qed

lemma id_empty:
  assumes "wf_ptr m" "m_cs m = 17" "takeWhile is_sdname (rest m) = []"
  shows "result m out =
    Some (fail_result (m_bestEffort m) (ErrSdID, m_p m) (del_elem (m_currentelem m) out))"
  using assms
  by (intro sim_fail')
    (auto simp: eof_actions_def err_sdid_def step_dispatch_sdid step_sdid_def split: if_splits)

lemma elem_sim:
  fixes m out
  defines "t \<equiv> take 32 (takeWhile is_sdname (rest m))"
  assumes "wf_ptr m" "m_cs m = 17" "structuredData out \<noteq> None"
  shows "closes m out t (spec_elem (m_currentelem m) (m_p m) (rest m) out)"
proof (cases "takeWhile is_sdname (rest m) = []")
  case True
  then show ?thesis
    using id_empty [OF assms(2,3)] by (simp add: spec_elem_def closes_def)
next
  case False
  define n where "n = length (takeWhile is_sdname (rest m))"
  let ?k = "min n 32"
  let ?m = "moved (id_pos ?k) ?k (mark m)"
  have n: "1 \<le> ?k" "?k \<le> 32" "n \<noteq> 0"
    using False by (simp_all add: n_def Suc_le_eq)
  obtain b r where r: "rest m = b # r" "is_sdname b"
    using False by (cases "rest m") (auto split: if_splits)
  have m: "result m out = result ?m out"
    using id_start [OF assms(2,3) r] by (simp add: n_def)
  have len: "?k \<le> length (rest m)"
    using length_takeWhile_le [of is_sdname "rest m"] unfolding n_def by linarith
  have t: "take ?k (rest m) = t"
  proof -
    have "take n (rest m) = takeWhile is_sdname (rest m)"
      unfolding n_def by (simp flip: takeWhile_eq_take)
    then show ?thesis
      unfolding t_def by (metis min.commute take_take)
  qed
  have wf: "wf_ptr ?m" "rest ?m = drop ?k (rest m)" "marked ?m = t" "m_p ?m = m_p m + ?k"
    using len assms(2) t by simp_all
  have stop: "rest ?m = [] \<or> \<not> (is_sdname (hd (rest ?m)) \<and> ?k < 32) \<and> hd (rest ?m) \<notin> {32, 93}"
    if "n > 32 \<or> drop n (rest m) = [] \<or> hd (drop n (rest m)) \<notin> {32, 93}"
  proof (cases "rest ?m")
    case (Cons c x)
    then show ?thesis
      using after_name [of "rest m" c x] that wf(2)
      by (auto simp: n_def split: if_splits)
  qed simp
  have spec: "spec_elem (m_currentelem m) (m_p m) (rest m) out =
     (if has_elem t out then Inl ((ErrSdIDDuplicated, m_p m + ?k), out)
      else if n > 32 \<or> drop n (rest m) = [] \<or> hd (drop n (rest m)) \<notin> {32, 93} then
        Inl ((ErrSdID, m_p m + ?k), del_elem t (add_elem t out))
      else if hd (drop n (rest m)) = 32
      then spec_params t None (m_p m + n + 1) (drop (n + 1) (rest m)) (add_elem t out)
      else Inr (m_p m + n + 1, drop (n + 1) (rest m), add_elem t out))"
    using n(3) by (simp add: spec_elem_def Let_def n_def t_def)
  show ?thesis
  proof (cases "n > 32 \<or> drop n (rest m) = [] \<or> hd (drop n (rest m)) \<notin> {32, 93}")
    case True
    then show ?thesis
      using id_stop [OF wf(1) _ n(1,2) assms(4) stop] m wf
      unfolding spec by (auto simp: closes_def)
  next
    case False
    then obtain c x where c: "drop n (rest m) = c # x" "c = 32 \<or> c = 93" "n \<le> 32"
      by (cases "drop n (rest m)") auto
    then have rest: "rest ?m = c # x" "drop (n + 1) (rest m) = x" "?k = n"
      using wf(2) by (auto simp: min_def drop_Suc simp flip: tl_drop)
    let ?st = "if c = 32 then 19 else 606"
    let ?m2 = "goto_st ?st (?m\<lparr>m_currentelem := t\<rparr>)"
    let ?out = "add_elem t out"
    have step: "step c ?m out = (if has_elem t out then fail_with ErrSdIDDuplicated ?m out
        else Next ?m2 ?out)"
      using id_close_step [OF _ n(1,2), of ?m out] set_id_eq [OF wf(1) assms(4)] c(2) wf(3) by auto
    show ?thesis
    proof (cases "has_elem t out")
      case True
      then show ?thesis
        using result_fail_step [OF wf(1) rest(1), of out ErrSdIDDuplicated ?m out] step m wf
        unfolding spec by (simp add: closes_def)
    next
      case new: False
      have m2: "result m out = result ?m2 ?out" "wf_ptr ?m2" "rest ?m2 = x" "m_p ?m2 = m_p m + n + 1"
        using m result_Cons [OF wf(1) rest(1), of out ?m2 ?out] step new wf rest by auto
      have e: "elem_in t ?out"
        using assms(4) by simp
      have "closes ?m2 ?out t (spec_elem (m_currentelem m) (m_p m) (rest m) out)"
      proof (cases "c = 32")
        case True
        have "last_param ?m2 None ?out"
          using assms(4) by (auto simp: last_param_def add_elem_def)
        then show ?thesis
          using params_sim [of ?m2 ?out None] m2 e True new c rest unfolding spec by simp
      next
        case False
        then show ?thesis
          using m2 e new c rest unfolding spec
          by (auto simp: closes_def intro!: exI [of _ ?m2])
      qed
      then show ?thesis
        by (intro closes_from [OF m2(1)]) (auto simp: same_opts_def)
    qed
  qed
qed


lemma closes_elem:
  assumes "closes m out e s"
  shows "(\<exists>err out'. s = Inl (err, out') \<and>
            result m out = Some (fail_result (m_bestEffort m) err out')) \<or>
         (\<exists>m' out'. s = Inr (m_p m', rest m', out') \<and> m_cs m' = 606 \<and> wf_ptr m' \<and> m_p m \<le> m_p m' \<and>
            m_currentelem m' = e \<and> same_opts m m' \<and> elem_in e out' \<and> result m out = result m' out')"
  using assms by (cases s) (auto simp: closes_def)

lemma sim_from:
  assumes "result m out = result m1 out1" "same_opts m m1" "m_p m \<le> m_p m1" "sim m1 out1 c s"
  shows "sim m out c s"
  using assms unfolding sim_def same_opts_def
  by (auto split: sum.splits prod.splits intro: order_trans)

lemma elems_sim:
  "wf_ptr m \<Longrightarrow> m_cs m = 17 \<Longrightarrow> structuredData out \<noteq> None \<Longrightarrow>
    sim m out 604 (spec_elems (m_currentelem m) (m_p m) (rest m) out)"
proof (induction "length (rest m)" arbitrary: m out rule: less_induct)
  case less
  let ?t = "take 32 (takeWhile is_sdname (rest m))"
  note unfold = spec_elems.simps [of "m_currentelem m" "m_p m" "rest m" out]
  from closes_elem [OF elem_sim [OF less.prems]] show ?case
  proof (elim disjE exE conjE)
    fix err out'
    assume "spec_elem (m_currentelem m) (m_p m) (rest m) out = Inl (err, out')"
      "result m out = Some (fail_result (m_bestEffort m) err out')"
    then show ?thesis by (simp add: unfold)
  next
    fix m' out'
    assume spec: "spec_elem (m_currentelem m) (m_p m) (rest m) out = Inr (m_p m', rest m', out')"
      and m': "m_cs m' = 606" "wf_ptr m'" "m_p m \<le> m_p m'" "m_currentelem m' = ?t"
        "same_opts m m'" "elem_in ?t out'" "result m out = result m' out'"
    have "sim m' out' 604 (spec_elems (m_currentelem m) (m_p m) (rest m) out)"
    proof (cases "rest m'")
      case Nil
      then show ?thesis
        using sim_end [OF m'(2) _ Nil, of out'] m'(1) spec by (simp add: unfold)
    next
      case (Cons b r)
      consider (sp) "b = 32" | (elem) "b = 91" | (bad) "b \<noteq> 32" "b \<noteq> 91" by auto
      then show ?thesis
      proof cases
        case sp
        have "result m' out' = result (goto_st 604 m') out'"
          using m' sp
          by (intro result_Cons [OF m'(2) Cons]) (auto simp: step_dispatch_sdid step_sdid_def)
        then show ?thesis
          using m' sp spec Cons
          by (auto simp: unfold same_opts_def intro!: sim_Inr [of "goto_st 604 m'"])
      next
        case elem
        let ?m = "goto_st 17 m'"
        have "result m' out' = result ?m out'"
          using m' elem
          by (intro result_Cons [OF m'(2) Cons]) (auto simp: step_dispatch_sdid step_sdid_def)
        moreover have "length (rest ?m) < length (rest m)"
          using spec_elem_shorter [OF spec] Cons by simp
        then have "sim ?m out' 604 (spec_elems (m_currentelem ?m) (m_p ?m) (rest ?m) out')"
          using less.hyps [of ?m out'] m' Cons elem_in_sd by simp
        ultimately show ?thesis
          using elem spec Cons m'(4) by (intro sim_from [of m' out' ?m out']) (auto simp: unfold same_opts_def)
      next
        case bad
        then have "step b m' out' = fail_with ErrStructuredData m' out'"
          using m'(1) by (simp add: step_dispatch_sdid step_sdid_def)
        from result_fail_step [OF m'(2) Cons this] bad spec Cons show ?thesis
          by (simp add: unfold)
      qed
    qed
    then show ?thesis
      by (intro sim_from [OF m'(7,5,3)])
  qed
qed

text \<open>Before the first element nothing is there to delete, whatever the current element was.\<close>

lemma del_elem_empty: "del_elem e (ini_elements out) = del_elem [] (ini_elements out)"
  by (simp add: del_elem_def ini_elements_def)

lemma spec_elems_first: "spec_elems e col r (ini_elements out) = spec_elems [] col r (ini_elements out)"
proof -
  have "spec_elem e col r (ini_elements out) = spec_elem [] col r (ini_elements out)"
    by (simp add: spec_elem_def Let_def del_elem_empty [of e])
  then show ?thesis
    by (simp add: spec_elems.simps [of e] spec_elems.simps [of "[]"])
qed

lemma sd_sim:
  assumes "wf_ptr m" "m_cs m = 16"
  shows "sim m out 604 (spec_sd (m_p m) (rest m) out)"
proof (cases "rest m = [] \<or> hd (rest m) \<noteq> 45 \<and> hd (rest m) \<noteq> 91")
  case True
  have "result m out = Some (fail_result (m_bestEffort m) (ErrStructuredData, m_p m) out)"
    using assms True
    by (intro sim_fail)
      (auto simp: eof_actions_def eof_header_def step_dispatch_sdid step_sdid_def)
  with True show ?thesis
    by (cases "rest m") (simp_all add: spec_sd_def)
next
  case False
  then obtain a r where r: "rest m = a # r" "a = 45 \<or> a = 91" by (cases "rest m") auto
  show ?thesis
  proof (cases "a = 91")
    case True
    let ?m = "goto_st 17 m"
    have st: "step a m out = Next ?m (ini_elements out)"
      using True assms by (simp add: step_dispatch_sdid step_sdid_def)
    have "sim ?m (ini_elements out) 604
        (spec_elems (m_currentelem ?m) (m_p ?m) (rest ?m) (ini_elements out))"
      using assms r by (intro elems_sim) (auto simp: ini_elements_def)
    then show ?thesis
      using assms r True spec_elems_first [of "m_currentelem m"]
      by (intro sim_step [OF assms(1) r(1) st]) (auto simp: spec_sd_def same_opts_def)
  next
    case False
    with r have a: "a = 45" by simp
    let ?m = "goto_st 603 m"
    have st: "step a m out = Next ?m out"
      using a assms by (simp add: step_dispatch_sdid step_sdid_def)
    have dispatch: "step b ?m out = step_msg 603 b ?m out" for b
      by (simp add: step_def)
    have wf: "wf_ptr ?m" "rest ?m = r"
      using assms r by simp_all
    have "sim ?m out 604 (spec_sd (m_p m) (rest m) out)"
    proof (cases r)
      case Nil
      then show ?thesis
        using sim_end [OF wf(1), of out] wf r a by (simp add: spec_sd_def)
    next
      case (Cons b r2)
      then have rest: "rest ?m = b # r2" using wf by simp
      show ?thesis
      proof (cases "b = 32")
        case True
        have "result ?m out = result (goto_st 604 ?m) out"
          using True by (intro result_Cons [OF wf(1) rest]) (simp add: dispatch step_msg_def)
        then show ?thesis
          using wf(1) rest True Cons r a
          by (auto simp: spec_sd_def same_opts_def intro!: sim_Inr [of "goto_st 604 ?m"])
      next
        case False
        then have "step b ?m out = fail_with ErrParse ?m out"
          by (simp add: dispatch step_msg_def)
        from result_fail_step [OF wf(1) rest this] False Cons r a show ?thesis
          by (simp add: spec_sd_def)
      qed
    qed
    then show ?thesis
      by (intro sim_step [OF assms(1) r(1) st]) (auto simp: same_opts_def)
  qed
qed

end
