(* ===== verification/RFC5424_Correct.thy ===== *)
theory RFC5424_Correct
  imports RFC5424_SD
begin

text \<open>
  The simulation for MSG, and the main theorem: \<open>Parse\<close> computes the reference parser.
\<close>

section \<open>Message\<close>

lemma step_dispatch_msg:
  "603 \<le> m_cs m \<Longrightarrow> m_cs m \<le> 613 \<Longrightarrow> m_cs m \<noteq> 606 \<Longrightarrow> step b m out = step_msg (m_cs m) b m out"
  "596 \<le> m_cs m \<Longrightarrow> m_cs m \<le> 602 \<Longrightarrow> step b m out = step_msg (m_cs m) b m out"
  by (auto simp: step_def)

lemma eof_msg:
  assumes "wf_ptr m" "m_cs m \<in> {608, 610, 611, 612, 613}" "rest m = []"
  shows "result m out = Some (Some (export (set_msg (marked m) out)), None)"
proof -
  have "eof_actions m out = Out m (set_msg (marked m) out)"
    using assms by (auto simp: eof_actions_def eof_header_def eof_message_def)
  with assms show ?thesis
    by (auto simp: result_Nil finish_def parse_result_def firstFinal_def enFail_def)
qed

lemma any_sim:
  "wf_ptr m \<Longrightarrow> m_cs m = 608 \<or> m_cs m = 610 \<Longrightarrow>
    result m out = Some (Some (export (set_msg (marked m @ rest m) out)), None)"
proof (induction "rest m" arbitrary: m)
  case Nil
  then show ?case using eof_msg [of m out] by auto
next
  case (Cons b r)
  note r = Cons.hyps(2) [symmetric]
  let ?m = "goto_st (m_cs m) m"
  have "result m out = result ?m out"
    using Cons.prems by (intro result_Cons [OF _ r]) (auto simp: step_dispatch_msg step_msg_def)
  with Cons.hyps(1) [of ?m] Cons.prems r show ?case by auto
qed

text \<open>A violation of UTF-8 keeps the message up to it.\<close>

definition in_msg :: "machine \<Rightarrow> bool" where
  "in_msg m \<longleftrightarrow> wf_ptr m \<and> m_msgat m = m_pb m \<and> 0 < m_msgat m \<and> m_compliantMsg m"

lemma err_msg_eq:
  "in_msg m \<Longrightarrow> err_msg m out = fail_with ErrMsgNotCompliant m (set_msg (marked m) out)"
  using m_text_marked [of m] by (simp add: err_msg_def in_msg_def m_text_def)

lemma in_msg_moved: "in_msg m \<Longrightarrow> n \<le> length (rest m) \<Longrightarrow> in_msg (moved cs n m)"
  by (simp add: in_msg_def)

lemma in_msg_wf: "in_msg m \<Longrightarrow> wf_ptr m"
  by (simp add: in_msg_def)

lemma seq_msg_sim:
  "in_msg m \<Longrightarrow> m_cs m = 596 + i \<Longrightarrow> i \<le> 6 \<Longrightarrow>
    (case seq_scan i (rest m) of (k, ok) \<Rightarrow>
       if ok then result m out = result (moved 613 k m) out
       else result m out = Some (fail_result (m_bestEffort m) (ErrMsgNotCompliant, m_p m + k)
              (set_msg (marked m @ take k (rest m)) out)))"
proof (induction "rest m" arbitrary: m i)
  case Nil
  have "eof_actions m out = err_msg m out"
    using Nil.prems by (simp add: eof_actions_def eof_header_def eof_message_def)
  then show ?case
    using Nil.prems Nil(1)
    by (simp add: err_msg_eq in_msg_wf result_fail_eof flip: Nil(1))
next
  case (Cons b r)
  note r = Cons.hyps(2) [symmetric]
  have step: "step b m out =
      (case utf8_cont i b of
         Some None \<Rightarrow> Next (goto_st 613 m) out
       | Some (Some j) \<Rightarrow> Next (goto_st (596 + j) m) out
       | None \<Rightarrow> err_msg m out)"
    using Cons.prems by (subst step_dispatch_msg(2)) (auto simp: step_msg_def)
  consider (bad) "utf8_cont i b = None" | (last) "utf8_cont i b = Some None"
    | (more) j where "utf8_cont i b = Some (Some j)"
    by (cases "utf8_cont i b"; cases "the (utf8_cont i b)") auto
  then show ?case
  proof cases
    case bad
    then show ?thesis
      using step result_fail_step [OF in_msg_wf [OF Cons.prems(1)] r, of out ErrMsgNotCompliant m] r
        Cons.prems(1)
      by (simp add: err_msg_eq)
  next
    case last
    then have "result m out = result (goto_st 613 m) out"
      using step Cons.prems by (intro result_Cons [OF _ r]) (auto simp: in_msg_wf)
    with last r show ?thesis by (simp add: goto_moved)
  next
    case more
    let ?m = "goto_st (596 + j) m"
    have "j \<le> 6"
      using more by (auto simp: utf8_cont_def split: if_splits)
    moreover have "result m out = result ?m out"
      using more step Cons.prems by (intro result_Cons [OF _ r]) (auto simp: in_msg_wf)
    moreover have "in_msg ?m" "marked ?m = marked m @ [b]"
      using Cons.prems(1) r by (simp_all add: in_msg_def)
    ultimately show ?thesis
      using Cons.hyps(1) [of ?m j] Cons.prems r more
      by (auto simp: moved_goto split: prod.splits if_splits)
  qed
qed

lemma utf8_sim:
  "in_msg m \<Longrightarrow> m_cs m = 613 \<Longrightarrow>
    result m out = Some
      (case msg_scan (rest m) of (k, ok) \<Rightarrow>
         if ok then (Some (export (set_msg (marked m @ rest m) out)), None)
         else fail_result (m_bestEffort m) (ErrMsgNotCompliant, m_p m + k)
                (set_msg (marked m @ take k (rest m)) out))"
proof (induction "length (rest m)" arbitrary: m rule: less_induct)
  case less
  note wf = in_msg_wf [OF less.prems(1)]
  show ?case
  proof (cases "rest m")
    case Nil
    with eof_msg [OF wf _ Nil, of out] less.prems(2) show ?thesis
      by (simp add: msg_scan.simps)
  next
    case (Cons b r)
    have step: "step b m out =
        (if b < 128 then Next (goto_st 613 m) out
         else (case utf8_lead b of
                 Some i \<Rightarrow> Next (goto_st (596 + i) m) out
               | None \<Rightarrow> err_msg m out))"
      using less.prems(2) by (subst step_dispatch_msg(1)) (auto simp: step_msg_def)
    consider (ascii) "b < 128" | (bad) "\<not> b < 128" "utf8_lead b = None"
      | (lead) i where "\<not> b < 128" "utf8_lead b = Some i"
      by (cases "utf8_lead b") auto
    then show ?thesis
    proof cases
      case ascii
      let ?m = "goto_st 613 m"
      have "result m out = result ?m out"
        using step ascii by (intro result_Cons [OF wf Cons]) auto
      moreover have "in_msg ?m" "rest ?m = r" "marked ?m = marked m @ [b]"
        using less.prems(1) Cons by (simp_all add: in_msg_def)
      ultimately show ?thesis
        using less.hyps [of ?m] Cons ascii
        by (simp add: msg_scan.simps [of "b # r"] split: prod.split)
    next
      case bad
      then have "step b m out = fail_with ErrMsgNotCompliant m (set_msg (marked m) out)"
        using step less.prems(1) by (simp add: err_msg_eq)
      from result_fail_step [OF wf Cons this] bad Cons show ?thesis
        by (simp add: msg_scan.simps [of "b # r"])
    next
      case lead
      let ?m = "goto_st (596 + i) m"
      have m: "result m out = result ?m out"
        using step lead by (intro result_Cons [OF wf Cons]) auto
      have i: "i \<le> 6"
        using lead(2) by (auto simp: utf8_lead_def split: if_splits)
      have m': "in_msg ?m" "rest ?m = r" "marked ?m = marked m @ [b]"
        using less.prems(1) Cons by (simp_all add: in_msg_def)
      obtain n ok where n: "seq_scan i r = (n, ok)" by fastforce
      show ?thesis
      proof (cases ok)
        case False
        then show ?thesis
          using seq_msg_sim [OF m'(1) _ i, of out] m m' n lead Cons
          by (simp add: msg_scan.simps [of "b # r"])
      next
        case True
        let ?m2 = "moved 613 n ?m"
        have len: "n \<le> length r"
          using seq_scan_len [OF n] .
        have m2: "in_msg ?m2" "rest ?m2 = drop n r" "marked ?m2 = marked m @ b # take n r"
          using m' len by (simp_all add: in_msg_moved in_msg_wf)
        have "result m out = result ?m2 out"
          using seq_msg_sim [OF m'(1) _ i, of out] m m' n True by simp
        then show ?thesis
          using less.hyps [of ?m2] m2 n True lead Cons len
          by (simp add: msg_scan.simps [of "b # r"] take_add add.assoc split: prod.split)
      qed
    qed
  qed
qed


text \<open>The result of MSG, as an outcome of the whole run.\<close>

definition accept :: "bool \<Rightarrow> (perror \<times> syslogMessage) + syslogMessage \<Rightarrow>
    SyslogMessage option \<times> perror option" where
  "accept be s =
     (case s of Inl (e, out) \<Rightarrow> fail_result be e out | Inr out \<Rightarrow> (Some (export out), None))"

lemma plain_sim:
  assumes "wf_ptr m" "m_cs m \<in> {611, 612}" "m_cs m = 611 \<Longrightarrow> rest m = [] \<or> hd (rest m) \<noteq> 187"
    "m_cs m = 612 \<Longrightarrow> rest m = [] \<or> hd (rest m) \<noteq> 191"
  shows "result m out = Some (Some (export (set_msg (marked m @ rest m) out)), None)"
proof (cases "rest m")
  case Nil
  with assms eof_msg [of m out] show ?thesis by auto
next
  case (Cons b r)
  have "result m out = result (goto_st 610 m) out"
    using assms Cons
    by (intro result_Cons [OF assms(1) Cons]) (auto simp: step_dispatch_msg(1) step_msg_def)
  with any_sim [of "goto_st 610 m" out] assms Cons show ?thesis by simp
qed

lemma bom_sim:
  assumes "wf_ptr m" "m_cs m = 609" "rest m = b # r" "0 < m_p m" "m_compliantMsg m"
  shows "result m out = Some (accept (m_bestEffort m) (spec_msg True (m_p m) (rest m) out))"
proof -
  let ?s = "m\<lparr>m_pb := m_p m, m_msgat := m_p m\<rparr>"
  have s: "wf_ptr ?s" "rest ?s = b # r" "marked ?s = []"
    using assms by (simp_all add: wf_ptr_def rest_def marked_def)
  let ?c = "if b = 239 then 611 else 610"
  have m: "result m out = result (goto_st ?c ?s) out"
    using assms by (intro result_Cons [OF assms(1,3)]) (auto simp: step_dispatch_msg(1) step_msg_def)
  show ?thesis
  proof (cases "take 3 (rest m) = [239, 187, 191]")
    case False
    have "result (goto_st ?c ?s) out = Some (Some (export (set_msg (b # r) out)), None)"
    proof (cases "b = 239")
      case b: True
      let ?m1 = "goto_st 611 ?s"
      have m1: "wf_ptr ?m1" "rest ?m1 = r" "marked ?m1 = [b]"
        using s by simp_all
      show ?thesis
      proof (cases "r \<noteq> [] \<and> hd r = 187")
        case True
        then obtain r2 where r2: "r = 187 # r2" by (cases r) auto
        let ?m2 = "goto_st 612 ?m1"
        have m2: "wf_ptr ?m2" "rest ?m2 = r2" "marked ?m2 = [b, 187]"
          using m1 r2 by simp_all
        have "result ?m1 out = result ?m2 out"
          using m1 r2
          by (intro result_Cons [of ?m1 187 r2]) (auto simp: step_dispatch_msg(1) step_msg_def)
        moreover have "r2 = [] \<or> hd r2 \<noteq> 191"
          using False assms(3) b r2 by (cases r2) auto
        ultimately show ?thesis
          using plain_sim [of ?m2 out] m2 b r2 by simp
      next
        case False
        then show ?thesis
          using plain_sim [of ?m1 out] m1 b by auto
      qed
    next
      case False
      then show ?thesis
        using any_sim [of "goto_st 610 ?s" out] s by simp
    qed
    with False m assms(3) show ?thesis
      by (auto simp: spec_msg_def accept_def)
  next
    case True
    then obtain r3 where r3: "b = 239" "r = 187 # 191 # r3"
      using assms(3) by (cases r; cases "tl r") auto
    let ?m1 = "goto_st 611 ?s" and ?m2 = "goto_st 612 (goto_st 611 ?s)"
      and ?m3 = "goto_st 613 (goto_st 612 (goto_st 611 ?s))"
    have m1: "wf_ptr ?m1" "rest ?m1 = 187 # 191 # r3"
      using s r3 by simp_all
    have m2: "wf_ptr ?m2" "rest ?m2 = 191 # r3"
      using m1 by simp_all
    have m3: "in_msg ?m3" "rest ?m3 = r3" "marked ?m3 = [239, 187, 191]" "m_p ?m3 = m_p m + 3"
      using m1 m2 s r3 assms(4,5) by (simp_all add: in_msg_def)
    have "result ?m1 out = result ?m2 out"
      by (intro result_Cons [OF m1]) (auto simp: step_dispatch_msg(1) step_msg_def)
    moreover have "result ?m2 out = result ?m3 out"
      by (intro result_Cons [OF m2]) (auto simp: step_dispatch_msg(1) step_msg_def)
    ultimately show ?thesis
      using utf8_sim [OF m3(1), of out] m3 m r3 assms(3)
      by (simp add: spec_msg_def accept_def numeral_3_eq_3 split: prod.split)
  qed
qed

lemma msg_sim:
  assumes "wf_ptr m" "m_cs m = 604" "0 < m_p m"
  shows "result m out =
    Some (accept (m_bestEffort m) (spec_msg (m_compliantMsg m) (m_p m) (rest m) out))"
proof (cases "rest m")
  case Nil
  with assms show ?thesis
    by (simp add: result_end spec_msg_def accept_def)
next
  case (Cons b r)
  let ?m = "m\<lparr>m_cs := if m_compliantMsg m then 609 else 607\<rparr>"
  have m: "wf_ptr ?m" "rest ?m = b # r"
    using assms Cons by (simp_all add: wf_ptr_def rest_def)
  have "result m out = result ?m out"
    using assms
    by (intro result_Cons [OF assms(1) Cons])
      (auto simp: step_dispatch_msg(1) step_msg_def enMsgCompliant_def enMsgAny_def)
  also have "\<dots> = Some (accept (m_bestEffort m) (spec_msg (m_compliantMsg m) (m_p m) (b # r) out))"
  proof (cases "m_compliantMsg m")
    case True
    then show ?thesis
      using bom_sim [OF m(1) _ m(2), of out] m assms(3) by simp
  next
    case False
    let ?s = "goto_st 608 (?m\<lparr>m_pb := m_p m, m_msgat := m_p m\<rparr>)"
    have s: "wf_ptr ?s" "rest ?s = r" "marked ?s = [b]"
    proof -
      let ?t = "?m\<lparr>m_pb := m_p m, m_msgat := m_p m\<rparr>"
      have "wf_ptr ?t" "rest ?t = b # r" "marked ?t = []"
        using m by (simp_all add: wf_ptr_def rest_def marked_def)
      then show "wf_ptr ?s" "rest ?s = r" "marked ?s = [b]"
        by simp_all
    qed
    have "result ?m out = result ?s out"
      using False by (intro result_Cons [OF m]) (auto simp: step_dispatch_msg(1) step_msg_def)
    with any_sim [OF s(1)] s False show ?thesis
      by (simp add: spec_msg_def accept_def)
  qed
  finally show ?thesis using Cons by simp
qed

section \<open>The whole parser\<close>

lemma sim_result:
  assumes "sim m out 604 s" "\<And>c r o'. s = Inr (c, r, o') \<Longrightarrow> 0 < c"
  shows "result m out = Some
    (case s of
       Inl (e, out') \<Rightarrow> fail_result (m_bestEffort m) e out'
     | Inr (c, r, out') \<Rightarrow> accept (m_bestEffort m) (spec_msg (m_compliantMsg m) c r out'))"
proof (cases s)
  case (Inl x)
  with assms(1) show ?thesis by (cases x) simp
next
  case (Inr x)
  then obtain c r o' where x: "s = Inr (c, r, o')" by (cases x) auto
  from assms(1) x obtain m' where m': "wf_ptr m'" "m_cs m' = 604" "m_p m' = c" "rest m' = r"
    "same_opts m m'" "result m out = result m' o'"
    by (auto simp: sim_def)
  have "0 < m_p m'" using assms(2) x m'(3) by simp
  from msg_sim [OF m'(1,2) this, of o'] show ?thesis
    using m' x by (auto simp: same_opts_def)
qed

lemma body_sim:
  assumes "wf_ptr m" "m_cs m = 4"
  shows "sim m out 604 (andThen (spec_header (m_p m) (rest m) out) spec_sd)"
  using header_sim [OF assms] by (rule sim_andThen) (rule sd_sim, assumption, assumption)

text \<open>Columns grow.\<close>

definition grows :: "nat \<Rightarrow> stage \<Rightarrow> bool" where
  "grows col s = (\<forall>c r out. s = Inr (c, r, out) \<longrightarrow> col < c)"

lemma andThen_Inr:
  "andThen s k = Inr (c, r, out) \<Longrightarrow> \<exists>c1 r1 out1. s = Inr (c1, r1, out1) \<and> k c1 r1 out1 = Inr (c, r, out)"
  by (cases s) auto

lemma grows_version: "grows col (spec_version col r out)"
  by (auto simp: grows_def spec_version_def Let_def split: list.splits if_splits)

lemma sim_grows: "sim m out c s \<Longrightarrow> s = Inr (c', r, out') \<Longrightarrow> m_p m \<le> c'"
  by (auto simp: sim_def)

lemma sim_obtain:
  assumes "sim m out cs (Inr (c, r, out'))"
  obtains m' where "wf_ptr m'" "m_cs m' = cs" "m_p m' = c" "rest m' = r" "m_p m \<le> c"
  using assms by (auto simp: sim_def)

lemma body_grows:
  assumes "wf_ptr m" "m_cs m = 4"
    and "andThen (spec_header (m_p m) (rest m) out) spec_sd = Inr (c, r, out')"
  shows "m_p m < c"
proof -
  from andThen_Inr [OF assms(3)] obtain c1 r1 o1 where h: "spec_header (m_p m) (rest m) out = Inr (c1, r1, o1)"
    and sd: "spec_sd c1 r1 o1 = Inr (c, r, out')" by blast
  from header_sim [OF assms(1,2), of out, unfolded h] obtain m16 where
    m16: "wf_ptr m16" "m_cs m16 = 16" "m_p m16 = c1" "rest m16 = r1"
    by (rule sim_obtain)
  have "c1 \<le> c"
    using sim_grows [OF sd_sim [OF m16(1,2), of o1]] m16(3,4) sd by simp
  moreover obtain c0 r0 o0 where v: "spec_version (m_p m) (rest m) out = Inr (c0, r0, o0)"
    and t: "andThen (spec_timestamp c0 r0 o0) (\<lambda>col r out.
     andThen (spec_field 255 ErrHostname (\<lambda>t out. out\<lparr>hostname := t\<rparr>) col r out) (\<lambda>col r out.
     andThen (spec_field 48 ErrAppname (\<lambda>t out. out\<lparr>appname := t\<rparr>) col r out) (\<lambda>col r out.
     andThen (spec_field 128 ErrProcID (\<lambda>t out. out\<lparr>procID := t\<rparr>) col r out)
       (spec_field 32 ErrMsgID (\<lambda>t out. out\<lparr>msgID := t\<rparr>))))) = Inr (c1, r1, o1)"
    using andThen_Inr [OF h [unfolded spec_header_def]] by blast
  from version_sim [OF assms(1,2), of out, unfolded v] obtain m6 where
    m6: "wf_ptr m6" "m_cs m6 = 6" "m_p m6 = c0" "rest m6 = r0"
    by (rule sim_obtain)
  have "c0 \<le> c1"
  proof -
    have "sim m6 o0 16 (andThen (spec_timestamp (m_p m6) (rest m6) o0) (\<lambda>col r out.
     andThen (spec_field 255 ErrHostname (\<lambda>t out. out\<lparr>hostname := t\<rparr>) col r out) (\<lambda>col r out.
     andThen (spec_field 48 ErrAppname (\<lambda>t out. out\<lparr>appname := t\<rparr>) col r out) (\<lambda>col r out.
     andThen (spec_field 128 ErrProcID (\<lambda>t out. out\<lparr>procID := t\<rparr>) col r out)
       (spec_field 32 ErrMsgID (\<lambda>t out. out\<lparr>msgID := t\<rparr>))))))"
      by (rule sim_andThen, rule timestamp_sim, fact, fact,
        rule sim_andThen, rule hostname_field.field_sim, assumption, assumption,
        rule sim_andThen, rule appname_field.field_sim, assumption, assumption,
        rule sim_andThen, rule procid_field.field_sim, assumption, assumption,
        rule msgid_field.field_sim, assumption, assumption)
    from sim_grows [OF this] m6(3,4) t show ?thesis by simp
  qed
  moreover have "m_p m < c0"
    using grows_version [of "m_p m" "rest m" out] v by (simp add: grows_def)
  ultimately show ?thesis by simp
qed

text \<open>\<open>Parse\<close> on the machine is the reference parser, whatever the machine was used for before.\<close>

lemma Parse_result:
  "map_option snd (Parse m input) =
    result (init_parse input m) (syslogMessage_init (m_optionalPriority m))"
  by (cases "run (init_parse input m) (syslogMessage_init (m_optionalPriority m))")
    (auto simp: Parse_def result_def case_prod_beta)

lemma init_parse_view [simp]:
  "wf_ptr (init_parse input m)" "m_p (init_parse input m) = 0" "rest (init_parse input m) = input"
  "m_bestEffort (init_parse input m) = m_bestEffort m"
  "m_compliantMsg (init_parse input m) = m_compliantMsg m"
  by (simp_all add: init_parse_def wf_ptr_def rest_def)

lemma Parse_is_spec:
  "map_option snd (Parse m input) =
    Some (spec_parse (m_bestEffort m) (m_compliantMsg m) (m_optionalPriority m) input)"
proof -
  let ?m = "init_parse input m" and ?init = "syslogMessage_init (m_optionalPriority m)"
  let ?body = "\<lambda>col r out. andThen (spec_header col r out) spec_sd"
  let ?opt = "m_optionalPriority m \<and> \<not> (input \<noteq> [] \<and> hd input = 60)"
  let ?s = "if ?opt then ?body 0 input ?init else andThen (spec_pri 0 input ?init) ?body"
  have hd: "input \<noteq> [] \<Longrightarrow> input ! 0 = hd input"
    by (simp add: hd_conv_nth)
  have "sim ?m ?init 604 ?s \<and> (\<forall>c r o'. ?s = Inr (c, r, o') \<longrightarrow> 0 < c)"
  proof (cases ?opt)
    case True
    then have "m_cs ?m = 4"
      using hd by (auto simp: init_parse_def enMainMessageBody_def)
    with body_sim [of ?m ?init] body_grows [of ?m ?init] True show ?thesis
      by auto
  next
    case False
    then have cs: "m_cs ?m = 1"
      using hd by (auto simp: init_parse_def start_def)
    have v: "version ?init = 0"
      by (simp add: syslogMessage_init_def)
    have pri: "sim ?m ?init 4 (spec_pri 0 input ?init)"
      using pri_sim [of ?m ?init] cs v by simp
    have "sim ?m ?init 604 (andThen (spec_pri 0 input ?init) ?body)"
      by (rule sim_andThen [OF pri]) (rule body_sim, assumption, assumption)
    moreover have "0 < c" if "andThen (spec_pri 0 input ?init) ?body = Inr (c, r, o')" for c r o'
    proof -
      from andThen_Inr [OF that] obtain c1 r1 o1 where
        p: "spec_pri 0 input ?init = Inr (c1, r1, o1)" "?body c1 r1 o1 = Inr (c, r, o')" by blast
      from pri [unfolded p(1)] obtain m' where "wf_ptr m'" "m_cs m' = 4" "m_p m' = c1" "rest m' = r1"
        by (rule sim_obtain)
      with body_grows [of m' o1 c r o'] p(2) show ?thesis by simp
    qed
    ultimately show ?thesis using False by auto
  qed
  then have sim: "sim ?m ?init 604 ?s" and pos: "\<And>c r o'. ?s = Inr (c, r, o') \<Longrightarrow> 0 < c"
    by blast+
  have "result ?m ?init = Some
    (case ?s of
       Inl (e, out') \<Rightarrow> fail_result (m_bestEffort m) e out'
     | Inr (c, r, out') \<Rightarrow> accept (m_bestEffort m) (spec_msg (m_compliantMsg m) c r out'))"
    using sim_result [OF sim pos] unfolding init_parse_view .
  then show ?thesis
    unfolding Parse_result spec_parse_def Let_def accept_def
    by (simp split: sum.splits prod.splits)
qed

end
