(* ===== verification/RFC5424_Frame.thy ===== *)
theory RFC5424_Frame
  imports RFC5424_Correct
begin

text \<open>
  What a run leaves alone: the input and the options. And the column of an error lies in the input.
\<close>

definition kept :: "machine \<Rightarrow> machine \<Rightarrow> bool" where
  "kept m0 m \<longleftrightarrow>
     m_data m = m_data m0 \<and> m_bestEffort m = m_bestEffort m0 \<and>
     m_compliantMsg m = m_compliantMsg m0 \<and> m_optionalPriority m = m_optionalPriority m0 \<and>
     (case m_err m of None \<Rightarrow> True | Some (k, c) \<Rightarrow> c \<le> length (m_data m0))"

fun keeps :: "machine \<Rightarrow> outcome \<Rightarrow> bool" where
  "keeps m0 Panic = True"
| "keeps m0 (Out m out) = kept m0 m"
| "keeps m0 (Next m out) = kept m0 m"

named_theorems keeps_rules \<open>rules that take a step apart\<close>

lemma keeps_if [keeps_rules]: "keeps m0 x \<Longrightarrow> keeps m0 y \<Longrightarrow> keeps m0 (if c then x else y)"
  by simp

lemma keeps_option [keeps_rules]:
  "keeps m0 y \<Longrightarrow> (\<And>v. keeps m0 (f v)) \<Longrightarrow> keeps m0 (case x of None \<Rightarrow> y | Some v \<Rightarrow> f v)"
  by (cases x) simp_all

lemma keeps_Next [keeps_rules]: "kept m0 m \<Longrightarrow> keeps m0 (Next m out)"
  by simp

lemma keeps_Out [keeps_rules]: "kept m0 m \<Longrightarrow> keeps m0 (Out m out)"
  by simp

lemma kept_rules [keeps_rules]:
  "kept m0 m \<Longrightarrow> kept m0 (goto_st n m)" "kept m0 m \<Longrightarrow> kept m0 (mark m)"
  "kept m0 m \<Longrightarrow> kept m0 (ini_sdparam m)" "kept m0 m \<Longrightarrow> kept m0 (add_slash m)"
  "kept m0 m \<Longrightarrow> kept m0 (m\<lparr>m_cs := n\<rparr>)" "kept m0 m \<Longrightarrow> kept m0 (m\<lparr>m_currentelem := e\<rparr>)"
  "kept m0 m \<Longrightarrow> kept m0 (m\<lparr>m_currentparam := e\<rparr>)"
  "kept m0 m \<Longrightarrow> kept m0 (m\<lparr>m_pb := i, m_msgat := j\<rparr>)"
  by (simp_all add: kept_def ini_sdparam_def add_slash_def mark_def goto_st_def)

lemma keeps_fail [keeps_rules]:
  "kept m0 m \<Longrightarrow> m_p m \<le> length (m_data m0) \<Longrightarrow> keeps m0 (fail_with k m out)"
  by (simp add: kept_def fail_with_def)

lemma keeps_text [keeps_rules]: "(\<And>t. keeps m0 (k t)) \<Longrightarrow> keeps m0 (with_text m k)"
  by (simp add: with_text_def split: option.split)

lemma keeps_timestamp [keeps_rules]:
  "kept m0 m \<Longrightarrow> m_p m \<le> length (m_data m0) \<Longrightarrow> (\<And>out. keeps m0 (k out)) \<Longrightarrow>
    keeps m0 (set_timestamp m out k)"
  by (auto simp: set_timestamp_def intro!: keeps_text keeps_fail split: sum.splits)

lemma keeps_id [keeps_rules]:
  "kept m0 m \<Longrightarrow> m_p m \<le> length (m_data m0) \<Longrightarrow>
    (\<And>t out. keeps m0 (k (m\<lparr>m_currentelem := t\<rparr>) out)) \<Longrightarrow> keeps m0 (set_id m out k)"
  by (auto simp: set_id_def intro!: keeps_text keeps_fail split: option.splits)

lemma keeps_paramname [keeps_rules]:
  "(\<And>t. keeps m0 (k (m\<lparr>m_currentparam := t\<rparr>))) \<Longrightarrow> keeps m0 (set_paramname m k)"
  by (auto simp: set_paramname_def intro!: keeps_text)

lemma keeps_paramvalue [keeps_rules]:
  "(\<And>out. keeps m0 (k out)) \<Longrightarrow> keeps m0 (set_paramvalue m out k)"
  by (auto simp: set_paramvalue_def intro!: keeps_text split: option.splits)

lemma keeps_err [keeps_rules]:
  assumes "kept m0 m" "m_p m \<le> length (m_data m0)"
  shows "keeps m0 (err_sdid m out)" "keeps m0 (err_sdparam m out)" "keeps m0 (err_msg m out)"
  using assms
  by (auto simp: err_sdid_def err_sdparam_def err_msg_def Let_def intro!: keeps_fail
      split: option.splits)

lemma elem_len: "m_p m \<le> n \<Longrightarrow> m_p (m\<lparr>m_currentelem := t\<rparr>) \<le> n"
  by simp

lemma step_pri_keeps:
  assumes "kept m0 m" "m_p m \<le> length (m_data m0)"
  shows "keeps m0 (step_pri cs b m out)"
  unfolding step_pri_def Let_def by (intro keeps_rules assms)

lemma step_version_keeps:
  assumes "kept m0 m" "m_p m \<le> length (m_data m0)"
  shows "keeps m0 (step_version cs b m out)"
  unfolding step_version_def Let_def by (intro keeps_rules assms)

lemma step_timestamp_keeps:
  assumes "kept m0 m" "m_p m \<le> length (m_data m0)"
  shows "keeps m0 (step_timestamp cs b m out)"
  unfolding step_timestamp_def by (intro keeps_rules assms)

lemma step_field_keeps:
  assumes "kept m0 m" "m_p m \<le> length (m_data m0)"
  shows "keeps m0 (step_field f lo hi d e g cs b m out)"
  unfolding step_field_def by (intro keeps_rules assms)

lemma step_sdid_keeps:
  assumes "kept m0 m" "m_p m \<le> length (m_data m0)"
  shows "keeps m0 (step_sdid cs b m out)"
  unfolding step_sdid_def by (intro keeps_rules assms elem_len)

lemma step_sdname_keeps:
  assumes "kept m0 m" "m_p m \<le> length (m_data m0)"
  shows "keeps m0 (step_sdname cs b m out)"
  unfolding step_sdname_def by (intro keeps_rules assms)

lemma step_sdvalue_keeps:
  assumes "kept m0 m" "m_p m \<le> length (m_data m0)"
  shows "keeps m0 (step_sdvalue cs b m out)"
proof -
  have "kept m0 (if cs = 53 then mark m else m)"
    using assms by (simp add: kept_rules)
  then show ?thesis
    unfolding step_sdvalue_def Let_def by (intro keeps_rules assms)
qed

lemma step_msg_keeps:
  assumes "kept m0 m" "m_p m \<le> length (m_data m0)"
  shows "keeps m0 (step_msg cs b m out)"
  unfolding step_msg_def by (intro keeps_rules assms)

lemma step_fail_keeps: "kept m0 m \<Longrightarrow> keeps m0 (step_fail b m out)"
  unfolding step_fail_def by (intro keeps_rules)

lemma step_keeps:
  assumes "kept m0 m" "m_p m \<le> length (m_data m0)"
  shows "keeps m0 (step b m out)"
  unfolding step_def step_hostname_def step_appname_def step_procid_def step_msgid_def Let_def
  by (intro keeps_if step_pri_keeps step_version_keeps step_timestamp_keeps step_field_keeps
      step_sdid_keeps step_sdname_keeps step_sdvalue_keeps step_msg_keeps step_fail_keeps
      keeps_Out kept_rules(5) assms)

lemma eof_keeps:
  assumes "kept m0 m" "m_p m \<le> length (m_data m0)"
  shows "keeps m0 (eof_actions m out)"
proof -
  have msg: "keeps m0 (eof_message (m_cs m) m out)"
    unfolding eof_message_def Let_def
    by (intro keeps_if keeps_text keeps_Out keeps_err kept_rules(8) assms)
  have header: "keeps m0 (eof_header (m_cs m) m out)"
    unfolding eof_header_def
    by (intro keeps_if keeps_text keeps_timestamp keeps_fail msg assms)
  have id: "keeps m0 (set_id m out err_sdid)"
    by (intro keeps_id keeps_err kept_rules(6) elem_len assms)
  show ?thesis
    unfolding eof_actions_def Let_def
    by (intro keeps_if keeps_fail keeps_err id header assms)
qed

lemma run_keeps:
  "wf_ptr m \<Longrightarrow> sd_ok m out \<Longrightarrow> kept m0 m \<Longrightarrow> run m out = Some (m', out') \<Longrightarrow> kept m0 m'"
proof (induction m out arbitrary: m' out' rule: run.induct)
  case (1 m out)
  have len: "m_p m \<le> length (m_data m0)"
    using 1(2,4) by (simp add: wf_ptr_def kept_def)
  show ?case
  proof (cases "m_p m = m_pe m")
    case True
    with 1(2,5) eof_keeps [OF 1(4) len, of out] show ?thesis
      by (auto simp: run.simps [of m out] finish_def wf_ptr_def split: outcome.splits)
  next
    case False
    with 1(2) have p: "m_p m < length (m_data m)"
      by (auto simp: wf_ptr_def)
    let ?b = "m_data m ! m_p m"
    have s: "safe (step ?b m out)"
      using 1(2,3) p by (intro step_safe)
    have k: "keeps m0 (step ?b m out)"
      by (rule step_keeps [OF 1(4) len])
    show ?thesis
      using s k False p 1(1,5)
      by (cases "step ?b m out") (auto simp: run.simps [of m out] gindex_def)
  qed
qed

end
