(* ===== verification/RFC5424_Properties.thy ===== *)
theory RFC5424_Properties
  imports RFC5424_Frame
begin

text \<open>
  Theorems on \<open>Parse\<close> as a caller sees it, derived from the reference parser.
\<close>

section \<open>What a stage establishes\<close>

definition ensures :: "(syslogMessage \<Rightarrow> bool) \<Rightarrow> stage \<Rightarrow> bool" where
  "ensures P s = (case s of Inl _ \<Rightarrow> True | Inr (c, r, out) \<Rightarrow> P out)"

lemma ensures_simps [simp]: "ensures P (Inl e)" "ensures P (Inr (c, r, out)) = P out"
  by (simp_all add: ensures_def)

lemma ensures_andThen:
  "ensures P s \<Longrightarrow> (\<And>c r out. P out \<Longrightarrow> ensures Q (k c r out)) \<Longrightarrow> ensures Q (andThen s k)"
  by (cases s) auto

definition prio_ok :: "syslogMessage \<Rightarrow> bool" where
  "prio_ok sm = (if prioritySet sm then ValidPriority (priority sm) else priorityOptional sm)"

lemma minimal_iff: "minimal sm \<longleftrightarrow> ValidVersion (version sm) \<and> prio_ok sm"
  by (simp add: minimal_def prio_ok_def)

lemma minimal_update [simp]:
  "minimal (sm\<lparr>timestamp := t, timestampSet := True\<rparr>) = minimal sm"
  "minimal (sm\<lparr>hostname := x\<rparr>) = minimal sm" "minimal (sm\<lparr>appname := x\<rparr>) = minimal sm"
  "minimal (sm\<lparr>procID := x\<rparr>) = minimal sm" "minimal (sm\<lparr>msgID := x\<rparr>) = minimal sm"
  "minimal (sm\<lparr>structuredData := sd\<rparr>) = minimal sm"
  "minimal (sm\<lparr>structuredData := sd, hasElements := h\<rparr>) = minimal sm"
  "minimal (set_msg x sm) = minimal sm"
  by (simp_all add: minimal_def set_msg_def)

lemma prival_len_ok:
  assumes "prival_len r > 0"
  shows "prival_ok (take (prival_len r) r)"
proof -
  have pre: "takeWhile is_digit r = ds \<Longrightarrow> r = ds @ dropWhile is_digit r \<and> list_all is_digit ds" for ds
    using takeWhile_dropWhile_id [of is_digit r] set_takeWhileD [of _ is_digit r]
    by (auto simp: list_all_iff)
  have two: "dec_value [a, b] 0 \<le> 191" if "is_digit a" "is_digit b" for a b
    using that dec_value_bound [of "[a, b]"] by simp
  have one: "dec_value [a] 0 \<le> 191" if "is_digit a" for a
    using that dec_value_bound [of "[a]"] by simp
  show ?thesis
  proof (cases "takeWhile is_digit r" rule: list.exhaust)
    case Nil
    then show ?thesis using assms by (simp add: prival_len_def)
  next
    case (Cons a t)
    note r = pre [OF Cons]
    show ?thesis
    proof (cases t)
      case Nil
      then obtain x where rx: "r = a # x" and d: "is_digit a"
        using r Cons by auto
      show ?thesis
        using d Cons Nil one [of a] by (auto simp: prival_len_def prival_ok_def rx)
    next
      case t: (Cons b u)
      then obtain x where rx: "r = a # b # u @ x" and d: "is_digit a" "is_digit b" "list_all is_digit u"
        using r Cons by auto
      show ?thesis
        using d Cons t one [of a] two [of a b]
        by (cases u) (auto simp: prival_len_def prival_ok_def rx simp del: dec_value.simps)
    qed
  qed
qed

lemma prival_value:
  assumes "prival_ok ds"
  shows "unat (priority (set_prival ds out)) = dec_value ds 0" "prioritySet (set_prival ds out)"
proof -
  have "list_all is_digit ds" "dec_value ds 0 \<le> 191"
    using assms by (simp_all add: prival_ok_def)
  then show "unat (priority (set_prival ds out)) = dec_value ds 0"
    by (simp add: set_prival_def decimal_of_digits unsigned_ucast_eq unsigned_of_nat take_bit_nat_eq_self)
  show "prioritySet (set_prival ds out)"
    by (simp add: set_prival_def)
qed

lemma spec_pri_ok: "ensures prio_ok (spec_pri col r out)"
  using prival_len_ok prival_value
  by (auto simp: spec_pri_def Let_def prio_ok_def ValidPriority_iff prival_ok_def split: list.split)


lemma version_value:
  assumes "list_all is_digit ds" "length ds \<le> 3"
  shows "unat (version (set_version ds out)) = dec_value ds 0"
proof -
  have "dec_value ds 0 < 10 ^ length ds"
    using assms(1) by (rule dec_value_bound)
  also have "(10 :: nat) ^ length ds \<le> 10 ^ 3"
    using assms(2) by (intro power_increasing) auto
  finally show ?thesis
    using assms(1)
    by (simp add: set_version_def decimal_of_digits unsigned_ucast_eq unsigned_of_nat
        take_bit_nat_eq_self)
qed

lemma dec_value_mono: "acc \<le> dec_value ds acc"
  by (subst dec_value_acc) (simp add: trans_le_add1)

lemma version_digits_ok:
  assumes "list_all is_digit (b # ds)" "is_nonzero_digit b" "length ds \<le> 2"
  shows "ValidVersion (version (set_version (b # ds) out))"
proof -
  have "dec_value (b # ds) 0 < 10 ^ length (b # ds)"
    using assms(1) by (rule dec_value_bound)
  also have "(10 :: nat) ^ length (b # ds) \<le> 10 ^ 3"
    using assms(3) by (intro power_increasing) auto
  moreover have "1 \<le> dec_value (b # ds) 0"
    using assms(2) dec_value_mono [of "unat b - 48" ds]
    by (auto simp: byte_class word_le_nat_alt)
  ultimately show ?thesis
    using version_value [OF assms(1), of out] assms(3) by (simp add: ValidVersion_iff)
qed

lemma prio_ok_version [simp]: "prio_ok (set_version ds out) = prio_ok out"
  by (simp add: prio_ok_def set_version_def)

lemma spec_version_ok: "prio_ok out \<Longrightarrow> ensures minimal (spec_version col r out)"
proof (cases r)
  case Nil
  then show ?thesis by (simp add: spec_version_def)
next
  case (Cons b r1)
  assume ok: "prio_ok out"
  define n where "n = min (length (takeWhile is_digit r)) 3"
  have n: "take n r = take 3 (takeWhile is_digit r)"
  proof -
    have "take (length (takeWhile is_digit r)) r = takeWhile is_digit r"
      by (simp flip: takeWhile_eq_take)
    then show ?thesis unfolding n_def by (metis min.commute take_take)
  qed
  note unfold = spec_version_def [of col r out, unfolded Let_def, folded n_def]
  show ?thesis
  proof (cases "is_nonzero_digit b")
    case True
    then have d: "is_digit b"
      by (auto simp: byte_class word_le_nat_alt)
    then obtain ds where ds: "take 3 (takeWhile is_digit r) = b # ds" "length ds \<le> 2"
      using Cons by simp
    have "list_all is_digit (b # ds)"
      unfolding ds(1) [symmetric] by (auto simp: list_all_iff dest: set_takeWhileD in_set_takeD)
    then have "minimal (set_version (take n r) out)"
      unfolding n ds(1) using version_digits_ok [of b ds out] True ds(2) ok
      by (simp add: minimal_iff)
    then show ?thesis
      unfolding unfold using Cons by (cases "drop n r") simp_all
  next
    case False
    then show ?thesis by (simp add: spec_version_def Cons)
  qed
qed

lemma spec_timestamp_ok: "minimal out \<Longrightarrow> ensures minimal (spec_timestamp col r out)"
  by (auto simp: spec_timestamp_def Let_def split: list.split prod.split bool.split sum.split)

lemma spec_field_ok:
  "minimal out \<Longrightarrow> (\<And>t out. minimal (setter t out) = minimal out) \<Longrightarrow>
    ensures minimal (spec_field mx e setter col r out)"
  by (auto simp: spec_field_def Let_def split: list.split)

lemma spec_header_ok: "prio_ok out \<Longrightarrow> ensures minimal (spec_header col r out)"
  unfolding spec_header_def
  by (intro ensures_andThen [where P = minimal] spec_version_ok spec_timestamp_ok spec_field_ok)
    simp_all

lemma spec_params_ok: "minimal out \<Longrightarrow> ensures minimal (spec_params e q col r out)"
proof (induction "length r" arbitrary: q col r out rule: less_induct)
  case less
  have put: "minimal (put_param e n v out) = minimal out" for n v
    by (auto simp: put_param_def split: option.split)
  from less.prems show ?case
    by (auto simp: spec_params.simps [of e q col r out] Let_def put dest!: spec_value_shorter
        intro!: less.hyps split: sum.split list.split)
qed

lemma spec_elem_ok: "minimal out \<Longrightarrow> ensures minimal (spec_elem e col r out)"
proof -
  have "minimal (add_elem t out) = minimal out" for t
    by (simp add: add_elem_def)
  then show "minimal out \<Longrightarrow> ?thesis"
    by (simp add: spec_elem_def Let_def spec_params_ok)
qed

lemma spec_elems_ok: "minimal out \<Longrightarrow> ensures minimal (spec_elems e col r out)"
proof (induction "length r" arbitrary: e col r out rule: less_induct)
  case less
  show ?case
  proof (cases "spec_elem e col r out")
    case (Inl x)
    then show ?thesis by (simp add: spec_elems.simps [of e col r out])
  next
    case (Inr x)
    then obtain c r1 o1 where x: "spec_elem e col r out = Inr (c, r1, o1)" by (cases x) auto
    have "minimal o1"
      using spec_elem_ok [OF less.prems, of e col r] x by simp
    then show ?thesis
      using less.hyps spec_elem_shorter [OF x]
      by (auto simp: spec_elems.simps [of e col r out] x split: list.split)
  qed
qed

lemma spec_sd_ok: "minimal out \<Longrightarrow> ensures minimal (spec_sd col r out)"
  by (auto simp: spec_sd_def ini_elements_def intro!: spec_elems_ok split: list.split)


section \<open>The caller's view\<close>

text \<open>
  C1: \<open>Parse\<close> computes the reference parser of RFC5424_Spec: on every input, with every
  combination of options and whatever the machine parsed before, the message and the error (its
  kind and column) are those that the recursive-descent reading of the grammar gives.
\<close>

theorem Parse_correct:
  "map_option snd (Parse m input) =
    Some (spec_parse (m_bestEffort m) (m_compliantMsg m) (m_optionalPriority m) input)"
  by (rule Parse_is_spec)

text \<open>A fresh machine with the options of another one.\<close>

definition fresh :: "machine \<Rightarrow> machine" where
  "fresh m = machine_zero\<lparr>m_bestEffort := m_bestEffort m, m_compliantMsg := m_compliantMsg m,
     m_optionalPriority := m_optionalPriority m\<rparr>"

text \<open>
  C10: A machine can be reused: \<open>Parse\<close> does not reset the current element and parameter, yet
  what it returns depends on the options and the input only, as for a fresh machine.
\<close>

theorem Parse_reuse: "map_option snd (Parse m input) = map_option snd (Parse (fresh m) input)"
  by (simp add: Parse_is_spec fresh_def)

lemma fail_result_cases:
  "fail_result be e out = (Some x, err) \<Longrightarrow> be \<and> SyslogMessage_Valid x \<and> err = Some e"
  "fail_result be e out = (None, err) \<Longrightarrow> err = Some e"
  by (auto simp: fail_result_def minimal_Valid split: if_splits)

definition outcome_ok :: "bool \<Rightarrow> SyslogMessage option \<times> perror option \<Rightarrow> bool" where
  "outcome_ok be res =
     (case res of
        (Some x, None) \<Rightarrow> SyslogMessage_Valid x
      | (Some x, Some e) \<Rightarrow> be \<and> SyslogMessage_Valid x
      | (None, Some e) \<Rightarrow> True
      | (None, None) \<Rightarrow> False)"

lemma outcome_fail: "outcome_ok be (fail_result be e out)"
  by (auto simp: outcome_ok_def fail_result_def minimal_Valid)

lemma outcome_stage:
  assumes "ensures minimal s"
  shows "outcome_ok be
    (case s of
       Inl (e, out) \<Rightarrow> fail_result be e out
     | Inr (col, r, out) \<Rightarrow>
         (case spec_msg compliant col r out of
            Inl (e, out') \<Rightarrow> fail_result be e out'
          | Inr out' \<Rightarrow> (Some (export out'), None)))"
proof (cases s)
  case (Inl x)
  then show ?thesis by (cases x) (simp add: outcome_fail)
next
  case (Inr x)
  then obtain c r out where x: "s = Inr (c, r, out)" by (cases x) auto
  then have "minimal out" using assms by simp
  then have "minimal out'" if "spec_msg compliant c r out = Inr out'" for out'
    using that by (auto simp: spec_msg_def split: if_splits prod.splits)
  then show ?thesis
    by (auto simp: x outcome_fail split: sum.split) (simp add: outcome_ok_def minimal_Valid)
qed

lemma spec_parse_ok: "outcome_ok be (spec_parse be compliant opt input)"
proof -
  let ?init = "syslogMessage_init opt"
  let ?body = "\<lambda>col r out. andThen (spec_header col r out) spec_sd"
  let ?opt = "opt \<and> \<not> (input \<noteq> [] \<and> hd input = 60)"
  let ?s = "if ?opt then ?body 0 input ?init else andThen (spec_pri 0 input ?init) ?body"
  have body: "prio_ok out \<Longrightarrow> ensures minimal (?body col r out)" for col r out
    by (rule ensures_andThen [OF spec_header_ok]) (auto intro: spec_sd_ok)
  have "ensures minimal ?s"
  proof (cases ?opt)
    case True
    then have "prio_ok ?init"
      by (simp add: prio_ok_def syslogMessage_init_def)
    with True body show ?thesis by simp
  next
    case False
    have "ensures minimal (andThen (spec_pri 0 input ?init) ?body)"
      by (rule ensures_andThen [OF spec_pri_ok]) (rule body)
    with False show ?thesis by auto
  qed
  then show ?thesis
    unfolding spec_parse_def Let_def by (rule outcome_stage)
qed

text \<open>
  C9: What \<open>Parse\<close> returns: a message without an error is valid; a message with an error comes in
  best-effort mode only, and it is valid too; else there is an error. It never returns neither.
\<close>

theorem Parse_outcome:
  "case Parse m input of
     None \<Rightarrow> False
   | Some (m', msg, err) \<Rightarrow> outcome_ok (m_bestEffort m) (msg, err)"
  using Parse_is_spec [of m input] spec_parse_ok by (auto split: option.splits)

lemma Parse_keeps:
  "case Parse m input of
     None \<Rightarrow> False
   | Some (m', msg, err) \<Rightarrow>
       m_bestEffort m' = m_bestEffort m \<and> m_compliantMsg m' = m_compliantMsg m \<and>
       m_optionalPriority m' = m_optionalPriority m \<and> m_data m' = input \<and>
       (case err of None \<Rightarrow> True | Some (k, col) \<Rightarrow> col \<le> length input)"
proof -
  let ?m = "init_parse input m" and ?out = "syslogMessage_init (m_optionalPriority m)"
  have ok: "wf_ptr ?m" "sd_ok ?m ?out" "kept ?m ?m"
    by (simp_all add: wf_ptr_def sd_ok_def init_parse_def start_def enMainMessageBody_def kept_def)
  obtain m' out' where r: "run ?m ?out = Some (m', out')"
    using run_safe [OF ok(1,2)] by auto
  have k: "kept ?m m'"
    by (rule run_keeps [OF ok r])
  have P: "Parse m input = Some (m', parse_result m' out')"
    by (simp add: Parse_def r)
  have "snd (parse_result m' out') = None \<or> snd (parse_result m' out') = m_err m'"
    by (simp add: parse_result_def)
  then show ?thesis
    using k by (auto simp: P kept_def init_parse_def split: option.splits prod.splits)
qed

text \<open>
  C11: \<open>Parse\<close> leaves the options of the machine as they are, and the column of the error it
  returns is a position of the input or its end.
\<close>

theorem Parse_frame:
  "case Parse m input of
     None \<Rightarrow> False
   | Some (m', msg, err) \<Rightarrow>
       m_bestEffort m' = m_bestEffort m \<and> m_compliantMsg m' = m_compliantMsg m \<and>
       m_optionalPriority m' = m_optionalPriority m \<and> m_data m' = input \<and>
       (case err of None \<Rightarrow> True | Some (k, col) \<Rightarrow> col \<le> length input)"
  by (rule Parse_keeps)

end
