(* ===== verification/RFC5424_Parser.thy ===== *)
theory RFC5424_Parser
  imports RFC5424_Properties Interfaces
begin

text \<open>
  rfc5424/options.go and rfc5424/parser.go: the options of the machine and the parser that wraps it
  with a mutex (a call holds the lock from its start to its return, so a call of the model is one
  step). Both types meet the contract of \<open>Machine\<close>.
\<close>

section \<open>Options\<close>

definition WithBestEffort :: "machine \<Rightarrow> machine" where
  "WithBestEffort m = machine_WithBestEffort m"

definition WithCompliantMsg :: "machine \<Rightarrow> machine" where
  "WithCompliantMsg m = m\<lparr>m_compliantMsg := True\<rparr>"

definition WithOptionalPriority :: "machine \<Rightarrow> machine" where
  "WithOptionalPriority m = machine_WithOptionalPriority m"

section \<open>The machine as a \<open>syslog.Machine\<close>\<close>

definition machine_methods :: "(machine, SyslogMessage, perror) Machine" where
  "machine_methods =
     \<lparr>Parse_method = Parse, WithBestEffort_method = machine_WithBestEffort,
      HasBestEffort_method = machine_HasBestEffort\<rparr>"

lemma machine_methods_simps [simp]:
  "Parse_method machine_methods = Parse"
  "WithBestEffort_method machine_methods = machine_WithBestEffort"
  "HasBestEffort_method machine_methods = machine_HasBestEffort"
  by (simp_all add: machine_methods_def)

text \<open>The answer of the machine is a function of its options.\<close>

lemma machine_answer:
  "answer machine_methods m input =
    Some (spec_parse (m_bestEffort m) (m_compliantMsg m) (m_optionalPriority m) input)"
  by (simp add: answer_def Parse_is_spec)

lemma machine_keeps:
  "Parse m input = Some (m', r) \<Longrightarrow>
    m_bestEffort m' = m_bestEffort m \<and> m_compliantMsg m' = m_compliantMsg m \<and>
    m_optionalPriority m' = m_optionalPriority m"
  using Parse_keeps [of m input] by (auto split: prod.splits)

lemma machine_outcome:
  "Parse m input = Some (m', msg, err) \<Longrightarrow> outcome_ok (m_bestEffort m) (msg, err)"
  using Parse_is_spec [of m input] spec_parse_ok by (auto split: option.splits)

interpretation machine5424: answering_machine machine_methods "\<lambda>_. True"
proof
  fix m m' input r msg err
  show "Parse_method machine_methods m input \<noteq> None"
    using Parse_is_spec [of m input] by auto
  show "True \<and> HasBestEffort_method machine_methods (WithBestEffort_method machine_methods m)"
    by (simp add: machine_HasBestEffort_def machine_WithBestEffort_def)
  show "Parse_method machine_methods m input = Some (m', r) \<Longrightarrow>
      HasBestEffort_method machine_methods m' = HasBestEffort_method machine_methods m"
    by (simp add: machine_HasBestEffort_def machine_keeps)
  show "Parse_method machine_methods m input = Some (m', r) \<Longrightarrow>
      answer machine_methods m' = answer machine_methods m"
    by (rule ext) (simp add: machine_answer machine_keeps)
  show "Parse_method machine_methods m input = Some (m', None, err) \<Longrightarrow> err \<noteq> None"
    using machine_outcome [of m input m' None err] by (auto simp: outcome_ok_def split: option.splits)
  show "Parse_method machine_methods m input = Some (m', msg, err) \<Longrightarrow>
      \<not> HasBestEffort_method machine_methods m \<Longrightarrow> msg = None \<or> err = None"
    using machine_outcome [of m input m' msg err]
    by (auto simp: outcome_ok_def machine_HasBestEffort_def split: option.splits)
qed simp

section \<open>The parser\<close>

record parser =
  p_machine :: machine

definition NewParser :: "(machine \<Rightarrow> machine) list \<Rightarrow> parser" where
  "NewParser options = \<lparr>p_machine = NewMachine options\<rparr>"

definition parser_HasBestEffort :: "parser \<Rightarrow> bool" where
  "parser_HasBestEffort p = m_bestEffort (p_machine p)"

text \<open>\<open>WithBestEffort\<close> is the promoted method of the embedded machine.\<close>

definition parser_WithBestEffort :: "parser \<Rightarrow> parser" where
  "parser_WithBestEffort p = p\<lparr>p_machine := machine_WithBestEffort (p_machine p)\<rparr>"

definition parser_Parse ::
    "parser \<Rightarrow> bytes \<Rightarrow> (parser \<times> SyslogMessage option \<times> perror option) option" where
  "parser_Parse p input =
     (case Parse (p_machine p) input of
        None \<Rightarrow> None
      | Some (m, msg, err) \<Rightarrow>
          let p' = p\<lparr>p_machine := m\<rparr> in
          if err \<noteq> None then
            (if m_bestEffort (p_machine p') then Some (p', msg, err) else Some (p', None, err))
          else Some (p', msg, None))"

definition parser_methods :: "(parser, SyslogMessage, perror) Machine" where
  "parser_methods =
     \<lparr>Parse_method = parser_Parse, WithBestEffort_method = parser_WithBestEffort,
      HasBestEffort_method = parser_HasBestEffort\<rparr>"

lemma parser_methods_simps [simp]:
  "Parse_method parser_methods = parser_Parse"
  "WithBestEffort_method parser_methods = parser_WithBestEffort"
  "HasBestEffort_method parser_methods = parser_HasBestEffort"
  by (simp_all add: parser_methods_def)

text \<open>The wrapper adds nothing: a message never comes with an error outside best-effort mode.\<close>

lemma parser_eq:
  "parser_Parse p input = map_option (\<lambda>(m, r). (p\<lparr>p_machine := m\<rparr>, r)) (Parse (p_machine p) input)"
proof -
  obtain m msg err where P: "Parse (p_machine p) input = Some (m, msg, err)"
    using Parse_is_spec [of "p_machine p" input] by auto
  have "m_bestEffort m = m_bestEffort (p_machine p)"
    using machine_keeps [OF P] by simp
  then show ?thesis
    using machine_outcome [OF P]
    by (cases msg; cases err) (auto simp: parser_Parse_def P outcome_ok_def)
qed

lemma parser_cases:
  assumes "parser_Parse p input = Some (p', r)"
  obtains m where "Parse (p_machine p) input = Some (m, r)" "p' = p\<lparr>p_machine := m\<rparr>"
  using assms by (auto simp: parser_eq)

lemma parser_answer: "answer parser_methods p = answer machine_methods (p_machine p)"
  by (rule ext) (simp add: answer_def parser_eq option.map_comp comp_def case_prod_unfold)

interpretation parser5424: answering_machine parser_methods "\<lambda>_. True"
proof
  fix p p' input r msg err
  show "Parse_method parser_methods p input \<noteq> None"
    using machine5424.total [of "p_machine p" input] by (simp add: parser_eq)
  show "True \<and> HasBestEffort_method parser_methods (WithBestEffort_method parser_methods p)"
    using machine5424.enables
    by (simp add: parser_HasBestEffort_def parser_WithBestEffort_def machine_HasBestEffort_def)
  show "HasBestEffort_method parser_methods p' = HasBestEffort_method parser_methods p"
    if "Parse_method parser_methods p input = Some (p', r)"
    using that by (auto simp: parser_HasBestEffort_def machine_keeps elim!: parser_cases)
  show "answer parser_methods p' = answer parser_methods p"
    if "Parse_method parser_methods p input = Some (p', r)"
    using that by (auto simp: parser_answer machine5424.keeps_answer elim!: parser_cases)
  show "err \<noteq> None"
    if "Parse_method parser_methods p input = Some (p', None, err)"
    using that machine5424.some_result by (auto elim!: parser_cases)
  show "msg = None \<or> err = None"
    if "Parse_method parser_methods p input = Some (p', msg, err)"
      "\<not> HasBestEffort_method parser_methods p"
    using that machine5424.strict
    by (fastforce simp: parser_HasBestEffort_def machine_HasBestEffort_def elim!: parser_cases)
qed simp

text \<open>
  C35: The parser with a mutex answers every input exactly as the machine it wraps, so its
  filter on errors outside best-effort mode never changes a result.
\<close>

theorem parser_refines_machine:
  "map_option snd (parser_Parse p input) = map_option snd (Parse (p_machine p) input)"
  by (simp add: parser_eq option.map_comp comp_def case_prod_unfold)

end
