(* ===== verification/RFC5424_Builder.thy ===== *)
theory RFC5424_Builder
  imports RFC5424_Properties
begin

text \<open>
  rfc5424/builder.go: the setters of a message, which run one more Ragel machine (one entry point
  per kind of value) over the given text and store it only if the whole text matches. A mismatch
  goes to \<open>st0\<close> and leaves the message as it is. Strings are lists of bytes, and \<open>None\<close> is a
  run-time panic: a nil map read or written by an action.
\<close>

section \<open>Entry points\<close>

datatype entrypoint =
    timestamp_entry | hostname_entry | appname_entry | procid_entry | msgid_entry
  | sdid_entry | sdpn_entry | sdpv_entry | msg_entry

fun translate :: "entrypoint \<Rightarrow> nat" where
  "translate timestamp_entry = 1"
| "translate hostname_entry = 38"
| "translate appname_entry = 39"
| "translate procid_entry = 40"
| "translate msgid_entry = 41"
| "translate sdid_entry = 42"
| "translate sdpn_entry = 43"
| "translate sdpv_entry = 582"
| "translate msg_entry = 52"

section \<open>Transitions\<close>

text \<open>TIMESTAMP: the states 1 to 37.\<close>

definition builder_timestamp :: "nat \<Rightarrow> byte \<Rightarrow> nat option" where
  "builder_timestamp cs b =
     (if 1 \<le> cs \<and> cs \<le> 4 \<and> is_digit b then Some (cs + 1)
      else if cs = 5 \<and> b = 45 then Some 6
      else if cs = 6 \<and> b = 48 then Some 7
      else if cs = 6 \<and> b = 49 then Some 37
      else if cs = 7 \<and> in_range 49 57 b then Some 8
      else if cs = 8 \<and> b = 45 then Some 9
      else if cs = 9 \<and> b = 48 then Some 10
      else if cs = 9 \<and> b = 51 then Some 36
      else if cs = 9 \<and> in_range 49 50 b then Some 35
      else if cs = 10 \<and> in_range 49 57 b then Some 11
      else if cs = 11 \<and> b = 84 then Some 12
      else if cs = 12 \<and> b = 50 then Some 34
      else if cs = 12 \<and> in_range 48 49 b then Some 13
      else if cs = 13 \<and> is_digit b then Some 14
      else if cs = 14 \<and> b = 58 then Some 15
      else if cs = 15 \<and> in_range 48 53 b then Some 16
      else if cs = 16 \<and> is_digit b then Some 17
      else if cs = 17 \<and> b = 58 then Some 18
      else if cs = 18 \<and> in_range 48 53 b then Some 19
      else if cs = 19 \<and> is_digit b then Some 20
      else if cs = 20 \<and> (b = 43 \<or> b = 45) then Some 21
      else if cs = 20 \<and> b = 46 then Some 27
      else if cs = 20 \<and> b = 90 then Some 54
      else if cs = 21 \<and> b = 50 then Some 26
      else if cs = 21 \<and> in_range 48 49 b then Some 22
      else if cs = 22 \<and> is_digit b then Some 23
      else if cs = 23 \<and> b = 58 then Some 24
      else if cs = 24 \<and> in_range 48 53 b then Some 25
      else if cs = 25 \<and> is_digit b then Some 54
      else if cs = 26 \<and> in_range 48 51 b then Some 23
      else if cs = 27 \<and> is_digit b then Some 28
      else if 28 \<le> cs \<and> cs \<le> 33 \<and> (b = 43 \<or> b = 45) then Some 21
      else if 28 \<le> cs \<and> cs \<le> 33 \<and> b = 90 then Some 54
      else if 28 \<le> cs \<and> cs \<le> 32 \<and> is_digit b then Some (cs + 1)
      else if cs = 34 \<and> in_range 48 51 b then Some 14
      else if cs = 35 \<and> is_digit b then Some 11
      else if cs = 36 \<and> in_range 48 49 b then Some 11
      else if cs = 37 \<and> in_range 48 50 b then Some 8
      else None)"

text \<open>
  The counting chains: the entry state \<open>first\<close>, then the states \<open>lo..hi\<close>, over the bytes \<open>ok\<close>.
\<close>

definition builder_chain ::
    "nat \<Rightarrow> nat \<Rightarrow> nat \<Rightarrow> (byte \<Rightarrow> bool) \<Rightarrow> nat \<Rightarrow> byte \<Rightarrow> nat option" where
  "builder_chain first lo hi ok cs b =
     (if \<not> ok b then None
      else if cs = first then Some lo
      else if lo \<le> cs \<and> cs < hi then Some (cs + 1)
      else None)"

definition builder_hostname :: "nat \<Rightarrow> byte \<Rightarrow> nat option" where
  "builder_hostname = builder_chain 38 55 309 is_graph"

definition builder_appname :: "nat \<Rightarrow> byte \<Rightarrow> nat option" where
  "builder_appname = builder_chain 39 310 357 is_graph"

definition builder_procid :: "nat \<Rightarrow> byte \<Rightarrow> nat option" where
  "builder_procid = builder_chain 40 358 485 is_graph"

definition builder_msgid :: "nat \<Rightarrow> byte \<Rightarrow> nat option" where
  "builder_msgid = builder_chain 41 486 517 is_graph"

definition builder_sdid :: "nat \<Rightarrow> byte \<Rightarrow> nat option" where
  "builder_sdid = builder_chain 42 518 549 is_sdname"

definition builder_sdpn :: "nat \<Rightarrow> byte \<Rightarrow> nat option" where
  "builder_sdpn = builder_chain 43 550 581 is_sdname"

text \<open>
  Parameter values: 582 and 583 (between characters), 44 (after a backslash) and 45..51 (inside a
  UTF-8 sequence).
\<close>

definition builder_sdpv :: "nat \<Rightarrow> byte \<Rightarrow> nat option" where
  "builder_sdpv cs b =
     (if cs = 582 \<or> cs = 583 then
        (if b = 34 \<or> b = 93 then None
         else if b = 92 then Some 44
         else if b < 128 then Some 583
         else map_option (\<lambda>i. 45 + i) (utf8_lead b))
      else if cs = 44 then (if b = 34 \<or> b = 92 \<or> b = 93 then Some 583 else None)
      else (case utf8_cont (cs - 45) b of
              None \<Rightarrow> None | Some None \<Rightarrow> Some 583 | Some (Some i) \<Rightarrow> Some (45 + i)))"

definition builder_next :: "nat \<Rightarrow> byte \<Rightarrow> nat option" where
  "builder_next cs b =
     (if 1 \<le> cs \<and> cs \<le> 37 then builder_timestamp cs b
      else if cs = 38 \<or> 55 \<le> cs \<and> cs \<le> 309 then builder_hostname cs b
      else if cs = 39 \<or> 310 \<le> cs \<and> cs \<le> 357 then builder_appname cs b
      else if cs = 40 \<or> 358 \<le> cs \<and> cs \<le> 485 then builder_procid cs b
      else if cs = 41 \<or> 486 \<le> cs \<and> cs \<le> 517 then builder_msgid cs b
      else if cs = 42 \<or> 518 \<le> cs \<and> cs \<le> 549 then builder_sdid cs b
      else if cs = 43 \<or> 550 \<le> cs \<and> cs \<le> 581 then builder_sdpn cs b
      else if 44 \<le> cs \<and> cs \<le> 51 \<or> cs = 582 \<or> cs = 583 then builder_sdpv cs b
      else if cs = 52 \<or> cs = 53 then Some 53
      else None)"

text \<open>\<open>pb = p\<close> on the transitions out of an entry state, and the recorded backslashes.\<close>

definition builder_marks :: "nat \<Rightarrow> bool" where
  "builder_marks cs \<longleftrightarrow> cs = 1 \<or> 38 \<le> cs \<and> cs \<le> 43 \<or> cs = 52 \<or> cs = 582"

definition builder_slash :: "nat \<Rightarrow> byte \<Rightarrow> bool" where
  "builder_slash cs b \<longleftrightarrow> (cs = 582 \<or> cs = 583) \<and> b = 92"

text \<open>
  The loop, over the bytes that are left: the state, the mark and the backslashes at the end of the
  text, or \<open>None\<close> when \<open>st0\<close> was taken.
\<close>

fun builder_loop :: "bytes \<Rightarrow> nat \<Rightarrow> nat \<Rightarrow> nat \<Rightarrow> nat list \<Rightarrow> (nat \<times> nat \<times> nat list) option" where
  "builder_loop [] p cs pb backslashes = Some (cs, pb, backslashes)"
| "builder_loop (b # r) p cs pb backslashes =
     (case builder_next cs b of
        None \<Rightarrow> None
      | Some n \<Rightarrow>
          builder_loop r (p + 1) n (if builder_marks cs then p else pb)
            (if builder_slash cs b then backslashes @ [p] else backslashes))"

section \<open>Actions at the end of the text\<close>

text \<open>\<open>elements[id]\<close> with its \<open>ok\<close>, and the parameters that can be written.\<close>

definition element_at :: "elements \<Rightarrow> bytes \<Rightarrow> (bytes, bytes) fmap option option" where
  "element_at es eid = (case es of None \<Rightarrow> None | Some m \<Rightarrow> fmlookup m eid)"

definition builder_sdid_action :: "bytes \<Rightarrow> SyslogMessage \<Rightarrow> SyslogMessage option" where
  "builder_sdid_action t sm =
     (let elements = (case StructuredData sm of None \<Rightarrow> Some fmempty | Some es \<Rightarrow> es);
          sm = sm\<lparr>StructuredData := Some elements\<rparr>
      in if element_at elements t \<noteq> None then Some sm
         else (case elements of
                 None \<Rightarrow> None
               | Some m \<Rightarrow> Some (sm\<lparr>StructuredData := Some (Some (fmupd t (Some fmempty) m))\<rparr>)))"

definition builder_param_action ::
    "bytes \<Rightarrow> bytes \<Rightarrow> bytes \<Rightarrow> SyslogMessage \<Rightarrow> SyslogMessage option" where
  "builder_param_action currentid name val sm =
     (case StructuredData sm of
        None \<Rightarrow> None
      | Some None \<Rightarrow> None
      | Some (Some m) \<Rightarrow>
          (case fmlookup m currentid of
             None \<Rightarrow> None
           | Some None \<Rightarrow> None
           | Some (Some ps) \<Rightarrow>
               Some (sm\<lparr>StructuredData := Some (Some (fmupd currentid (Some (fmupd name val ps)) m))\<rparr>)))"

definition builder_value_action ::
    "bytes \<Rightarrow> bytes \<Rightarrow> bytes \<Rightarrow> nat \<Rightarrow> nat list \<Rightarrow> SyslogMessage \<Rightarrow> SyslogMessage option" where
  "builder_value_action currentid name t pb backslashes sm =
     (case (if backslashes \<noteq> [] then RemoveBytes t backslashes pb else Some t) of
        None \<Rightarrow> None
      | Some v \<Rightarrow> builder_param_action currentid name v sm)"

definition builder_eof ::
    "nat \<Rightarrow> bytes \<Rightarrow> nat \<Rightarrow> nat list \<Rightarrow> bytes \<Rightarrow> bytes \<Rightarrow> SyslogMessage \<Rightarrow> SyslogMessage option" where
  "builder_eof cs data pb backslashes currentid currentparamname sm =
     (case gslice data (if cs = 582 \<or> cs = 52 then length data else pb) (length data) of
        None \<Rightarrow> None
      | Some t \<Rightarrow>
          if cs = 54 then
            (case time_Parse_RFC3339MICRO t of
               Inl e \<Rightarrow> Some sm | Inr ts \<Rightarrow> Some (sm\<lparr>Timestamp := Some ts\<rparr>))
          else if 55 \<le> cs \<and> cs \<le> 309 then Some (if t \<noteq> [45] then sm\<lparr>Hostname := Some t\<rparr> else sm)
          else if 310 \<le> cs \<and> cs \<le> 357 then Some (if t \<noteq> [45] then sm\<lparr>Appname := Some t\<rparr> else sm)
          else if 358 \<le> cs \<and> cs \<le> 485 then Some (if t \<noteq> [45] then sm\<lparr>ProcID := Some t\<rparr> else sm)
          else if 486 \<le> cs \<and> cs \<le> 517 then Some (if t \<noteq> [45] then sm\<lparr>MsgID := Some t\<rparr> else sm)
          else if 518 \<le> cs \<and> cs \<le> 549 then builder_sdid_action t sm
          else if 550 \<le> cs \<and> cs \<le> 581 then builder_param_action currentid t [] sm
          else if cs = 583 \<or> cs = 582 then
            builder_value_action currentid currentparamname t
              (if cs = 582 then length data else pb) backslashes sm
          else if cs = 53 \<or> cs = 52 then Some (if t \<noteq> [] then sm\<lparr>Message := Some t\<rparr> else sm)
          else Some sm)"

definition setWithCtx ::
    "entrypoint \<Rightarrow> bytes \<Rightarrow> bytes \<Rightarrow> bytes \<Rightarrow> SyslogMessage \<Rightarrow> SyslogMessage option" where
  "setWithCtx from val currentid currentparamname sm =
     (case builder_loop val 0 (translate from) 0 [] of
        None \<Rightarrow> Some sm
      | Some (cs, pb, backslashes) \<Rightarrow>
          builder_eof cs val pb backslashes currentid currentparamname sm)"

definition set_entry :: "entrypoint \<Rightarrow> bytes \<Rightarrow> SyslogMessage \<Rightarrow> SyslogMessage option" where
  "set_entry from val sm = setWithCtx from val [] [] sm"

section \<open>The setters\<close>

definition SetPriority :: "8 word \<Rightarrow> SyslogMessage \<Rightarrow> SyslogMessage" where
  "SetPriority val sm = (if ValidPriority val then ComputeFromPriority val sm else sm)"

definition SetVersion :: "16 word \<Rightarrow> SyslogMessage \<Rightarrow> SyslogMessage" where
  "SetVersion val sm = (if ValidVersion val then sm\<lparr>Version := val\<rparr> else sm)"

definition SetTimestamp :: "bytes \<Rightarrow> SyslogMessage \<Rightarrow> SyslogMessage option" where
  "SetTimestamp val sm = set_entry timestamp_entry val sm"

definition SetHostname :: "bytes \<Rightarrow> SyslogMessage \<Rightarrow> SyslogMessage option" where
  "SetHostname val sm = set_entry hostname_entry val sm"

definition SetAppname :: "bytes \<Rightarrow> SyslogMessage \<Rightarrow> SyslogMessage option" where
  "SetAppname val sm = set_entry appname_entry val sm"

definition SetProcID :: "bytes \<Rightarrow> SyslogMessage \<Rightarrow> SyslogMessage option" where
  "SetProcID val sm = set_entry procid_entry val sm"

definition SetMsgID :: "bytes \<Rightarrow> SyslogMessage \<Rightarrow> SyslogMessage option" where
  "SetMsgID val sm = set_entry msgid_entry val sm"

definition SetElementID :: "bytes \<Rightarrow> SyslogMessage \<Rightarrow> SyslogMessage option" where
  "SetElementID val sm = set_entry sdid_entry val sm"

definition SetParameter :: "bytes \<Rightarrow> bytes \<Rightarrow> bytes \<Rightarrow> SyslogMessage \<Rightarrow> SyslogMessage option" where
  "SetParameter eid name val sm =
     (case set_entry sdid_entry eid sm of
        None \<Rightarrow> None
      | Some sm1 \<Rightarrow>
          (case StructuredData sm1 of
             None \<Rightarrow> Some sm1
           | Some elements \<Rightarrow>
               if element_at elements eid = None then Some sm1
               else (case setWithCtx sdpn_entry name eid [] sm1 of
                       None \<Rightarrow> None
                     | Some sm2 \<Rightarrow>
                         (case StructuredData sm2 of
                            None \<Rightarrow> Some sm2
                          | Some elements2 \<Rightarrow>
                              if (case element_at elements2 eid of
                                    Some (Some ps) \<Rightarrow> fmlookup ps name \<noteq> None | _ \<Rightarrow> False)
                              then setWithCtx sdpv_entry val eid name sm2
                              else Some sm2))))"

definition SetMessage :: "bytes \<Rightarrow> SyslogMessage \<Rightarrow> SyslogMessage option" where
  "SetMessage val sm = set_entry msg_entry val sm"


section \<open>Facts: fields\<close>

text \<open>A setter of a counted field stores the text if it has 1 to \<open>mx\<close> bytes of the class.\<close>

locale builder_field =
  fixes first lo hi mx :: nat
    and ok :: "byte \<Rightarrow> bool"
  assumes next_field: "cs = first \<or> lo \<le> cs \<and> cs \<le> hi \<Longrightarrow>
      builder_next cs b = builder_chain first lo hi ok cs b"
    and field_plain: "builder_marks first" "first < lo" "lo \<le> hi" "mx = hi - lo + 1" "first \<noteq> 582"
      "first \<noteq> 583"
    and chain_plain: "lo \<le> cs \<and> cs \<le> hi \<Longrightarrow> \<not> builder_marks cs \<and> cs \<noteq> 583 \<and> cs \<noteq> 582"
begin

lemma loop_chain:
  "lo \<le> cs \<Longrightarrow> cs \<le> hi \<Longrightarrow>
    builder_loop r p cs pb [] =
      (if list_all ok r \<and> cs + length r \<le> hi then Some (cs + length r, pb, []) else None)"
proof (induction r arbitrary: p cs)
  case Nil
  then show ?case by simp
next
  case (Cons b r)
  show ?case
    using Cons.prems Cons.IH [of "cs + 1" "p + 1"] next_field [of cs b] chain_plain [of cs] field_plain(2)
    by (auto simp: builder_chain_def builder_slash_def)
qed

lemma loop_field:
  "builder_loop v 0 first 0 [] =
    (if v = [] then Some (first, 0, [])
     else if list_all ok v \<and> length v \<le> mx then Some (lo + length v - 1, 0, [])
     else None)"
  using field_plain next_field [of first "hd v"]
  by (cases v) (auto simp: loop_chain builder_chain_def builder_slash_def)

end

lemma next_entry:
  "cs = 38 \<or> 55 \<le> cs \<and> cs \<le> 309 \<Longrightarrow> builder_next cs b = builder_hostname cs b"
  "cs = 39 \<or> 310 \<le> cs \<and> cs \<le> 357 \<Longrightarrow> builder_next cs b = builder_appname cs b"
  "cs = 40 \<or> 358 \<le> cs \<and> cs \<le> 485 \<Longrightarrow> builder_next cs b = builder_procid cs b"
  "cs = 41 \<or> 486 \<le> cs \<and> cs \<le> 517 \<Longrightarrow> builder_next cs b = builder_msgid cs b"
  "cs = 42 \<or> 518 \<le> cs \<and> cs \<le> 549 \<Longrightarrow> builder_next cs b = builder_sdid cs b"
  "cs = 43 \<or> 550 \<le> cs \<and> cs \<le> 581 \<Longrightarrow> builder_next cs b = builder_sdpn cs b"
  by (auto simp: builder_next_def)

interpretation hostname_setter: builder_field 38 55 309 255 is_graph
  by unfold_locales (auto simp: next_entry builder_hostname_def builder_marks_def)

interpretation appname_setter: builder_field 39 310 357 48 is_graph
  by unfold_locales (auto simp: next_entry builder_appname_def builder_marks_def)

interpretation procid_setter: builder_field 40 358 485 128 is_graph
  by unfold_locales (auto simp: next_entry builder_procid_def builder_marks_def)

interpretation msgid_setter: builder_field 41 486 517 32 is_graph
  by unfold_locales (auto simp: next_entry builder_msgid_def builder_marks_def)

interpretation sdid_setter: builder_field 42 518 549 32 is_sdname
  by unfold_locales (auto simp: next_entry builder_sdid_def builder_marks_def)

interpretation sdpn_setter: builder_field 43 550 581 32 is_sdname
  by unfold_locales (auto simp: next_entry builder_sdpn_def builder_marks_def)

lemma gslice_all [simp]: "gslice xs 0 (length xs) = Some xs"
  by (simp add: gslice_def)

text \<open>A text of 1 to \<open>mx\<close> bytes of a class.\<close>

definition counted :: "(byte \<Rightarrow> bool) \<Rightarrow> nat \<Rightarrow> bytes \<Rightarrow> bool" where
  "counted ok mx v \<longleftrightarrow> v \<noteq> [] \<and> list_all ok v \<and> length v \<le> mx"

lemma counted_len: "counted ok mx v \<Longrightarrow> 0 < length v \<and> length v \<le> mx"
  by (simp add: counted_def)

lemma field_setters:
  "SetHostname v sm = Some (if counted is_graph 255 v \<and> v \<noteq> [45] then sm\<lparr>Hostname := Some v\<rparr> else sm)"
  "SetAppname v sm = Some (if counted is_graph 48 v \<and> v \<noteq> [45] then sm\<lparr>Appname := Some v\<rparr> else sm)"
  "SetProcID v sm = Some (if counted is_graph 128 v \<and> v \<noteq> [45] then sm\<lparr>ProcID := Some v\<rparr> else sm)"
  "SetMsgID v sm = Some (if counted is_graph 32 v \<and> v \<noteq> [45] then sm\<lparr>MsgID := Some v\<rparr> else sm)"
  by (cases v; auto simp: SetHostname_def SetAppname_def SetProcID_def SetMsgID_def set_entry_def
      setWithCtx_def builder_eof_def counted_def hostname_setter.loop_field appname_setter.loop_field
      procid_setter.loop_field msgid_setter.loop_field gslice_def)+

lemma msg_loop: "builder_loop r p 53 pb [] = Some (53, pb, [])"
  by (induction r arbitrary: p) (auto simp: builder_next_def builder_marks_def builder_slash_def)

lemma SetMessage_eq: "SetMessage v sm = Some (if v \<noteq> [] then sm\<lparr>Message := Some v\<rparr> else sm)"
  by (cases v) (auto simp: SetMessage_def set_entry_def setWithCtx_def builder_eof_def msg_loop
      builder_next_def builder_marks_def builder_slash_def gslice_def)

lemma set_sdid_eq:
  "set_entry sdid_entry v sm = (if counted is_sdname 32 v then builder_sdid_action v sm else Some sm)"
  by (cases v) (auto simp: set_entry_def setWithCtx_def builder_eof_def counted_def
      sdid_setter.loop_field gslice_def)

lemma set_sdpn_eq:
  "setWithCtx sdpn_entry v e [] sm =
    (if counted is_sdname 32 v then builder_param_action e v [] sm else Some sm)"
  by (cases v) (auto simp: setWithCtx_def builder_eof_def counted_def
      sdpn_setter.loop_field gslice_def)


section \<open>Facts: timestamps\<close>

text \<open>The builder's timestamp states are the parser's, renumbered.\<close>

definition ts_state :: "nat \<Rightarrow> nat" where
  "ts_state cs = (if cs = 54 then 578 else if cs \<le> 25 then cs + 552 else cs + 553)"

lemma builder_timestamp_iso:
  assumes "2 \<le> cs" "cs \<le> 37"
  shows "map_option ts_state (builder_timestamp cs b) = timestamp_next (ts_state cs) b"
proof -
  have "cs \<in> set [2..<38]"
    using assms by (simp del: upt_rec_numeral)
  then show ?thesis
    by (simp, elim disjE; hypsubst; simp add: builder_timestamp_def timestamp_next_def ts_state_def)
qed

lemma builder_timestamp_range:
  "builder_timestamp cs b = Some n \<Longrightarrow> 2 \<le> n \<and> n \<le> 37 \<or> n = 54"
  by (auto simp: builder_timestamp_def split: if_splits)

lemma ts_loop:
  "2 \<le> cs \<and> cs \<le> 37 \<or> cs = 54 \<Longrightarrow>
    (if ts_scan (ts_state cs) r = (length r, True) then builder_loop r p cs pb [] = Some (54, pb, [])
     else builder_loop r p cs pb [] = None \<or>
          (\<exists>n. 2 \<le> n \<and> n \<le> 37 \<and> builder_loop r p cs pb [] = Some (n, pb, [])))"
proof (induction r arbitrary: p cs)
  case Nil
  then show ?case by (auto simp: ts_state_def)
next
  case (Cons b r)
  show ?case
  proof (cases "cs = 54")
    case True
    then show ?thesis by (simp add: ts_state_def builder_next_def)
  next
    case False
    with Cons.prems have cs: "2 \<le> cs" "cs \<le> 37" by auto
    then have fin: "ts_state cs \<noteq> 578" by (auto simp: ts_state_def)
    have loop: "builder_loop (b # r) p cs pb [] =
        (case builder_timestamp cs b of None \<Rightarrow> None | Some n \<Rightarrow> builder_loop r (p + 1) n pb [])"
      using cs by (auto simp: builder_next_def builder_marks_def builder_slash_def split: option.split)
    show ?thesis
    proof (cases "builder_timestamp cs b")
      case None
      then have "timestamp_next (ts_state cs) b = None"
        using builder_timestamp_iso [OF cs, of b] by simp
      with None fin show ?thesis unfolding loop by simp
    next
      case (Some n)
      then have "timestamp_next (ts_state cs) b = Some (ts_state n)"
        using builder_timestamp_iso [OF cs, of b] by simp
      moreover have "ts_scan (ts_state n) r = (length r, True) \<longleftrightarrow>
          (case ts_scan (ts_state n) r of (k, ok) \<Rightarrow> (k + 1, ok)) = (length r + 1, True)"
        by (auto split: prod.split)
      ultimately show ?thesis
        using Cons.IH [of n "Suc p"] builder_timestamp_range [OF Some] Some fin
        unfolding loop by simp
    qed
  qed
qed

text \<open>The texts that the timestamp grammar accepts.\<close>

definition is_timestamp :: "bytes \<Rightarrow> bool" where
  "is_timestamp v \<longleftrightarrow>
     v \<noteq> [] \<and> is_digit (hd v) \<and> ts_scan 554 (tl v) = (length (tl v), True)"

lemma SetTimestamp_eq:
  "SetTimestamp v sm = Some
    (if is_timestamp v
     then (case time_Parse_RFC3339MICRO v of Inl e \<Rightarrow> sm | Inr t \<Rightarrow> sm\<lparr>Timestamp := Some t\<rparr>)
     else sm)"
proof (cases v)
  case Nil
  then show ?thesis
    by (simp add: SetTimestamp_def set_entry_def setWithCtx_def builder_eof_def is_timestamp_def
        gslice_def)
next
  case (Cons b r)
  have loop: "builder_loop v 0 1 0 [] = (if is_digit b then builder_loop r 1 2 0 [] else None)"
    using Cons
    by (simp add: builder_next_def builder_timestamp_def builder_marks_def builder_slash_def
        numeral_2_eq_2)
  have noop: "builder_eof n v 0 [] [] [] sm = Some sm" if "2 \<le> n" "n \<le> 37" for n
    using that by (simp add: builder_eof_def)
  have S: "SetTimestamp v sm = (case builder_loop v 0 1 0 [] of
      None \<Rightarrow> Some sm | Some (cs, pb, sl) \<Rightarrow> builder_eof cs v pb sl [] [] sm)"
    by (simp add: SetTimestamp_def set_entry_def setWithCtx_def)
  note ts = ts_loop [of 2 r 1 0, simplified ts_state_def, simplified]
  show ?thesis
  proof (cases "is_timestamp v")
    case True
    then have "builder_loop v 0 1 0 [] = Some (54, 0, [])"
      using ts Cons unfolding loop by (simp add: is_timestamp_def)
    with True show ?thesis
      unfolding S by (simp add: builder_eof_def split: sum.split)
  next
    case False
    then have "builder_loop v 0 1 0 [] = None \<or>
        (\<exists>n. 2 \<le> n \<and> n \<le> 37 \<and> builder_loop v 0 1 0 [] = Some (n, 0, []))"
      using ts Cons unfolding loop is_timestamp_def by (auto split: if_splits)
    with False noop show ?thesis
      unfolding S by auto
  qed
qed


section \<open>Facts: parameter values\<close>

text \<open>
  The value that an escaped text stands for, if it is the text of a value: every character as the
  parser reads it, up to the end.
\<close>

function unescape :: "bytes \<Rightarrow> bytes option" where
  "unescape v =
     (if v = [] then Some []
      else if hd v = 34 then None
      else (case spec_char v of
              Inl e \<Rightarrow> None
            | Inr (n, t) \<Rightarrow> map_option (\<lambda>u. t @ u) (unescape (drop n v))))"
  by pat_completeness auto
termination
  by (relation "measure length") (auto dest!: spec_char_length)

declare unescape.simps [simp del]

lemma seq_loop:
  "i \<le> 6 \<Longrightarrow>
    (case seq_scan i r of (k, ok) \<Rightarrow>
       if ok then builder_loop r p (45 + i) pb sl = builder_loop (drop k r) (p + k) 583 pb sl
       else builder_loop r p (45 + i) pb sl = None \<or>
            (\<exists>n. 44 \<le> n \<and> n \<le> 51 \<and> builder_loop r p (45 + i) pb sl = Some (n, pb, sl)))"
proof (induction r arbitrary: p i)
  case Nil
  then show ?case by simp
next
  case (Cons b r)
  have loop: "builder_loop (b # r) p (45 + i) pb sl =
      (case utf8_cont i b of
         None \<Rightarrow> None
       | Some None \<Rightarrow> builder_loop r (p + 1) 583 pb sl
       | Some (Some j) \<Rightarrow> builder_loop r (p + 1) (45 + j) pb sl)"
    using Cons.prems
    by (auto simp: builder_next_def builder_sdpv_def builder_marks_def builder_slash_def
        split: option.split)
  show ?case
  proof (cases "utf8_cont i b")
    case None
    then show ?thesis unfolding loop by simp
  next
    case (Some x)
    show ?thesis
    proof (cases x)
      case None
      with Some show ?thesis unfolding loop by simp
    next
      case x: (Some j)
      have "j \<le> 6"
        using Some x by (auto simp: utf8_cont_def split: if_splits)
      from Cons.IH [OF this, of "p + 1"] Some x show ?thesis
        unfolding loop by (auto split: prod.splits if_splits)
    qed
  qed
qed

declare builder_loop.simps(2) [simp del]

text \<open>The loop over a value from between two characters, with \<open>pre\<close> already read.\<close>

definition kept_bytes :: "bytes \<Rightarrow> nat list \<Rightarrow> bytes" where
  "kept_bytes t sl = nths t {j. j \<notin> set sl}"

lemma kept_bytes_append:
  "\<forall>x\<in>set sl. x < length pre \<Longrightarrow> kept_bytes (pre @ t) sl = kept_bytes pre sl @ t"
proof -
  assume sl: "\<forall>x\<in>set sl. x < length pre"
  have "nths t {j. j + length pre \<in> {j. j \<notin> set sl}} = t"
    using sl by (intro nths_all) auto
  then show ?thesis
    by (simp add: kept_bytes_def nths_append)
qed

lemma kept_bytes_slash:
  assumes "\<forall>x\<in>set sl. x < length pre"
  shows "kept_bytes (pre @ [b]) (sl @ [length pre]) = kept_bytes pre sl"
proof -
  have "nths pre {j. j \<notin> set (sl @ [length pre])} = kept_bytes pre sl"
    unfolding kept_bytes_def by (intro nths_cong) auto
  then show ?thesis
    by (simp add: kept_bytes_def nths_append del: set_append) simp
qed

definition value_loop_ok :: "bytes \<Rightarrow> bytes \<Rightarrow> nat list \<Rightarrow> (nat \<times> nat \<times> nat list) option \<Rightarrow> bool" where
  "value_loop_ok pre r sl res =
     (case unescape r of
        Some u \<Rightarrow>
          (\<exists>sl'. res = Some (583, 0, sl') \<and> sorted_wrt (<) sl' \<and>
                 (\<forall>x\<in>set sl'. x < length (pre @ r)) \<and>
                 kept_bytes (pre @ r) sl' = kept_bytes pre sl @ u)
      | None \<Rightarrow> res = None \<or> (\<exists>n sl'. 44 \<le> n \<and> n \<le> 51 \<and> res = Some (n, 0, sl')))"

lemma next_583:
  "builder_next 583 b =
     (if b = 34 \<or> b = 93 then None
      else if b = 92 then Some 44
      else if b < 128 then Some 583
      else map_option (\<lambda>i. 45 + i) (utf8_lead b))"
  by (simp add: builder_next_def builder_sdpv_def)

lemma loop_583:
  "builder_loop (b # r) p 583 0 sl =
     (case builder_next 583 b of
        None \<Rightarrow> None
      | Some n \<Rightarrow> builder_loop r (p + 1) n 0 (if b = 92 then sl @ [p] else sl))"
  by (simp add: builder_loop.simps builder_marks_def builder_slash_def split: option.split)

lemma loop_44:
  "builder_loop (b # r) p 44 0 sl = (if toescape b then builder_loop r (p + 1) 583 0 sl else None)"
  by (auto simp: builder_loop.simps builder_next_def builder_sdpv_def builder_marks_def
      builder_slash_def toescape_def)

lemma char_loop:
  assumes "spec_char r = Inr (n, t)" "hd r \<noteq> 34"
    and "sorted_wrt (<) sl" "\<forall>x\<in>set sl. x < length pre"
  shows "\<exists>sl'. builder_loop r (length pre) 583 0 sl =
      builder_loop (drop n r) (length (pre @ take n r)) 583 0 sl' \<and> sorted_wrt (<) sl' \<and>
    (\<forall>x\<in>set sl'. x < length (pre @ take n r)) \<and>
    kept_bytes (pre @ take n r) sl' = kept_bytes pre sl @ t"
proof (cases r)
  case Nil
  with assms(1) show ?thesis by (simp add: spec_char_def)
next
  case (Cons b r1)
  with assms(2) have b: "b \<noteq> 34" by simp
  show ?thesis
  proof (cases "b = 92")
    case True
    then obtain c r2 where r1: "r1 = c # r2" "toescape c" "n = 2" "t = [c]"
      using assms(1) Cons by (cases r1) (auto simp: spec_char_def split: if_splits)
    let ?sl = "sl @ [length pre]"
    have "builder_loop r (length pre) 583 0 sl =
        builder_loop (drop n r) (length (pre @ take n r)) 583 0 ?sl"
      using True Cons r1 by (simp add: loop_583 next_583 loop_44)
    moreover have "sorted_wrt (<) ?sl" "\<forall>x\<in>set ?sl. x < length (pre @ take n r)"
      using assms(3,4) Cons r1 by (auto simp: sorted_wrt_append)
    moreover have "kept_bytes ((pre @ [92]) @ [c]) ?sl = kept_bytes (pre @ [92]) ?sl @ [c]"
      using assms(4) by (intro kept_bytes_append) auto
    then have "kept_bytes (pre @ take n r) ?sl = kept_bytes pre sl @ t"
      using kept_bytes_slash [OF assms(4), of 92] True Cons r1 by simp
    ultimately show ?thesis by blast
  next
    case False
    have "builder_loop r (length pre) 583 0 sl =
        builder_loop (drop n r) (length (pre @ take n r)) 583 0 sl \<and> t = take n r \<and> n \<le> length r"
    proof (cases "b < 128")
      case True
      then show ?thesis
        using assms(1) Cons b False
        by (auto simp: spec_char_def loop_583 next_583 split: if_splits)
    next
      case big: False
      have b93: "b \<noteq> 93" using big by auto
      from assms(1) Cons False big b93 obtain i k where
        i: "utf8_lead b = Some i" "seq_scan i r1 = (k, True)" "n = k + 1" "t = b # take k r1"
        by (auto simp: spec_char_def split: option.splits prod.splits if_splits)
      have "i \<le> 6"
        using i(1) by (auto simp: utf8_lead_def split: if_splits)
      from seq_loop [OF this, of r1 "length pre + 1" 0 sl] show ?thesis
        using i Cons b b93 big False seq_scan_len [OF i(2)]
        by (simp add: loop_583 next_583)
    qed
    then show ?thesis
      using assms(3,4) kept_bytes_append [OF assms(4), of "take n r"]
      by (intro exI [of _ sl]) auto
  qed
qed

lemma char_loop_bad:
  assumes "spec_char r = Inl e" "r \<noteq> []" "hd r \<noteq> 34"
  shows "builder_loop r p 583 0 sl = None \<or>
    (\<exists>n sl'. 44 \<le> n \<and> n \<le> 51 \<and> builder_loop r p 583 0 sl = Some (n, 0, sl'))"
proof -
  obtain b r1 where r: "r = b # r1" using assms(2) by (cases r) auto
  have b: "b \<noteq> 34" using assms(3) r by simp
  consider (slash) "b = 92" | (close) "b = 93" | (none) "b \<noteq> 92" "b \<noteq> 93" "\<not> b < 128" "utf8_lead b = None"
    | (lead) i where "b \<noteq> 92" "b \<noteq> 93" "\<not> b < 128" "utf8_lead b = Some i"
    using assms(1) r by (cases "utf8_lead b") (auto simp: spec_char_def split: if_splits)
  then show ?thesis
  proof cases
    case slash
    then show ?thesis
      using assms(1) r by (cases r1) (auto simp: spec_char_def loop_583 next_583 loop_44 split: if_splits)
  next
    case close
    then show ?thesis using r by (simp add: loop_583 next_583)
  next
    case none
    then show ?thesis using r b by (simp add: loop_583 next_583)
  next
    case lead
    then obtain k where k: "seq_scan i r1 = (k, False)"
      using assms(1) r by (auto simp: spec_char_def split: prod.splits if_splits)
    have "i \<le> 6"
      using lead(4) by (auto simp: utf8_lead_def split: if_splits)
    from seq_loop [OF this, of r1 "p + 1" 0 sl] show ?thesis
      using k r b lead by (auto simp: loop_583 next_583)
  qed
qed

lemma value_loop:
  "sorted_wrt (<) sl \<Longrightarrow> \<forall>x\<in>set sl. x < length pre \<Longrightarrow>
    value_loop_ok pre r sl (builder_loop r (length pre) 583 0 sl)"
proof (induction "length r" arbitrary: pre r sl rule: less_induct)
  case less
  show ?case
  proof (cases "r = []")
    case True
    with less.prems show ?thesis
      by (simp add: value_loop_ok_def unescape.simps)
  next
    case ne: False
    show ?thesis
    proof (cases "hd r = 34")
      case True
      with ne show ?thesis
        by (cases r) (simp_all add: value_loop_ok_def unescape.simps loop_583 next_583)
    next
      case hd: False
      show ?thesis
      proof (cases "spec_char r")
        case (Inl e)
        with ne hd char_loop_bad [OF Inl ne hd] show ?thesis
          by (simp add: value_loop_ok_def unescape.simps [of r])
      next
        case (Inr x)
        then obtain n t where x: "spec_char r = Inr (n, t)" by (cases x) auto
        from char_loop [OF x hd less.prems] obtain sl' where sl':
          "builder_loop r (length pre) 583 0 sl =
             builder_loop (drop n r) (length (pre @ take n r)) 583 0 sl'"
          "sorted_wrt (<) sl'" "\<forall>x\<in>set sl'. x < length (pre @ take n r)"
          "kept_bytes (pre @ take n r) sl' = kept_bytes pre sl @ t" by blast
        have "length (drop n r) < length r"
          using spec_char_length [OF x] by auto
        from less.hyps [OF this sl'(2,3)] show ?thesis
          using ne hd x sl'(1,4)
          by (auto simp: value_loop_ok_def unescape.simps [of r] split: option.splits)
      qed
    qed
  qed
qed

lemma loop_582: "r \<noteq> [] \<Longrightarrow> builder_loop r 0 582 0 [] = builder_loop r 0 583 0 []"
  by (cases r) (simp_all add: builder_loop.simps builder_next_def builder_sdpv_def
      builder_marks_def builder_slash_def)

lemma set_sdpv_eq:
  "setWithCtx sdpv_entry v e n sm =
    (case unescape v of None \<Rightarrow> Some sm | Some u \<Rightarrow> builder_param_action e n u sm)"
proof (cases "v = []")
  case True
  then show ?thesis
    by (simp add: setWithCtx_def builder_eof_def gslice_def builder_value_action_def unescape.simps)
next
  case False
  have ok: "value_loop_ok [] v [] (builder_loop v 0 582 0 [])"
    using value_loop [of "[]" "[]" v] loop_582 [OF False] by simp
  show ?thesis
  proof (cases "unescape v")
    case None
    with ok show ?thesis
      by (auto simp: value_loop_ok_def setWithCtx_def builder_eof_def gslice_def)
  next
    case (Some u)
    with ok obtain sl where sl: "builder_loop v 0 582 0 [] = Some (583, 0, sl)"
      "sorted_wrt (<) sl" "\<forall>x\<in>set sl. x < length v" "kept_bytes v sl = u"
      by (auto simp: value_loop_ok_def kept_bytes_def)
    have "(if sl \<noteq> [] then RemoveBytes v sl 0 else Some v) = Some u"
      using remove_loop_nths [of sl 0 0 v] sl(2-4)
      by (auto simp: RemoveBytes_def kept_bytes_def nths_all)
    with Some sl(1) show ?thesis
      by (simp add: setWithCtx_def builder_eof_def builder_value_action_def)
  qed
qed


section \<open>The setters, as functions of the message\<close>

text \<open>
  C36: The field setters store the text exactly when the grammar of the field admits it (1 to 255,
  48, 128 and 32 visible characters) and it is not the nil value; any other text leaves the message
  as it is. None of them panics.
\<close>

theorem field_setters_correct:
  "SetHostname v sm = Some (if counted is_graph 255 v \<and> v \<noteq> [45] then sm\<lparr>Hostname := Some v\<rparr> else sm) \<and>
   SetAppname v sm = Some (if counted is_graph 48 v \<and> v \<noteq> [45] then sm\<lparr>Appname := Some v\<rparr> else sm) \<and>
   SetProcID v sm = Some (if counted is_graph 128 v \<and> v \<noteq> [45] then sm\<lparr>ProcID := Some v\<rparr> else sm) \<and>
   SetMsgID v sm = Some (if counted is_graph 32 v \<and> v \<noteq> [45] then sm\<lparr>MsgID := Some v\<rparr> else sm)"
  by (simp only: field_setters simp_thms)

text \<open>
  C37: \<open>SetTimestamp\<close> stores a time exactly for the texts that the parser's timestamp grammar
  accepts as a whole and \<open>time.Parse\<close> reads; the two machines have the same timestamp language.
\<close>

theorem SetTimestamp_correct:
  "SetTimestamp v sm = Some
    (if v \<noteq> [] \<and> is_digit (hd v) \<and> ts_scan 554 (tl v) = (length (tl v), True)
     then (case time_Parse_RFC3339MICRO v of Inl e \<Rightarrow> sm | Inr t \<Rightarrow> sm\<lparr>Timestamp := Some t\<rparr>)
     else sm)"
  using SetTimestamp_eq [of v sm] by (simp only: is_timestamp_def)

lemma fmupd_same: "fmlookup sd e = Some ps \<Longrightarrow> fmupd e ps sd = sd"
  by (intro fmap_ext) auto

text \<open>The effect of a parameter on the parameters of its element.\<close>

definition param_update :: "bytes \<Rightarrow> bytes \<Rightarrow> (bytes, bytes) fmap \<Rightarrow> (bytes, bytes) fmap" where
  "param_update n v ps =
     (let ps1 = (if counted is_sdname 32 n then fmupd n [] ps else ps) in
      if fmlookup ps1 n = None then ps1
      else (case unescape v of None \<Rightarrow> ps1 | Some u \<Rightarrow> fmupd n u ps1))"

lemma keep_data [simp]: "StructuredData sm = Some es \<Longrightarrow> sm\<lparr>StructuredData := Some es\<rparr> = sm"
  by (cases sm) simp

lemma nil_keep [simp]: "StructuredData sm = None \<Longrightarrow> sm\<lparr>StructuredData := None\<rparr> = sm"
  by (cases sm) simp

text \<open>The two steps of \<open>SetParameter\<close> after the element is there.\<close>

lemma SetParameter_after:
  assumes "set_entry sdid_entry e sm = Some sm1" "StructuredData sm1 = Some (Some m)"
    and "fmlookup m e = Some (Some ps)"
  shows "SetParameter e n v sm =
    Some (sm1\<lparr>StructuredData := Some (Some (fmupd e (Some (param_update n v ps)) m))\<rparr>)"
proof -
  define ps1 where "ps1 = (if counted is_sdname 32 n then fmupd n [] ps else ps)"
  define sm2 where "sm2 = sm1\<lparr>StructuredData := Some (Some (fmupd e (Some ps1) m))\<rparr>"
  have sm2: "setWithCtx sdpn_entry n e [] sm1 = Some sm2"
    using assms(2,3) fmupd_same [OF assms(3)]
    by (simp add: set_sdpn_eq builder_param_action_def sm2_def ps1_def)
  have "SetParameter e n v sm =
      (if fmlookup ps1 n \<noteq> None then setWithCtx sdpv_entry v e n sm2 else Some sm2)"
    using assms by (simp add: SetParameter_def sm2 element_at_def) (simp add: sm2_def element_at_def)
  also have "\<dots> = Some (sm1\<lparr>StructuredData := Some (Some (fmupd e (Some (param_update n v ps)) m))\<rparr>)"
    by (cases "unescape v")
      (simp_all add: set_sdpv_eq param_update_def Let_def builder_param_action_def sm2_def flip: ps1_def)
  finally show ?thesis .
qed

text \<open>The method as one function of the message.\<close>

lemma SetParameter_eq:
  "SetParameter e n v sm =
    (case (if StructuredData sm = None \<and> counted is_sdname 32 e then Some (Some fmempty) else StructuredData sm) of
       None \<Rightarrow> Some sm
     | Some None \<Rightarrow> if counted is_sdname 32 e then None else Some sm
     | Some (Some m) \<Rightarrow>
         (case (if fmlookup m e = None \<and> counted is_sdname 32 e then Some (Some fmempty) else fmlookup m e) of
            None \<Rightarrow> Some sm
          | Some None \<Rightarrow> if counted is_sdname 32 n then None else Some sm
          | Some (Some ps) \<Rightarrow>
              Some (sm\<lparr>StructuredData := Some (Some (fmupd e (Some (param_update n v ps)) m))\<rparr>)))"
proof -
  consider (nothing) "StructuredData sm = None" | (nil) "StructuredData sm = Some None"
    | (new) m where "StructuredData sm = Some (Some m)" "fmlookup m e = None"
    | (nil_params) m where "StructuredData sm = Some (Some m)" "fmlookup m e = Some None"
    | (there) m ps where "StructuredData sm = Some (Some m)" "fmlookup m e = Some (Some ps)"
    by (metis not_None_eq)
  then show ?thesis
  proof cases
    case nothing
    then show ?thesis
      using SetParameter_after [of e sm "sm\<lparr>StructuredData := Some (Some (fmupd e (Some fmempty) fmempty))\<rparr>"
          "fmupd e (Some fmempty) fmempty" fmempty n v]
      by (simp add: set_sdid_eq builder_sdid_action_def element_at_def) (simp add: SetParameter_def set_sdid_eq)
  next
    case nil
    then show ?thesis
      by (simp add: SetParameter_def set_sdid_eq builder_sdid_action_def element_at_def)
  next
    case new
    then show ?thesis
      using SetParameter_after [of e sm "sm\<lparr>StructuredData := Some (Some (fmupd e (Some fmempty) m))\<rparr>"
          "fmupd e (Some fmempty) m" fmempty n v]
      by (simp add: set_sdid_eq builder_sdid_action_def element_at_def)
        (simp add: SetParameter_def set_sdid_eq element_at_def)
  next
    case nil_params
    then show ?thesis
      by (simp add: SetParameter_def set_sdid_eq set_sdpn_eq builder_sdid_action_def builder_param_action_def
          element_at_def)
  next
    case there
    then show ?thesis
      using SetParameter_after [of e sm sm m ps n v]
      by (simp add: set_sdid_eq builder_sdid_action_def element_at_def)
  qed
qed

text \<open>
  C38: \<open>SetParameter\<close> creates the structured data and the element if they are not there and the id is
  well formed. In the element a well-formed name is set to the empty string first and then, like any
  name that is there, to the value with its escapes removed if the value is well formed: an existing
  parameter is overwritten, although the comment on the method says that the operation is discarded.
  It panics exactly when it has to write to a nil map: for a well-formed id that is to be added to
  structured data that is a nil map, and for a well-formed name in an element that is a nil map.
\<close>

theorem SetParameter_correct:
  "SetParameter e n v sm =
    (case (if StructuredData sm = None \<and> counted is_sdname 32 e then Some (Some fmempty) else StructuredData sm) of
       None \<Rightarrow> Some sm
     | Some None \<Rightarrow> if counted is_sdname 32 e then None else Some sm
     | Some (Some m) \<Rightarrow>
         (case (if fmlookup m e = None \<and> counted is_sdname 32 e then Some (Some fmempty) else fmlookup m e) of
            None \<Rightarrow> Some sm
          | Some None \<Rightarrow> if counted is_sdname 32 n then None else Some sm
          | Some (Some ps) \<Rightarrow>
              Some (sm\<lparr>StructuredData := Some (Some (fmupd e (Some (param_update n v ps)) m))\<rparr>)))"
  by (rule SetParameter_eq)

text \<open>
  Setting a parameter that exists already with a value that is not well formed loses the stored
  value: the parameter becomes empty.
\<close>

theorem SetParameter_overwrites:
  assumes "StructuredData sm = Some (Some m)" "fmlookup m e = Some (Some ps)" "fmlookup ps n = Some old"
    and "counted is_sdname 32 e" "counted is_sdname 32 n" "unescape v = None"
  shows "SetParameter e n v sm =
    Some (sm\<lparr>StructuredData := Some (Some (fmupd e (Some (fmupd n [] ps)) m))\<rparr>)"
  using assms by (simp add: SetParameter_eq param_update_def)

text \<open>The parameter x="old" of the element a, set to the ill-formed value q].\<close>

theorem SetParameter_overwrites_witness:
  "let ps = fmupd [120] (lit ''old'') fmempty; sd = fmupd [97] (Some ps) fmempty in
   SetParameter [97] [120] [113, 93] (SyslogMessage_zero\<lparr>StructuredData := Some (Some sd)\<rparr>) =
     Some (SyslogMessage_zero\<lparr>StructuredData := Some (Some (fmupd [97] (Some (fmupd [120] [] ps)) sd))\<rparr>)"
  unfolding Let_def
  by (subst SetParameter_overwrites [where old = "lit ''old''" and
        ps = "fmupd [120] (lit ''old'') fmempty" and
        m = "fmupd [97] (Some (fmupd [120] (lit ''old'') fmempty)) fmempty"])
    (auto simp: counted_def is_sdname_def unescape.simps spec_char_def)

section \<open>Messages without nil maps\<close>

text \<open>On a message that holds no nil map the setters do not panic, and they leave no nil map behind.\<close>

definition no_nil :: "SyslogMessage \<Rightarrow> bool" where
  "no_nil sm \<longleftrightarrow> (case StructuredData sm of None \<Rightarrow> True | Some es \<Rightarrow> es = made (nil_is_empty es))"

lemma no_nil_cases:
  assumes "no_nil sm"
  obtains "StructuredData sm = None" | sd where "StructuredData sm = Some (Some (fmmap Some sd))"
  using assms by (cases "StructuredData sm") (auto simp: no_nil_def made_def)

lemma no_nil_put:
  "no_nil (sm\<lparr>StructuredData := Some (Some (fmupd e (Some ps) (fmmap Some sd)))\<rparr>)"
proof -
  have "Some (fmupd e (Some ps) (fmmap Some sd)) = made (fmupd e ps sd)"
    unfolding made_def by (intro arg_cong [where f = Some] fmap_ext) simp
  then show ?thesis
    by (simp add: no_nil_def)
qed

lemma SetElementID_no_nil:
  assumes "no_nil sm"
  shows "\<exists>sm'. SetElementID v sm = Some sm' \<and> no_nil sm'"
  using assms
proof (rule no_nil_cases)
  assume "StructuredData sm = None"
  then show ?thesis
    using assms no_nil_put [where sm = sm and e = v and ps = fmempty and sd = fmempty]
    by (simp add: SetElementID_def set_sdid_eq builder_sdid_action_def element_at_def)
next
  fix sd
  assume "StructuredData sm = Some (Some (fmmap Some sd))"
  then show ?thesis
    using assms no_nil_put [where sm = sm and e = v and ps = fmempty and sd = sd]
    by (auto simp: SetElementID_def set_sdid_eq builder_sdid_action_def element_at_def)
qed

lemma SetParameter_no_nil:
  assumes "no_nil sm"
  shows "\<exists>sm'. SetParameter e n v sm = Some sm' \<and> no_nil sm'"
  using assms
proof (rule no_nil_cases)
  assume "StructuredData sm = None"
  then show ?thesis
    using assms no_nil_put [where sm = sm and e = e and sd = fmempty] by (simp add: SetParameter_eq)
next
  fix sd
  assume "StructuredData sm = Some (Some (fmmap Some sd))"
  then show ?thesis
    using assms no_nil_put [where sm = sm and e = e and sd = sd]
    by (auto simp: SetParameter_eq split: option.split)
qed

end
