(* ===== verification/RFC5424_Escape.thy ===== *)
theory RFC5424_Escape
  imports RFC5424_Builder
begin

text \<open>
  Escaped parameter values: what the machine removes and the builder adds, and the UTF-8 sequences
  that both grammars accept in them, byte by byte.
\<close>

lemma utf8_cont_simps:
  "utf8_cont 0 b = (if in_range 128 191 b then Some None else None)"
  "utf8_cont (Suc 0) b = (if in_range 160 191 b then Some (Some 0) else None)"
  "utf8_cont 1 b = (if in_range 160 191 b then Some (Some 0) else None)"
  "utf8_cont 2 b = (if in_range 128 191 b then Some (Some 0) else None)"
  "utf8_cont 3 b = (if in_range 128 159 b then Some (Some 0) else None)"
  "utf8_cont 4 b = (if in_range 144 191 b then Some (Some 2) else None)"
  "utf8_cont 5 b = (if in_range 128 191 b then Some (Some 2) else None)"
  "utf8_cont 6 b = (if in_range 128 143 b then Some (Some 2) else None)"
  by (simp_all add: utf8_cont_def)

definition seq_width :: "nat \<Rightarrow> bytes \<Rightarrow> nat option" where
  "seq_width i r = (case seq_scan i r of (k, ok) \<Rightarrow> if ok then Some (k + 1) else None)"

lemma tail_range: "in_range 128 191 b = utf8_tail b"
  by (simp add: in_range_def utf8_tail_def)

lemma seq_width_simps:
  "seq_width 0 r = (case r of b # _ \<Rightarrow> if utf8_tail b then Some 2 else None | [] \<Rightarrow> None)"
  "seq_width 2 r = (case r of b # c # _ \<Rightarrow> if utf8_tail b \<and> utf8_tail c then Some 3 else None | _ \<Rightarrow> None)"
  "seq_width (Suc 0) r = (case r of b # c # _ \<Rightarrow> if in_range 160 191 b \<and> utf8_tail c then Some 3 else None | _ \<Rightarrow> None)"
  "seq_width 3 r = (case r of b # c # _ \<Rightarrow> if in_range 128 159 b \<and> utf8_tail c then Some 3 else None | _ \<Rightarrow> None)"
  "seq_width 4 r = (case r of b # c # d # _ \<Rightarrow> if in_range 144 191 b \<and> utf8_tail c \<and> utf8_tail d then Some 4 else None | _ \<Rightarrow> None)"
  "seq_width 5 r = (case r of b # c # d # _ \<Rightarrow> if utf8_tail b \<and> utf8_tail c \<and> utf8_tail d then Some 4 else None | _ \<Rightarrow> None)"
  "seq_width 6 r = (case r of b # c # d # _ \<Rightarrow> if in_range 128 143 b \<and> utf8_tail c \<and> utf8_tail d then Some 4 else None | _ \<Rightarrow> None)"
  by (simp_all add: seq_width_def utf8_cont_simps tail_range split: list.split)

lemma rune_width_lead:
  assumes "\<not> b < 128"
  shows "rune_width (b # r) = (case utf8_lead b of None \<Rightarrow> None | Some i \<Rightarrow> seq_width i r)"
proof -
  have "in_range 194 223 b \<or> b = 224 \<or> b = 237 \<or> in_range 225 239 b \<and> b \<noteq> 237 \<or> b = 240 \<or>
      b = 244 \<or> in_range 241 243 b \<or>
      \<not> in_range 194 223 b \<and> \<not> in_range 224 239 b \<and> \<not> in_range 240 244 b"
    by (simp add: in_range_def word_le_nat_alt word_unat_eq_iff) linarith
  then consider (two) "in_range 194 223 b" | (e0) "b = 224" | (ed) "b = 237"
    | (three) "in_range 225 239 b" "b \<noteq> 237" | (f0) "b = 240" | (f4) "b = 244"
    | (four) "in_range 241 243 b"
    | (none) "\<not> in_range 194 223 b" "\<not> in_range 224 239 b" "\<not> in_range 240 244 b"
    by blast
  then show ?thesis
  proof cases
    case two
    then show ?thesis using assms
      by (simp add: rune_width.simps utf8_lead_def seq_width_simps)
  next
    case e0
    then show ?thesis
      by (simp add: rune_width.simps utf8_lead_def seq_width_simps in_range_def split: list.split)
  next
    case ed
    then show ?thesis
      by (simp add: rune_width.simps utf8_lead_def seq_width_simps in_range_def split: list.split)
  next
    case three
    then have "b \<noteq> 224" "\<not> in_range 194 223 b" "in_range 224 239 b"
      by (auto simp: in_range_def word_le_nat_alt)
    with three assms show ?thesis
      by (simp add: rune_width.simps utf8_lead_def seq_width_simps split: list.split)
  next
    case f0
    then show ?thesis
      by (simp add: rune_width.simps utf8_lead_def seq_width_simps in_range_def split: list.split)
  next
    case f4
    then show ?thesis
      by (simp add: rune_width.simps utf8_lead_def seq_width_simps in_range_def split: list.split)
  next
    case four
    then have "b \<noteq> 240" "b \<noteq> 244" "\<not> in_range 194 223 b" "\<not> in_range 224 239 b" "in_range 240 244 b"
      "b \<noteq> 224" "b \<noteq> 237" "\<not> in_range 225 239 b"
      by (auto simp: in_range_def word_le_nat_alt)
    with four assms show ?thesis
      by (simp add: rune_width.simps utf8_lead_def seq_width_simps split: list.split)
  next
    case none
    then have "b \<noteq> 240" "b \<noteq> 244" "b \<noteq> 224" "b \<noteq> 237" "\<not> in_range 225 239 b" "\<not> in_range 241 243 b"
      by (auto simp: in_range_def word_le_nat_alt)
    with none assms show ?thesis
      by (simp add: rune_width.simps utf8_lead_def)
  qed
qed


lemma rune_width_ascii: "b < 128 \<Longrightarrow> rune_width (b # r) = Some 1"
  by (simp add: rune_width.simps)

lemma msg_scan_valid: "snd (msg_scan r) = valid_utf8 r \<and> fst (msg_scan r) \<le> length r \<and>
    (snd (msg_scan r) \<longrightarrow> fst (msg_scan r) = length r)"
proof (induction r rule: msg_scan.induct)
  case (1 r)
  show ?case
  proof (cases r)
    case Nil
    then show ?thesis by (simp add: msg_scan.simps valid_utf8.simps)
  next
    case (Cons b r1)
    show ?thesis
    proof (cases "b < 128")
      case True
      then show ?thesis
        using 1(1) [OF Cons True] Cons
        by (auto simp: msg_scan.simps [of "b # r1"] valid_utf8.simps [of "b # r1"] rune_width_ascii
            split: prod.splits)
    next
      case False
      show ?thesis
      proof (cases "utf8_lead b")
        case None
        with False Cons show ?thesis
          by (simp add: msg_scan.simps [of "b # r1"] valid_utf8.simps [of "b # r1"] rune_width_lead)
      next
        case (Some i)
        obtain n ok where n: "seq_scan i r1 = (n, ok)" by fastforce
        show ?thesis
        proof (cases ok)
          case True
          have "snd (msg_scan (drop n r1)) = valid_utf8 (drop n r1) \<and>
              fst (msg_scan (drop n r1)) \<le> length (drop n r1) \<and>
              (snd (msg_scan (drop n r1)) \<longrightarrow> fst (msg_scan (drop n r1)) = length (drop n r1))"
            using 1(2) [OF Cons False Some n [symmetric]] True by simp
          then show ?thesis
            using Cons False Some n True seq_scan_len [OF n]
            by (auto simp: msg_scan.simps [of "b # r1"] valid_utf8.simps [of "b # r1"] rune_width_lead
                seq_width_def split: prod.splits)
        next
          case bad: False
          then show ?thesis
            using Cons False Some n seq_scan_len [OF n]
            by (simp add: msg_scan.simps [of "b # r1"] valid_utf8.simps [of "b # r1"] rune_width_lead seq_width_def)
        qed
      qed
    qed
  qed
qed


lemma seq_scan_take: "seq_scan i r = (k, True) \<Longrightarrow> seq_scan i (take k r @ x) = (k, True)"
proof (induction i r arbitrary: k rule: seq_scan.induct)
  case (1 i)
  then show ?case by simp
next
  case (2 i b r)
  show ?case
  proof (cases "utf8_cont i b")
    case None
    with 2(2) show ?thesis by simp
  next
    case (Some y)
    then show ?thesis
      using 2 by (cases y) (auto split: prod.splits)
  qed
qed

lemma toescape_ascii: "toescape b \<Longrightarrow> b < 128"
  by (auto simp: toescape_def)

text \<open>One character of an escaped text is read back.\<close>

lemma escaped_char:
  assumes "rune_width v = Some w"
  defines "e \<equiv> (if toescape (hd v) then [92] else []) @ take w v"
  shows "spec_char (e @ x) = Inr (length e, take w v)" "hd (e @ x) \<noteq> 34" "e \<noteq> []"
proof -
  obtain b r where v: "v = b # r"
    using assms(1) by (cases v) (simp_all add: rune_width.simps)
  have w: "1 \<le> w" "w \<le> length v"
    using rune_width_bounds [OF assms(1)] by simp_all
  have "spec_char (e @ x) = Inr (length e, take w v) \<and> hd (e @ x) \<noteq> 34"
  proof (cases "b < 128")
    case True
    then have "w = 1"
      using assms(1) v by (simp add: rune_width_ascii)
    with True v show ?thesis
      by (auto simp: e_def spec_char_def toescape_def)
  next
    case False
    then have ne: "\<not> toescape b" "b \<noteq> 34" "b \<noteq> 92" "b \<noteq> 93"
      using toescape_ascii [of b] by (auto simp: toescape_def)
    obtain i k where i: "utf8_lead b = Some i" "seq_scan i r = (k, True)" "w = k + 1"
      using assms(1) False v
      by (auto simp: rune_width_lead seq_width_def split: option.splits prod.splits if_splits)
    have "k \<le> length r"
      using w v i(3) by simp
    then show ?thesis
      using False v i ne seq_scan_take [OF i(2), of x]
      by (simp add: e_def spec_char_def min_def)
  qed
  then show "spec_char (e @ x) = Inr (length e, take w v)" "hd (e @ x) \<noteq> 34" by simp_all
  show "e \<noteq> []"
    using w v by (simp add: e_def)
qed

lemma EscapeBytes_step:
  "rune_width v = Some w \<Longrightarrow>
    EscapeBytes v = ((if toescape (hd v) then [92] else []) @ take w v) @ EscapeBytes (drop w v)"
  by (cases v, simp add: rune_width.simps, subst EscapeBytes.simps, simp)

lemma valid_utf8_step:
  "valid_utf8 v \<Longrightarrow> v \<noteq> [] \<Longrightarrow> \<exists>w. rune_width v = Some w \<and> valid_utf8 (drop w v)"
  by (simp add: valid_utf8.simps [of v] split: option.splits)

lemma spec_value_escaped:
  "valid_utf8 v \<Longrightarrow>
    spec_value col (EscapeBytes v @ 34 # r) acc = Inr (col + length (EscapeBytes v) + 1, r, acc @ v)"
proof (induction "length v" arbitrary: v col acc rule: less_induct)
  case less
  show ?case
  proof (cases "v = []")
    case True
    then show ?thesis by (simp add: EscapeBytes.simps spec_value.simps)
  next
    case False
    from valid_utf8_step [OF less.prems False] obtain w where
      w: "rune_width v = Some w" "valid_utf8 (drop w v)" by blast
    let ?e = "(if toescape (hd v) then [92] else []) @ take w v"
    let ?x = "EscapeBytes (drop w v) @ 34 # r"
    have v: "EscapeBytes v @ 34 # r = ?e @ ?x" "length (EscapeBytes v) = length ?e + length (EscapeBytes (drop w v))"
      using EscapeBytes_step [OF w(1)] by simp_all
    note c = escaped_char(1,2) [OF w(1), of ?x] escaped_char(3) [OF w(1)]
    have "spec_value col (?e @ ?x) acc = spec_value (col + length ?e) (drop (length ?e) (?e @ ?x)) (acc @ take w v)"
      using c by (subst spec_value.simps) (simp del: append_assoc append.simps)
    also have "drop (length ?e) (?e @ ?x) = ?x"
      by simp
    also have "spec_value (col + length ?e) ?x (acc @ take w v) =
        Inr (col + length ?e + length (EscapeBytes (drop w v)) + 1, r, (acc @ take w v) @ drop w v)"
      using less.hyps w rune_width_bounds [OF w(1)] by auto
    finally show ?thesis
      unfolding v by simp
  qed
qed

lemma unescape_escaped: "valid_utf8 v \<Longrightarrow> unescape (EscapeBytes v) = Some v"
proof (induction "length v" arbitrary: v rule: less_induct)
  case less
  show ?case
  proof (cases "v = []")
    case True
    then show ?thesis by (simp add: EscapeBytes.simps unescape.simps)
  next
    case False
    from valid_utf8_step [OF less.prems False] obtain w where
      w: "rune_width v = Some w" "valid_utf8 (drop w v)" by blast
    define e where "e = (if toescape (hd v) then [92] else []) @ take w v"
    note c = escaped_char(1,2) [OF w(1), of "EscapeBytes (drop w v)", folded e_def]
      escaped_char(3) [OF w(1), folded e_def]
    have "unescape (EscapeBytes (drop w v)) = Some (drop w v)"
      using less.hyps w rune_width_bounds [OF w(1)] by auto
    then show ?thesis
      unfolding EscapeBytes_step [OF w(1), folded e_def] using c
      by (subst unescape.simps) simp
  qed
qed

end
