(* ===== verification/Decimal.thy ===== *)
theory Decimal
  imports Common
begin

text \<open>
  Decimal numerals as \<open>fmt\<close> and \<open>strconv\<close> print them, with their value, digits and length.
\<close>

definition dig :: "nat \<Rightarrow> byte" where
  "dig n = of_nat (48 + n)"

lemma unat_dig: "n \<le> 9 \<Longrightarrow> unat (dig n) = 48 + n"
  unfolding dig_def by (simp add: unsigned_of_nat take_bit_nat_eq_self del: of_nat_add)

lemma mod10 [simp]: "n mod 10 \<le> (9 :: nat)"
  by presburger

lemma dig_simps [simp]:
  assumes "n \<le> 9"
  shows "is_digit (dig n)" "is_nonzero_digit (dig n) \<longleftrightarrow> n \<noteq> 0"
    and "is_graph (dig n)" "dig n = 48 \<longleftrightarrow> n = 0"
  using assms unat_dig [OF assms]
  by (auto simp: byte_class word_le_nat_alt word_unat_eq_iff)

text \<open>\<open>%d\<close> of a natural number.\<close>

fun dec_string :: "nat \<Rightarrow> bytes" where
  "dec_string n = (if n < 10 then [dig n] else dec_string (n div 10) @ [dig (n mod 10)])"

declare dec_string.simps [simp del]

lemma dec_string_value: "dec_value (dec_string n) 0 = n"
  by (induction n rule: dec_string.induct)
    (subst dec_string.simps, auto simp: dec_value_append unat_dig)

lemma dec_string_digits: "list_all is_digit (dec_string n) \<and> dec_string n \<noteq> []"
proof (induction n rule: dec_string.induct)
  case (1 n)
  then show ?case
    by (cases "n < 10") (simp_all add: dec_string.simps [of n])
qed

lemma dec_string_hd: "hd (dec_string n) = 48 \<longleftrightarrow> n = 0"
proof (induction n rule: dec_string.induct)
  case (1 n)
  show ?case
  proof (cases "n < 10")
    case True
    then show ?thesis by (subst dec_string.simps) simp
  next
    case False
    then have "n div 10 \<noteq> 0" by auto
    with 1 False show ?thesis
      using dec_string_digits [of "n div 10"] by (subst dec_string.simps) simp
  qed
qed

lemma dec_string_length: "n < 10 ^ Suc k \<Longrightarrow> length (dec_string n) \<le> Suc k"
proof (induction k arbitrary: n)
  case 0
  then show ?case by (subst dec_string.simps) simp
next
  case (Suc k)
  then have "n div 10 < 10 ^ Suc k"
    by (simp add: less_mult_imp_div_less mult.commute)
  then show ?case
    using Suc.IH [of "n div 10"] by (subst dec_string.simps) auto
qed

lemma dec_string_zero: "dec_string 0 = [48]"
  by (subst dec_string.simps) (simp add: dig_def)

end
