(* ===== verification/GoDigits.thy ===== *)
theory GoDigits
  imports GoTime Decimal
begin

text \<open>Two-digit numbers as package \<open>time\<close> prints and reads them.\<close>

lemma digit_val_dig [simp]: "n \<le> 9 \<Longrightarrow> digit_val (dig n) = n"
  by (simp add: digit_val_def unat_dig)

text \<open>\<open>appendInt\<close> of package time, zero-padded to two digits.\<close>

definition pad2 :: "nat \<Rightarrow> bytes" where
  "pad2 n = [dig (n div 10 mod 10), dig (n mod 10)]"

lemma getnum_pad2: "n \<le> 99 \<Longrightarrow> getnum (pad2 n @ r) fixed = Some (n, r)"
  by (simp add: pad2_def)

lemma dig_ranges [simp]:
  assumes "n \<le> 9"
  shows "in_range 48 49 (dig n) \<longleftrightarrow> n \<le> 1" "in_range 48 50 (dig n) \<longleftrightarrow> n \<le> 2"
    "in_range 48 51 (dig n) \<longleftrightarrow> n \<le> 3" "in_range 48 53 (dig n) \<longleftrightarrow> n \<le> 5"
    "in_range 49 50 (dig n) \<longleftrightarrow> 1 \<le> n \<and> n \<le> 2" "in_range 49 57 (dig n) \<longleftrightarrow> 1 \<le> n"
    "dig n = 49 \<longleftrightarrow> n = 1" "dig n = 50 \<longleftrightarrow> n = 2" "dig n = 51 \<longleftrightarrow> n = 3"
    "dig n \<noteq> 43" "dig n \<noteq> 45" "dig n \<noteq> 46" "dig n \<noteq> 90"
  using assms unat_dig [OF assms]
  by (auto simp: in_range_def word_le_nat_alt word_unat_eq_iff)

lemma div10: "(n :: nat) \<le> 99 \<Longrightarrow> n div 10 mod 10 = n div 10 \<and> n div 10 \<le> 9"
  by simp

end
