(* ===== verification/RFC5424_String.thy ===== *)
theory RFC5424_String
  imports RFC5424_Escape GoDigits "HOL-Library.List_Lexorder"
begin

text \<open>
  rfc5424/builder.go, \<open>String\<close>: the text of a message, with \<open>fmt.Sprintf\<close>'s decimal numbers,
  \<open>sort.Strings\<close> on the keys of the maps and \<open>time.Format\<close> at the RFC3339MICRO layout.
\<close>

section \<open>Numbers\<close>

text \<open>\<open>appendInt\<close> of package time, zero-padded to four digits.\<close>

definition pad4 :: "nat \<Rightarrow> bytes" where
  "pad4 n = [dig (n div 1000 mod 10), dig (n div 100 mod 10), dig (n div 10 mod 10), dig (n mod 10)]"

section \<open>Times\<close>

text \<open>
  The fraction of \<open>.999999\<close>: six digits (the rest is cut off) without trailing zeros, and nothing
  when none is left.
\<close>

definition micro_digits :: "nat \<Rightarrow> bytes" where
  "micro_digits us =
     [dig (us div 100000 mod 10), dig (us div 10000 mod 10), dig (us div 1000 mod 10),
      dig (us div 100 mod 10), dig (us div 10 mod 10), dig (us mod 10)]"

definition trim_zeros :: "bytes \<Rightarrow> bytes" where
  "trim_zeros ds = rev (dropWhile (\<lambda>b. b = 48) (rev ds))"

definition format_frac :: "nat \<Rightarrow> bytes" where
  "format_frac nsec =
     (let ds = trim_zeros (micro_digits (nsec div 1000)) in if ds = [] then [] else 46 # ds)"

definition format_zone :: "zone \<Rightarrow> bytes" where
  "format_zone z =
     (let off = zone_offset z; mins = nat \<bar>off\<bar> div 60 in
      if off = 0 then [90]
      else (if off < 0 \<and> mins > 0 then 45 else 43) # pad2 (mins div 60) @ [58] @ pad2 (mins mod 60))"

definition format_year :: "int \<Rightarrow> bytes" where
  "format_year y =
     (let u = nat \<bar>y\<bar> in
      (if y < 0 then [45] else []) @ (if u < 10000 then pad4 u else dec_string u))"

definition time_Format_RFC3339MICRO :: "gotime \<Rightarrow> bytes" where
  "time_Format_RFC3339MICRO t =
     format_year (t_year t) @ [45] @ pad2 (t_month t) @ [45] @ pad2 (t_day t) @ [84] @ pad2 (t_hour t) @
     [58] @ pad2 (t_min t) @ [58] @ pad2 (t_sec t) @ format_frac (t_nsec t) @ format_zone (t_zone t)"

text \<open>A time that the layout can express: a calendar date, and a zone of less than a day.\<close>

definition valid_time :: "gotime \<Rightarrow> bool" where
  "valid_time t \<longleftrightarrow>
     0 \<le> t_year t \<and> t_year t \<le> 9999 \<and> 1 \<le> t_month t \<and> t_month t \<le> 12 \<and>
     1 \<le> t_day t \<and> t_day t \<le> daysIn (t_month t) (t_year t) \<and>
     t_hour t < 24 \<and> t_min t < 60 \<and> t_sec t < 60 \<and> t_nsec t < 1000000000 \<and>
     \<bar>zone_offset (t_zone t)\<bar> < 86400"

text \<open>What the text keeps: microseconds, and whole minutes of the zone.\<close>

definition micro_time :: "gotime \<Rightarrow> gotime" where
  "micro_time t =
     t\<lparr>t_nsec := t_nsec t div 1000 * 1000,
       t_zone := (let off = zone_offset (t_zone t); mins = nat \<bar>off\<bar> div 60 in
                  if off = 0 then UTC
                  else FixedZone (if off < 0 then - int (mins * 60) else int (mins * 60)))\<rparr>"

lemma get_year_pad4: "n \<le> 9999 \<Longrightarrow> get_year (pad4 n @ r) = Some (n, r)"
proof -
  assume n: "n \<le> 9999"
  have "n div 1000 \<le> 9" "n div 1000 mod 10 = n div 1000"
    using n by simp_all
  moreover have "10 * (10 * (10 * (n div 1000) + n div 100 mod 10) + n div 10 mod 10) + n mod 10 = n"
  proof -
    have "10 * (n div 1000) + n div 100 mod 10 = n div 100"
      using div_mult2_eq [of n 100 10] mult_div_mod_eq [of 10 "n div 100"] by simp
    moreover have "10 * (n div 100) + n div 10 mod 10 = n div 10"
      using div_mult2_eq [of n 10 10] mult_div_mod_eq [of 10 "n div 10"] by simp
    moreover have "10 * (n div 10) + n mod 10 = n"
      by simp
    ultimately show ?thesis by simp
  qed
  ultimately show ?thesis
    by (simp add: pad4_def unat_dig)
qed


lemma dec_value_zeros: "dec_value (xs @ replicate k 48) 0 = dec_value xs 0 * 10 ^ k"
proof (induction k)
  case 0
  then show ?case by simp
next
  case (Suc k)
  have "xs @ replicate (Suc k) 48 = (xs @ replicate k 48) @ [48]"
    by (simp add: replicate_append_same)
  then show ?case
    using Suc by (simp only: dec_value_append) simp
qed

lemma trim_zeros_split: "\<exists>k. ds = trim_zeros ds @ replicate k 48"
proof -
  have "\<forall>b\<in>set (takeWhile (\<lambda>b. b = 48) (rev ds)). b = 48"
    by (auto dest: set_takeWhileD)
  then have "takeWhile (\<lambda>b. b = 48) (rev ds) = replicate (length (takeWhile (\<lambda>b. b = 48) (rev ds))) 48"
    by (simp add: replicate_length_same)
  then have "rev ds = replicate (length (takeWhile (\<lambda>b. b = 48) (rev ds))) 48 @ dropWhile (\<lambda>b. b = 48) (rev ds)"
    using takeWhile_dropWhile_id [of "\<lambda>b. b = 48" "rev ds"] by metis
  then have "ds = rev (replicate (length (takeWhile (\<lambda>b. b = 48) (rev ds))) 48 @ dropWhile (\<lambda>b. b = 48) (rev ds))"
    by (metis rev_rev_ident)
  then show ?thesis
    unfolding trim_zeros_def by (metis rev_append rev_replicate)
qed

lemma micro_digits_value:
  assumes "us < 1000000"
  shows "dec_value (micro_digits us) 0 = us"
proof -
  have "us div 100000 \<le> 9" "us div 100000 mod 10 = us div 100000"
    using assms by simp_all
  moreover have "10 * (us div 100000) + us div 10000 mod 10 = us div 10000"
    using div_mult2_eq [of us 10000 10] mult_div_mod_eq [of 10 "us div 10000"] by simp
  moreover have "10 * (us div 10000) + us div 1000 mod 10 = us div 1000"
    using div_mult2_eq [of us 1000 10] mult_div_mod_eq [of 10 "us div 1000"] by simp
  moreover have "10 * (us div 1000) + us div 100 mod 10 = us div 100"
    using div_mult2_eq [of us 100 10] mult_div_mod_eq [of 10 "us div 100"] by simp
  moreover have "10 * (us div 100) + us div 10 mod 10 = us div 10"
    using div_mult2_eq [of us 10 10] mult_div_mod_eq [of 10 "us div 10"] by simp
  moreover have "10 * (us div 10) + us mod 10 = us"
    by simp
  ultimately show ?thesis
    unfolding micro_digits_def dec_value.simps by (simp only: unat_dig mod10 diff_add_inverse mult_0_right add_0)
qed

lemma micro_digits_digits: "list_all is_digit (micro_digits us)" "length (micro_digits us) = 6"
  by (simp_all add: micro_digits_def)

lemma trim_zeros_digits:
  "list_all is_digit ds \<Longrightarrow> list_all is_digit (trim_zeros ds) \<and> length (trim_zeros ds) \<le> length ds"
  using trim_zeros_split [of ds] by (metis list_all_append length_append le_add1)

lemma trim_zeros_value:
  assumes "length ds \<le> 9"
  shows "dec_value (trim_zeros ds) 0 * 10 ^ (9 - length (trim_zeros ds)) =
    dec_value ds 0 * 10 ^ (9 - length ds)"
proof -
  obtain k where k: "ds = trim_zeros ds @ replicate k 48"
    using trim_zeros_split by blast
  then have "9 - length (trim_zeros ds) = k + (9 - length ds)"
    using assms by (metis (no_types, lifting) Nat.add_diff_assoc2 add.commute diff_add_inverse
        le_add_diff_inverse length_append length_replicate diff_diff_left)
  moreover have "dec_value ds 0 = dec_value (trim_zeros ds) 0 * 10 ^ k"
    using k dec_value_zeros [of "trim_zeros ds" k] by simp
  ultimately show ?thesis
    by (simp add: power_add)
qed

definition no_frac :: "bytes \<Rightarrow> bool" where
  "no_frac z \<longleftrightarrow> z \<noteq> [] \<and> hd z \<noteq> 46 \<and> hd z \<noteq> 44 \<and> \<not> is_digit (hd z)"

lemma get_frac_format:
  assumes "ns < 1000000000" "no_frac z"
  shows "get_frac (format_frac ns @ z) = (ns div 1000 * 1000, z)"
proof -
  define ds where "ds = trim_zeros (micro_digits (ns div 1000))"
  have ds: "list_all is_digit ds" "length ds \<le> 6"
    using trim_zeros_digits [of "micro_digits (ns div 1000)"] micro_digits_digits
    by (simp_all add: ds_def)
  have val: "dec_value ds 0 * 10 ^ (9 - length ds) = ns div 1000 * 1000"
    using trim_zeros_value [of "micro_digits (ns div 1000)"] micro_digits_value [of "ns div 1000"]
      micro_digits_digits(2) assms(1)
    by (simp add: ds_def)
  obtain c z' where z: "z = c # z'" "c \<noteq> 46" "c \<noteq> 44" "\<not> is_digit c"
    using assms(2) by (cases z) (auto simp: no_frac_def)
  show ?thesis
  proof (cases ds)
    case Nil
    then have "format_frac ns = []"
      unfolding format_frac_def Let_def ds_def [symmetric] by simp
    moreover have "ns div 1000 * 1000 = 0"
      using val Nil by simp
    ultimately show ?thesis
      using z by (cases z') (simp_all add: get_frac_def)
  next
    case (Cons d ds')
    have tw: "takeWhile is_digit (ds @ z) = ds" "dropWhile is_digit (ds @ z) = z"
      using ds(1) z by (simp_all add: takeWhile_append2 dropWhile_append2 list_all_iff)
    have "format_frac ns @ z = 46 # ds @ z"
      using Cons by (simp add: format_frac_def Let_def flip: ds_def)
    then have "get_frac (format_frac ns @ z) =
        (dec_value (take 9 ds) 0 * 10 ^ (9 - length (take 9 ds)), z)"
      using Cons ds(1) tw by (simp add: get_frac_def Let_def)
    then show ?thesis
      using ds(2) val by simp
  qed
qed

lemma get_zone_format:
  assumes "\<bar>zone_offset z\<bar> < 86400"
  shows "get_zone (format_zone z) = Inr
    (let off = zone_offset z; mins = nat \<bar>off\<bar> div 60 in
     if off = 0 then UTC
     else FixedZone (if off < 0 then - int (mins * 60) else int (mins * 60)), [])"
proof -
  define mins where "mins = nat \<bar>zone_offset z\<bar> div 60"
  have m: "mins < 1440"
    using assms by (simp add: mins_def)
  then have h: "mins div 60 \<le> 23" "mins mod 60 \<le> 59"
    by auto
  have parts: "(mins div 60) * 60 + mins mod 60 = mins"
    by simp
  have two: "getnum (pad2 n) True = Some (n, [])" if "n \<le> 99" for n
    using getnum_pad2 [OF that, of "[]" True] by simp
  have gh: "getnum [dig (mins div 60 div 10 mod 10), dig (mins div 60 mod 10)] True = Some (mins div 60, [])"
    "getnum [dig (mins mod 60 div 10 mod 10), dig (mins mod 60 mod 10)] True = Some (mins mod 60, [])"
    using two [of "mins div 60"] two [of "mins mod 60"] h unfolding pad2_def by auto
  show ?thesis
    using h parts
    by (simp add: format_zone_def get_zone_def Let_def pad2_def gh flip: mins_def)
      (simp add: mins_def)
qed

lemma no_frac_zone: "no_frac (format_zone z)"
  by (auto simp: no_frac_def format_zone_def Let_def byte_class)

lemma time_parse_format:
  assumes "valid_time t"
  shows "time_Parse_RFC3339MICRO (time_Format_RFC3339MICRO t) = Inr (micro_time t)"
proof -
  have t: "nat (t_year t) \<le> 9999" "t_month t \<le> 99" "t_day t \<le> 99" "t_hour t \<le> 99" "t_min t \<le> 99"
    "t_sec t \<le> 99"
    using assms by (auto simp: valid_time_def daysIn_def split: if_splits)
  have y: "format_year (t_year t) = pad4 (nat (t_year t))" "int (nat (t_year t)) = t_year t"
    using assms by (auto simp: format_year_def valid_time_def Let_def)
  show ?thesis
    using assms
    by (simp add: y time_Format_RFC3339MICRO_def time_Parse_RFC3339MICRO_def need_def check_def
        get_year_pad4 getnum_pad2 t get_frac_format no_frac_zone parse_zone_and_day_def
        get_zone_format valid_time_def micro_time_def Let_def)
qed


text \<open>
  A time that is printed at the RFC3339MICRO layout reads back as the same time, up to the
  nanoseconds and the seconds of the zone, which the layout does not have.
\<close>

theorem time_roundtrip:
  assumes "valid_time t"
  shows "time_Parse_RFC3339MICRO (time_Format_RFC3339MICRO t) = Inr (micro_time t)"
  by (rule time_parse_format [OF assms])

text \<open>A leap day, 987.654025 milliseconds past midnight at -03:30.\<close>

definition sample_time :: gotime where
  "sample_time = \<lparr>t_year = 2024, t_month = 2, t_day = 29, t_hour = 0, t_min = 0, t_sec = 0,
     t_nsec = 987654025, t_zone = FixedZone (- 12600)\<rparr>"

theorem time_roundtrip_witness:
  "time_Parse_RFC3339MICRO (time_Format_RFC3339MICRO sample_time) =
    Inr (sample_time\<lparr>t_nsec := 987654000\<rparr>)"
proof -
  have "valid_time sample_time" "micro_time sample_time = sample_time\<lparr>t_nsec := 987654000\<rparr>"
    by (simp_all add: sample_time_def valid_time_def micro_time_def daysIn_def isLeap_def
        zone_offset_def Let_def)
  then show ?thesis
    using time_roundtrip [of sample_time] by simp
qed


section \<open>A printed time is in the timestamp grammar\<close>



definition further :: "nat \<Rightarrow> nat \<times> bool \<Rightarrow> nat \<times> bool" where
  "further n x = (case x of (k, ok) \<Rightarrow> (k + n, ok))"

lemma further_further [simp]: "further a (further b x) = further (a + b) x" "further 0 x = x"
  by (simp_all add: further_def split: prod.split)

lemma ts_scan_next:
  "timestamp_next cs b = Some n \<Longrightarrow> ts_scan cs (b # r) = further 1 (ts_scan n r)"
  using timestamp_next_states [of cs b n] by (simp add: further_def split: prod.split)

lemma scan_two:
  "timestamp_next cs a = Some n \<Longrightarrow> timestamp_next n b = Some n' \<Longrightarrow>
    ts_scan cs (a # b # r) = further 2 (ts_scan n' r)"
  by (simp add: ts_scan_next numeral_2_eq_2 del: ts_scan.simps)



lemma scan_pad2:
  assumes "n \<le> 99" "timestamp_next cs (dig (n div 10)) = Some c1"
    and "timestamp_next c1 (dig (n mod 10)) = Some c2"
  shows "ts_scan cs (pad2 n @ r) = further 2 (ts_scan c2 r)"
  using scan_two [OF assms(2,3), of r] div10 [OF assms(1)] by (simp add: pad2_def)

lemma scan_month:
  assumes "1 \<le> n" "n \<le> 12"
  shows "ts_scan 558 (pad2 n @ r) = further 2 (ts_scan 560 r)"
proof (cases "n < 10")
  case True
  then show ?thesis
    using assms by (intro scan_pad2 [where ?c1.0 = 559]) (simp_all add: timestamp_next_def)
next
  case False
  then have "n div 10 = 1 \<and> n mod 10 \<le> 2"
    using assms by presburger
  then show ?thesis
    using assms by (intro scan_pad2 [where ?c1.0 = 590]) (simp_all add: timestamp_next_def)
qed

lemma scan_day:
  assumes "1 \<le> n" "n \<le> 31"
  shows "ts_scan 561 (pad2 n @ r) = further 2 (ts_scan 563 r)"
proof -
  have "n < 10 \<or> (n div 10 = 1 \<or> n div 10 = 2) \<and> \<not> n < 10 \<or> n div 10 = 3 \<and> n mod 10 \<le> 1"
    using assms by presburger
  then consider "n < 10" | "n div 10 = 1 \<or> n div 10 = 2" "\<not> n < 10"
    | "n div 10 = 3" "n mod 10 \<le> 1"
    by blast
  then show ?thesis
  proof cases
    case 1
    then show ?thesis
      using assms by (intro scan_pad2 [where ?c1.0 = 562]) (simp_all add: timestamp_next_def)
  next
    case 2
    then show ?thesis
      using assms by (intro scan_pad2 [where ?c1.0 = 588]) (auto simp: timestamp_next_def)
  next
    case 3
    then show ?thesis
      using assms by (intro scan_pad2 [where ?c1.0 = 589]) (simp_all add: timestamp_next_def)
  qed
qed

lemma scan_hour:
  assumes "n < 24"
  shows "ts_scan 564 (pad2 n @ r) = further 2 (ts_scan 566 r)"
    and "ts_scan 573 (pad2 n @ r) = further 2 (ts_scan 575 r)"
proof -
  have c: "n div 10 \<le> 1 \<or> n div 10 = 2 \<and> n mod 10 \<le> 3"
    using assms by presburger
  show "ts_scan 564 (pad2 n @ r) = further 2 (ts_scan 566 r)"
    using c assms
    by (intro scan_pad2 [where ?c1.0 = "if n div 10 \<le> 1 then 565 else 587"])
      (auto simp: timestamp_next_def)
  show "ts_scan 573 (pad2 n @ r) = further 2 (ts_scan 575 r)"
    using c assms
    by (intro scan_pad2 [where ?c1.0 = "if n div 10 \<le> 1 then 574 else 579"])
      (auto simp: timestamp_next_def)
qed

lemma scan_sixty:
  assumes "n < 60"
  shows "ts_scan 567 (pad2 n @ r) = further 2 (ts_scan 569 r)"
    and "ts_scan 570 (pad2 n @ r) = further 2 (ts_scan 572 r)"
    and "ts_scan 576 (pad2 n @ r) = further 2 (ts_scan 578 r)"
proof -
  have c: "n div 10 \<le> 5" using assms by auto
  show "ts_scan 567 (pad2 n @ r) = further 2 (ts_scan 569 r)"
    using c assms by (intro scan_pad2 [where ?c1.0 = 568]) (auto simp: timestamp_next_def)
  show "ts_scan 570 (pad2 n @ r) = further 2 (ts_scan 572 r)"
    using c assms by (intro scan_pad2 [where ?c1.0 = 571]) (auto simp: timestamp_next_def)
  show "ts_scan 576 (pad2 n @ r) = further 2 (ts_scan 578 r)"
    using c assms by (intro scan_pad2 [where ?c1.0 = 577]) (auto simp: timestamp_next_def)
qed

lemma scan_frac_digits:
  "list_all is_digit ds \<Longrightarrow> 580 \<le> cs \<Longrightarrow> cs + length ds \<le> 586 \<Longrightarrow>
    ts_scan cs (ds @ r) = further (length ds) (ts_scan (cs + length ds) r)"
proof (induction ds arbitrary: cs)
  case Nil
  then show ?case by simp
next
  case (Cons d ds)
  then have "d \<noteq> 43" "d \<noteq> 45" "d \<noteq> 90"
    by (auto simp: byte_class)
  then have "timestamp_next cs d = Some (cs + 1)"
    using Cons.prems by (cases "cs = 580") (auto simp: timestamp_next_def)
  then have "ts_scan cs ((d # ds) @ r) = further 1 (ts_scan (cs + 1) (ds @ r))"
    by (simp add: ts_scan_next del: ts_scan.simps)
  with Cons.IH [of "cs + 1"] Cons.prems show ?case by simp
qed

lemma scan_frac:
  "\<exists>cs. (cs = 572 \<or> 581 \<le> cs \<and> cs \<le> 586) \<and>
     ts_scan 572 (format_frac ns @ r) = further (length (format_frac ns)) (ts_scan cs r)"
proof -
  define ds where "ds = trim_zeros (micro_digits (ns div 1000))"
  have ds: "list_all is_digit ds" "length ds \<le> 6"
    using trim_zeros_digits [of "micro_digits (ns div 1000)"] micro_digits_digits
    by (simp_all add: ds_def)
  show ?thesis
  proof (cases "ds = []")
    case True
    then show ?thesis
      by (intro exI [of _ 572]) (simp add: format_frac_def Let_def flip: ds_def)
  next
    case False
    have "ts_scan 572 (46 # ds @ r) = further 1 (ts_scan 580 (ds @ r))"
      by (rule ts_scan_next) (simp add: timestamp_next_def)
    also have "ts_scan 580 (ds @ r) = further (length ds) (ts_scan (580 + length ds) r)"
      using ds by (intro scan_frac_digits) auto
    finally show ?thesis
      using False ds(2)
      by (intro exI [of _ "580 + length ds"])
        (simp add: format_frac_def Let_def Suc_le_eq flip: ds_def)
  qed
qed

lemma zone_next:
  assumes "cs = 572 \<or> 581 \<le> cs \<and> cs \<le> 586"
  shows "timestamp_next cs 90 = Some 578" "timestamp_next cs 43 = Some 573"
    "timestamp_next cs 45 = Some 573"
proof -
  have "cs = 572 \<or> cs = 581 \<or> cs = 582 \<or> cs = 583 \<or> cs = 584 \<or> cs = 585 \<or> cs = 586"
    using assms by presburger
  then show "timestamp_next cs 90 = Some 578" "timestamp_next cs 43 = Some 573"
    "timestamp_next cs 45 = Some 573"
    by (elim disjE; simp add: timestamp_next_def)+
qed

lemma scan_zone:
  assumes "cs = 572 \<or> 581 \<le> cs \<and> cs \<le> 586" "\<bar>zone_offset z\<bar> < 86400"
  shows "ts_scan cs (format_zone z) = (length (format_zone z), True)"
proof (cases "zone_offset z = 0")
  case True
  have "ts_scan cs [90] = further 1 (ts_scan 578 [])"
    by (rule ts_scan_next [OF zone_next(1) [OF assms(1)]])
  with True show ?thesis
    by (simp add: format_zone_def further_def del: ts_scan.simps(2))
next
  case False
  define mins where "mins = nat \<bar>zone_offset z\<bar> div 60"
  have m: "mins div 60 < 24" "mins mod 60 < 60"
    using assms(2) by (auto simp: mins_def)
  let ?s = "if zone_offset z < 0 \<and> mins > 0 then 45 else 43 :: byte"
  have s: "timestamp_next cs ?s = Some 573"
    using zone_next [OF assms(1)] by simp
  have c: "timestamp_next 575 58 = Some 576"
    by (simp add: timestamp_next_def)
  have "ts_scan cs (?s # pad2 (mins div 60) @ 58 # pad2 (mins mod 60) @ []) =
      further 6 (ts_scan 578 [])"
    using scan_hour(2) [OF m(1)] scan_sixty(3) [OF m(2)]
    by (simp only: ts_scan_next [OF s] ts_scan_next [OF c] further_further) simp
  moreover have "format_zone z = ?s # pad2 (mins div 60) @ 58 # pad2 (mins mod 60) @ []"
    using False unfolding format_zone_def Let_def mins_def by simp
  ultimately show ?thesis
    by (simp add: further_def pad2_def del: ts_scan.simps(2))
qed

lemma format_is_timestamp:
  assumes "valid_time t"
  shows "is_timestamp (time_Format_RFC3339MICRO t)"
proof -
  have v: "1 \<le> t_month t" "t_month t \<le> 12" "1 \<le> t_day t" "t_day t \<le> 31" "t_hour t < 24"
    "t_min t < 60" "t_sec t < 60" "\<bar>zone_offset (t_zone t)\<bar> < 86400"
    using assms by (auto simp: valid_time_def daysIn_def split: if_splits)
  have n: "timestamp_next 557 45 = Some 558" "timestamp_next 560 45 = Some 561"
    "timestamp_next 563 84 = Some 564" "timestamp_next 566 58 = Some 567"
    "timestamp_next 569 58 = Some 570"
    by (simp_all add: timestamp_next_def)
  have y: "timestamp_next 554 (dig (k mod 10)) = Some 555" "timestamp_next 555 (dig (k mod 10)) = Some 556"
    "timestamp_next 556 (dig (k mod 10)) = Some 557" for k
    by (simp_all add: timestamp_next_def)
  have y0: "format_year (t_year t) = pad4 (nat (t_year t))"
    using assms by (auto simp: format_year_def valid_time_def Let_def)
  let ?z = "format_zone (t_zone t)" and ?f = "format_frac (t_nsec t)"
  obtain cs where cs: "cs = 572 \<or> 581 \<le> cs \<and> cs \<le> 586"
    "ts_scan 572 (?f @ ?z) = further (length ?f) (ts_scan cs ?z)"
    using scan_frac by blast
  have fz: "ts_scan 572 (?f @ ?z) = (length ?f + length ?z, True)"
    using cs(2) scan_zone [OF cs(1) v(8)] by (simp add: further_def)
  have "ts_scan 554 (dig (nat (t_year t) div 100 mod 10) # dig (nat (t_year t) div 10 mod 10) #
      dig (nat (t_year t) mod 10) # 45 # pad2 (t_month t) @ 45 # pad2 (t_day t) @ 84 # pad2 (t_hour t) @
      58 # pad2 (t_min t) @ 58 # pad2 (t_sec t) @ ?f @ ?z) = further 18 (length ?f + length ?z, True)"
    by (simp only: ts_scan_next [OF y(1)] ts_scan_next [OF y(2)] ts_scan_next [OF y(3)]
        ts_scan_next [OF n(1)] ts_scan_next [OF n(2)] ts_scan_next [OF n(3)] ts_scan_next [OF n(4)]
        ts_scan_next [OF n(5)] scan_month [OF v(1,2)] scan_day [OF v(3,4)] scan_hour(1) [OF v(5)]
        scan_sixty(1) [OF v(6)] scan_sixty(2) [OF v(7)] fz further_further) simp
  then show ?thesis
    by (simp add: is_timestamp_def y0 time_Format_RFC3339MICRO_def pad4_def further_def pad2_def
        del: ts_scan.simps)
qed


section \<open>The text of a message\<close>

definition render_param :: "bytes \<Rightarrow> bytes \<Rightarrow> bytes" where
  "render_param name val = [32] @ name @ [61, 34] @ EscapeBytes val @ [34]"

definition render_element :: "sdmap \<Rightarrow> bytes \<Rightarrow> bytes" where
  "render_element sd eid =
     (let params = (case fmlookup sd eid of None \<Rightarrow> fmempty | Some ps \<Rightarrow> ps);
          names = sorted_list_of_fset (fmdom params)
      in [91] @ eid @ concat (map (\<lambda>n. render_param n (go_lookup (fmlookup params) n)) names) @ [93])"

definition render_sd :: "sdmap \<Rightarrow> bytes" where
  "render_sd sd = concat (map (render_element sd) (sorted_list_of_fset (fmdom sd)))"

definition or_nil :: "bytes option \<Rightarrow> bytes" where
  "or_nil x = (case x of None \<Rightarrow> [45] | Some s \<Rightarrow> s)"

definition SyslogMessage_String :: "SyslogMessage \<Rightarrow> string + bytes" where
  "SyslogMessage_String sm =
     (case Priority sm of
        None \<Rightarrow> Inl ''invalid syslog''
      | Some pr \<Rightarrow>
          if \<not> SyslogMessage_Valid sm then Inl ''invalid syslog''
          else
            (let t = (case Timestamp sm of None \<Rightarrow> [45] | Some ts \<Rightarrow> time_Format_RFC3339MICRO ts);
                 sd = (case StructuredData sm of None \<Rightarrow> [45] | Some x \<Rightarrow> render_sd (nil_is_empty x));
                 m = (case Message sm of None \<Rightarrow> [] | Some x \<Rightarrow> [32] @ x)
             in Inr ([60] @ dec_string (unat pr) @ [62] @ dec_string (unat (Version sm)) @ [32] @ t @
                  [32] @ or_nil (Hostname sm) @ [32] @ or_nil (Appname sm) @ [32] @
                  or_nil (ProcID sm) @ [32] @ or_nil (MsgID sm) @ [32] @ sd @ m)))"

section \<open>The parser on rendered fields\<close>

lemma takeWhile_stop: "list_all P xs \<Longrightarrow> \<not> P c \<Longrightarrow> takeWhile P (xs @ c # r) = xs"
  by (simp add: takeWhile_append2 list_all_iff)

lemma prival_len_exact:
  assumes "prival_ok ds" "length ds \<le> 3" "\<not> is_digit c"
  shows "prival_len (ds @ c # r) = length ds"
proof -
  have tw: "takeWhile is_digit (ds @ c # r) = ds"
    using assms by (intro takeWhile_stop) (simp_all add: prival_ok_def)
  consider (one) a where "ds = [a]" | (two) a b where "ds = [a, b]" | (three) a b d where "ds = [a, b, d]"
    using assms(1,2) by (cases ds rule: remdups_adj.cases; cases "tl (tl ds)") (auto simp: prival_ok_def)
  then show ?thesis
    unfolding prival_len_def tw using assms(1)
    by cases (auto simp: prival_ok_def simp del: dec_value.simps)
qed

lemma prival_dec: "p \<le> 191 \<Longrightarrow> prival_ok (dec_string p) \<and> length (dec_string p) \<le> 3"
  using dec_string_digits [of p] dec_string_value [of p] dec_string_hd [of p] dec_string_zero
    dec_string_length [of p 2]
  by (auto simp: prival_ok_def)

lemma spec_pri_text:
  assumes "p \<le> 191"
  shows "\<exists>c. spec_pri 0 (60 # dec_string p @ 62 # r) out = Inr (c, r, set_prival (dec_string p) out)"
  using prival_len_exact [of "dec_string p" 62 r] prival_dec [OF assms] dec_string_digits [of p]
  by (auto simp: spec_pri_def Let_def)

lemma spec_version_text:
  assumes "1 \<le> v" "v \<le> 999"
  shows "\<exists>c. spec_version col (dec_string v @ 32 # r) out = Inr (c, r, set_version (dec_string v) out)"
proof -
  have d: "list_all is_digit (dec_string v)" "dec_string v \<noteq> []" "length (dec_string v) \<le> 3"
    using dec_string_digits [of v] dec_string_length [of v 2] assms by auto
  then obtain b ds where b: "dec_string v = b # ds" by (cases "dec_string v") auto
  have "b \<noteq> 48"
    using dec_string_hd [of v] b assms by simp
  then have "is_nonzero_digit b"
    using d(1) b by (auto simp: byte_class word_le_nat_alt word_unat_eq_iff)
  moreover have "takeWhile is_digit (dec_string v @ 32 # r) = dec_string v"
    using d(1) by (intro takeWhile_stop) simp_all
  ultimately show ?thesis
    using b d(3) by (simp add: spec_version_def Let_def min_def)
qed

lemma ts_scan_append:
  "ts_scan cs t = (length t, True) \<Longrightarrow> ts_scan cs (t @ x) = (length t, True)"
proof (induction cs t rule: ts_scan.induct)
  case (1 cs)
  then show ?case by (cases x) simp_all
next
  case (2 cs b r)
  then show ?case
    by (auto split: if_splits option.splits prod.splits)
qed

lemma spec_timestamp_text:
  "\<exists>c. spec_timestamp col (45 # 32 # r) out = Inr (c, r, out)"
  "is_timestamp t \<Longrightarrow> time_Parse_RFC3339MICRO t = Inr ts \<Longrightarrow>
    \<exists>c. spec_timestamp col (t @ 32 # r) out =
      Inr (c, r, out\<lparr>timestamp := Some ts, timestampSet := True\<rparr>)"
proof -
  show "\<exists>c. spec_timestamp col (45 # 32 # r) out = Inr (c, r, out)"
    by (simp add: spec_timestamp_def)
  assume t: "is_timestamp t" "time_Parse_RFC3339MICRO t = Inr ts"
  then obtain b t' where b: "t = b # t'" "is_digit b" "ts_scan 554 t' = (length t', True)"
    by (cases t) (auto simp: is_timestamp_def)
  have "b \<noteq> 45" using b(2) by (auto simp: byte_class)
  then show "\<exists>c. spec_timestamp col (t @ 32 # r) out =
      Inr (c, r, out\<lparr>timestamp := Some ts, timestampSet := True\<rparr>)"
    using b t(2) ts_scan_append [OF b(3), of "32 # r"] by (simp add: spec_timestamp_def Let_def)
qed

lemma not_graph_space [simp]: "\<not> is_graph 32"
  by (simp add: byte_class)

lemma spec_field_text:
  assumes "counted is_graph mx f"
  shows "\<exists>c. spec_field mx e setter col (f @ 32 # r) out = Inr (c, r, setter f out)"
proof -
  have "takeWhile is_graph (f @ 32 # r) = f"
    using assms by (intro takeWhile_stop) (simp_all add: counted_def)
  then show ?thesis
    using assms by (simp add: spec_field_def Let_def counted_def)
qed


text \<open>A well-formed parameter: a name of the grammar and a value in UTF-8.\<close>

definition param_wf :: "bytes \<times> bytes \<Rightarrow> bool" where
  "param_wf nv \<longleftrightarrow> counted is_sdname 32 (fst nv) \<and> valid_utf8 (snd nv)"

definition params_text :: "(bytes \<times> bytes) list \<Rightarrow> bytes" where
  "params_text nvs = concat (map (\<lambda>(n, v). render_param n v) nvs)"

definition put_params :: "bytes \<Rightarrow> (bytes \<times> bytes) list \<Rightarrow> syslogMessage \<Rightarrow> syslogMessage" where
  "put_params e nvs out = foldl (\<lambda>out (n, v). put_param e n v out) out nvs"

lemma spec_params_text:
  "nvs \<noteq> [] \<Longrightarrow> list_all param_wf nvs \<Longrightarrow>
    \<exists>c. spec_params e q col (tl (params_text nvs) @ 93 # r) out = Inr (c, r, put_params e nvs out)"
proof (induction nvs arbitrary: q col out)
  case Nil
  then show ?case by simp
next
  case (Cons nv nvs)
  obtain n v where nv: "nv = (n, v)" by fastforce
  have n: "list_all is_sdname n" "n \<noteq> []" "length n \<le> 32" and v: "valid_utf8 v"
    using Cons.prems(2) nv by (simp_all add: param_wf_def counted_def)
  let ?rest = "params_text nvs @ 93 # r"
  have shape: "tl (params_text (nv # nvs)) @ 93 # r = n @ 61 # 34 # EscapeBytes v @ 34 # ?rest"
    by (simp add: params_text_def nv render_param_def)
  have tw: "takeWhile is_sdname (n @ 61 # 34 # EscapeBytes v @ 34 # ?rest) = n"
    using n(1) by (intro takeWhile_stop) simp_all
  obtain c where val: "spec_value (col + length n + 2) (EscapeBytes v @ 34 # ?rest) [] = Inr (c, ?rest, v)"
    using spec_value_escaped [OF v, of "col + length n + 2" ?rest "[]"] by simp
  have step: "spec_params e q col (n @ 61 # 34 # EscapeBytes v @ 34 # ?rest) out =
      (case ?rest of
         [] \<Rightarrow> Inl ((ErrSdParam, c), undo_param e (Some n) (put_param e n v out))
       | b # r2 \<Rightarrow>
           if b = 32 then spec_params e (Some n) (c + 1) r2 (put_param e n v out)
           else if b = 93 then Inr (c + 1, r2, put_param e n v out)
           else Inl ((ErrSdParam, c), undo_param e (Some n) (put_param e n v out)))"
    unfolding spec_params.simps [of e q] tw Let_def using n(2,3) val by simp
  show ?case
  proof (cases nvs)
    case Nil
    then show ?thesis
      unfolding shape step by (simp add: params_text_def put_params_def nv)
  next
    case (Cons nv' nvs')
    obtain x where x: "params_text nvs = 32 # x"
      using Cons by (cases nv') (simp add: params_text_def render_param_def)
    obtain c' where "spec_params e (Some n) (c + 1) (tl (params_text nvs) @ 93 # r)
        (put_param e n v out) = Inr (c', r, put_params e nvs (put_param e n v out))"
      using Cons.IH [of "Some n" "c + 1" "put_param e n v out"] Cons.prems(2) Cons by auto
    then show ?thesis
      unfolding shape step by (simp add: x put_params_def nv)
  qed
qed

text \<open>The elements of a map, as a list with the parameters of each in their printed order.\<close>

definition param_list :: "(bytes, bytes) fmap \<Rightarrow> (bytes \<times> bytes) list" where
  "param_list ps = map (\<lambda>n. (n, go_lookup (fmlookup ps) n)) (sorted_list_of_fset (fmdom ps))"

definition elem_text :: "bytes \<times> (bytes, bytes) fmap \<Rightarrow> bytes" where
  "elem_text x = 91 # fst x @ params_text (param_list (snd x)) @ [93]"

definition put_elem :: "bytes \<times> (bytes, bytes) fmap \<Rightarrow> syslogMessage \<Rightarrow> syslogMessage" where
  "put_elem x out = put_params (fst x) (param_list (snd x)) (add_elem (fst x) out)"

definition elem_wf :: "bytes \<times> (bytes, bytes) fmap \<Rightarrow> bool" where
  "elem_wf x \<longleftrightarrow> counted is_sdname 32 (fst x) \<and> list_all param_wf (param_list (snd x))"

lemma spec_elem_text:
  assumes "elem_wf x" "\<not> has_elem (fst x) out"
  shows "\<exists>c. spec_elem e col (tl (elem_text x) @ r) out = Inr (c, r, put_elem x out)"
proof -
  obtain i ps where x: "x = (i, ps)" by fastforce
  let ?nvs = "param_list ps"
  have i: "list_all is_sdname i" "i \<noteq> []" "length i \<le> 32"
    using assms(1) by (simp_all add: elem_wf_def counted_def x)
  show ?thesis
  proof (cases "?nvs = []")
    case True
    have tw: "takeWhile is_sdname (i @ 93 # r) = i"
      using i(1) by (intro takeWhile_stop) simp_all
    show ?thesis
      using i assms(2) True
      by (simp add: elem_text_def x params_text_def spec_elem_def tw Let_def put_elem_def put_params_def)
  next
    case False
    then obtain y where y: "params_text ?nvs = 32 # y"
      by (cases ?nvs) (auto simp: params_text_def render_param_def)
    have tw: "takeWhile is_sdname (i @ 32 # y @ 93 # r) = i"
      using i(1) by (intro takeWhile_stop) simp_all
    obtain c where "spec_params i None (col + length i + 1) (y @ 93 # r) (add_elem i out) =
        Inr (c, r, put_params i ?nvs (add_elem i out))"
      using spec_params_text [OF False, of i None "col + length i + 1" r "add_elem i out"]
        assms(1) y by (auto simp: elem_wf_def x)
    then show ?thesis
      using i assms(2) y
      by (simp add: elem_text_def x spec_elem_def tw Let_def put_elem_def)
  qed
qed

lemma put_param_sd:
  "structuredData out = Some sd \<Longrightarrow> fmlookup sd e = Some ps \<Longrightarrow>
    put_param e n v out = out\<lparr>structuredData := Some (fmupd e (fmupd n v ps) sd)\<rparr>"
  by (simp add: put_param_def)

lemma put_params_sd:
  "structuredData out = Some (fmupd e ps sd) \<Longrightarrow>
    put_params e nvs out =
      out\<lparr>structuredData := Some (fmupd e (foldl (\<lambda>ps (n, v). fmupd n v ps) ps nvs) sd)\<rparr>"
proof (induction nvs arbitrary: out ps)
  case Nil
  then show ?case by (cases out) (simp add: put_params_def)
next
  case (Cons nv nvs)
  obtain n v where nv: "nv = (n, v)" by fastforce
  have "put_param e n v out = out\<lparr>structuredData := Some (fmupd e (fmupd n v ps) sd)\<rparr>"
    using put_param_sd [OF Cons.prems, of e ps n v] by simp
  then show ?case
    using Cons.IH [of "out\<lparr>structuredData := Some (fmupd e (fmupd n v ps) sd)\<rparr>" "fmupd n v ps"]
    by (simp add: put_params_def nv)
qed

lemma foldl_fmupd_lookup:
  "fmlookup (foldl (\<lambda>ps (n, v). fmupd n v ps) ps (map (\<lambda>n. (n, f n)) ns)) k =
    (if k \<in> set ns then Some (f k) else fmlookup ps k)"
  by (induction ns arbitrary: ps) auto

lemma set_sorted_list_of_fset: "set (sorted_list_of_fset s) = fset s"
  by simp

lemma param_list_fold: "foldl (\<lambda>ps (n, v). fmupd n v ps) fmempty (param_list ps) = ps"
proof (rule fmap_ext)
  fix k
  show "fmlookup (foldl (\<lambda>ps (n, v). fmupd n v ps) fmempty (param_list ps)) k = fmlookup ps k"
    unfolding param_list_def foldl_fmupd_lookup
    by (cases "fmlookup ps k") (simp_all add: go_lookup_def fmdomI fmdom_notI)
qed

lemma put_elem_sd:
  assumes "structuredData out = Some sd"
  shows "put_elem (i, ps) out = out\<lparr>structuredData := Some (fmupd i ps sd), hasElements := True\<rparr>"
proof -
  have "structuredData (add_elem i out) = Some (fmupd i fmempty sd)"
    using assms by (simp add: add_elem_def)
  from put_params_sd [OF this, of "param_list ps"] show ?thesis
    by (simp add: put_elem_def param_list_fold add_elem_def)
qed

lemma spec_elems_text:
  assumes "xs \<noteq> []" "list_all elem_wf xs" "distinct (map fst xs)" "structuredData out = Some sd"
    and "\<forall>x\<in>set xs. fst x |\<notin>| fmdom sd" "m = [] \<or> (\<exists>y. m = 32 # y)"
  shows "\<exists>c. spec_elems e col (tl (concat (map elem_text xs)) @ m) out =
    Inr (c, (if m = [] then [] else tl m), foldl (\<lambda>out x. put_elem x out) out xs)"
  using assms
proof (induction xs arbitrary: e col out sd)
  case Nil
  then show ?case by simp
next
  case (Cons x xs)
  obtain i ps where x: "x = (i, ps)" by fastforce
  let ?rest = "concat (map elem_text xs) @ m"
  let ?out = "put_elem x out"
  have shape: "tl (concat (map elem_text (x # xs))) @ m = tl (elem_text x) @ ?rest"
    by (simp add: elem_text_def)
  have "\<not> has_elem i out"
    using Cons.prems(4,5) by (auto simp: has_elem_def x fmlookup_dom_iff)
  then obtain c where c: "spec_elem e col (tl (elem_text x) @ ?rest) out = Inr (c, ?rest, ?out)"
    using spec_elem_text [of x out e col ?rest] Cons.prems(2) by (auto simp: x)
  note unfold = spec_elems.simps [of e col "tl (elem_text x) @ ?rest" out, unfolded c]
  show ?case
  proof (cases xs)
    case Nil
    then show ?thesis
      using Cons.prems(6) unfolding shape unfold by auto
  next
    case (Cons x' xs')
    obtain y where y: "concat (map elem_text xs) = 91 # y"
      using Cons by (simp add: elem_text_def)
    have sd: "structuredData ?out = Some (fmupd i ps sd)"
      using put_elem_sd [OF Cons.prems(4), of i ps] by (simp add: x)
    have "\<exists>c'. spec_elems (take 32 (takeWhile is_sdname (tl (elem_text x) @ ?rest))) (c + 1)
        (tl (concat (map elem_text xs)) @ m) ?out =
        Inr (c', (if m = [] then [] else tl m), foldl (\<lambda>out x. put_elem x out) ?out xs)"
    proof (rule Cons.IH [OF _ _ _ sd])
      show "xs \<noteq> []" "list_all elem_wf xs" "distinct (map fst xs)" "m = [] \<or> (\<exists>y. m = 32 # y)"
        using Cons Cons.prems(2,3,6) by simp_all
      show "\<forall>z\<in>set xs. fst z |\<notin>| fmdom (fmupd i ps sd)"
        using Cons.prems(3,5) by (auto simp: x)
    qed
    then show ?thesis
      unfolding shape unfold using y by auto
  qed
qed

lemma foldl_put_elem:
  "structuredData out = Some sd \<Longrightarrow> xs \<noteq> [] \<Longrightarrow>
    foldl (\<lambda>out x. put_elem x out) out xs =
      out\<lparr>structuredData := Some (foldl (\<lambda>sd (i, ps). fmupd i ps sd) sd xs), hasElements := True\<rparr>"
proof (induction xs arbitrary: out sd)
  case Nil
  then show ?case by simp
next
  case (Cons x xs)
  obtain i ps where x: "x = (i, ps)" by fastforce
  show ?case
    using Cons.IH [of "put_elem x out" "fmupd i ps sd"] put_elem_sd [OF Cons.prems(1), of i ps]
    by (cases xs) (simp_all add: x)
qed

end
