(* ===== verification/RFC5424_RoundTrip.thy ===== *)
theory RFC5424_RoundTrip
  imports RFC5424_String
begin

text \<open>
  The round trip of printing and parsing: the structured data as the parser builds it up from the
  printed text, the well-formed messages, and the theorem that \<open>Parse\<close> inverts \<open>String\<close>.
\<close>

section \<open>The round trip\<close>


definition sd_list :: "sdmap \<Rightarrow> (bytes \<times> (bytes, bytes) fmap) list" where
  "sd_list sd =
     map (\<lambda>i. (i, case fmlookup sd i of None \<Rightarrow> fmempty | Some ps \<Rightarrow> ps)) (sorted_list_of_fset (fmdom sd))"

lemma render_sd_list: "render_sd sd = concat (map elem_text (sd_list sd))"
proof -
  have "render_element sd i = elem_text (i, case fmlookup sd i of None \<Rightarrow> fmempty | Some ps \<Rightarrow> ps)" for i
    by (simp add: render_element_def elem_text_def params_text_def param_list_def Let_def comp_def)
  then have "render_element sd = (\<lambda>i. elem_text (i, case fmlookup sd i of None \<Rightarrow> fmempty | Some ps \<Rightarrow> ps))"
    by (rule ext)
  then show ?thesis
    by (simp add: render_sd_def sd_list_def comp_def)
qed

lemma foldl_sd_lookup:
  "fmlookup (foldl (\<lambda>sd (i, ps). fmupd i ps sd) sd (map (\<lambda>i. (i, f i)) is)) k =
    (if k \<in> set is then Some (f k) else fmlookup sd k)"
  by (induction "is" arbitrary: sd) auto

lemma sd_list_fold: "foldl (\<lambda>sd (i, ps). fmupd i ps sd) fmempty (sd_list sd) = sd"
proof (rule fmap_ext)
  fix k
  show "fmlookup (foldl (\<lambda>sd (i, ps). fmupd i ps sd) fmempty (sd_list sd)) k = fmlookup sd k"
    unfolding sd_list_def foldl_sd_lookup
    by (cases "fmlookup sd k") (simp_all add: fmdomI fmdom_notI)
qed

text \<open>
  Structured data of the grammar: at least one element, names of 1 to 32 characters, values in
  UTF-8.
\<close>

definition sd_wf :: "sdmap \<Rightarrow> bool" where
  "sd_wf sd \<longleftrightarrow> sd \<noteq> fmempty \<and> list_all elem_wf (sd_list sd)"

lemma sd_list_ne: "sd \<noteq> fmempty \<Longrightarrow> sd_list sd \<noteq> []"
proof
  assume "sd \<noteq> fmempty" "sd_list sd = []"
  then have "fset (fmdom sd) = {}"
    using set_sorted_list_of_fset [of "fmdom sd"] by (simp add: sd_list_def)
  then have "fmdom sd = {||}"
    by (simp add: bot_fset.rep_eq fset_inject [symmetric])
  then have "sd = fmempty"
    by (intro fmap_ext) (metis fmdom_notD fempty_iff fmempty_lookup)
  with \<open>sd \<noteq> fmempty\<close> show False by simp
qed

lemma spec_sd_text:
  assumes "sd_wf sd" "m = [] \<or> (\<exists>y. m = 32 # y)"
  shows "\<exists>c. spec_sd col (render_sd sd @ m) out =
    Inr (c, (if m = [] then [] else tl m), out\<lparr>structuredData := Some sd, hasElements := True\<rparr>)"
proof -
  let ?xs = "sd_list sd"
  have ne: "?xs \<noteq> []" and wf: "list_all elem_wf ?xs"
    using assms(1) sd_list_ne by (auto simp: sd_wf_def)
  have "distinct (map fst ?xs)"
    by (simp add: sd_list_def comp_def distinct_sorted_list_of_set sorted_list_of_fset.rep_eq)
  moreover have "\<forall>x\<in>set ?xs. fst x |\<notin>| fmdom (fmempty :: sdmap)"
    by simp
  moreover have "structuredData (ini_elements out) = Some fmempty"
    by (simp add: ini_elements_def)
  ultimately obtain c where c: "spec_elems [] (col + 1) (tl (concat (map elem_text ?xs)) @ m) (ini_elements out) =
      Inr (c, (if m = [] then [] else tl m), foldl (\<lambda>out x. put_elem x out) (ini_elements out) ?xs)"
    using spec_elems_text [OF ne wf _ _ _ assms(2)] by blast
  obtain y where y: "concat (map elem_text ?xs) = 91 # y"
    using ne by (cases ?xs) (simp_all add: elem_text_def)
  have "foldl (\<lambda>out x. put_elem x out) (ini_elements out) ?xs =
      out\<lparr>structuredData := Some sd, hasElements := True\<rparr>"
    using foldl_put_elem [of "ini_elements out" fmempty ?xs] ne sd_list_fold [of sd]
    by (simp add: ini_elements_def)
  then show ?thesis
    using c y by (simp add: spec_sd_def render_sd_list)
qed

text \<open>The maps of a message hold no nil map.\<close>

definition elements_wf :: "elements \<Rightarrow> bool" where
  "elements_wf es \<longleftrightarrow> es = made (nil_is_empty es) \<and> sd_wf (nil_is_empty es)"

text \<open>
  A message that the grammar can express: facility and severity are those of the priority, the
  fields RFC 5424 does not have are absent, and no field holds the nil value as a text.
\<close>

definition field_wf :: "nat \<Rightarrow> bytes option \<Rightarrow> bool" where
  "field_wf mx x = (case x of None \<Rightarrow> True | Some s \<Rightarrow> counted is_graph mx s \<and> s \<noteq> [45])"

definition message_wf :: "SyslogMessage \<Rightarrow> bool" where
  "message_wf sm \<longleftrightarrow>
     (case Priority sm of
        None \<Rightarrow> False
      | Some pr \<Rightarrow> ValidPriority pr \<and> Facility sm = Some (pr div 8) \<and> Severity sm = Some (pr mod 8)) \<and>
     ValidVersion (Version sm) \<and> MessageCounter sm = None \<and> Sequence sm = None \<and>
     (case Timestamp sm of None \<Rightarrow> True | Some t \<Rightarrow> valid_time t \<and> micro_time t = t) \<and>
     field_wf 255 (Hostname sm) \<and> field_wf 48 (Appname sm) \<and> field_wf 128 (ProcID sm) \<and>
     field_wf 32 (MsgID sm) \<and>
     (case StructuredData sm of None \<Rightarrow> True | Some es \<Rightarrow> elements_wf es) \<and> Message sm \<noteq> Some []"

lemma or_nil_counted: "field_wf mx x \<Longrightarrow> 1 \<le> mx \<Longrightarrow> counted is_graph mx (or_nil x)"
  by (auto simp: field_wf_def or_nil_def counted_def byte_class split: option.splits)

lemma export_or_nil: "field_wf mx x \<Longrightarrow> export_text (or_nil x) = x"
  by (auto simp: field_wf_def or_nil_def export_text_def counted_def split: option.splits)

text \<open>The message under construction that the text leads to.\<close>

definition parsed :: "bool \<Rightarrow> SyslogMessage \<Rightarrow> syslogMessage" where
  "parsed opt sm =
     (let out = set_prival (dec_string (unat (the (Priority sm)))) (syslogMessage_init opt);
          out = set_version (dec_string (unat (Version sm))) out;
          out = (case Timestamp sm of None \<Rightarrow> out
                 | Some t \<Rightarrow> out\<lparr>timestamp := Some t, timestampSet := True\<rparr>);
          out = out\<lparr>hostname := or_nil (Hostname sm)\<rparr>;
          out = out\<lparr>appname := or_nil (Appname sm)\<rparr>;
          out = out\<lparr>procID := or_nil (ProcID sm)\<rparr>;
          out = out\<lparr>msgID := or_nil (MsgID sm)\<rparr>;
          out = (case StructuredData sm of None \<Rightarrow> out
                 | Some es \<Rightarrow> out\<lparr>structuredData := Some (nil_is_empty es), hasElements := True\<rparr>)
      in (case Message sm of None \<Rightarrow> out | Some x \<Rightarrow> set_msg x out))"

lemma export_parsed:
  assumes "message_wf sm"
  shows "export (parsed opt sm) = sm"
proof -
  obtain pr where pr: "Priority sm = Some pr" "unat pr \<le> 191" "Facility sm = Some (pr div 8)"
    "Severity sm = Some (pr mod 8)"
    using assms by (auto simp: message_wf_def ValidPriority_iff split: option.splits)
  have p: "priority (set_prival (dec_string (unat pr)) out) = pr" for out
    using prival_value(1) [of "dec_string (unat pr)" out] prival_dec [OF pr(2)] dec_string_value
    by (simp add: word_unat_eq_iff)
  have v: "version (set_version (dec_string (unat (Version sm))) out) = Version sm" for out
  proof -
    have "unat (Version sm) < 10 ^ Suc 2"
      using assms by (simp add: message_wf_def ValidVersion_iff)
    then have "length (dec_string (unat (Version sm))) \<le> 3"
      using dec_string_length [of "unat (Version sm)" 2] by simp
    then show ?thesis
      using version_value [of "dec_string (unat (Version sm))" out]
        dec_string_digits [of "unat (Version sm)"] dec_string_value
      by (simp add: word_unat_eq_iff)
  qed
  have base: "prioritySet (set_version ds out) = prioritySet out"
    "priority (set_version ds out) = priority out" "prioritySet (set_prival ds out)" for ds out
    by (simp_all add: set_version_def set_prival_def)
  have w: "field_wf 255 (Hostname sm)" "field_wf 48 (Appname sm)" "field_wf 128 (ProcID sm)"
    "field_wf 32 (MsgID sm)" "MessageCounter sm = None" "Sequence sm = None" "Message sm \<noteq> Some []"
    using assms by (simp_all add: message_wf_def)
  have sd: "StructuredData sm = Some es \<Longrightarrow> made (nil_is_empty es) = es" for es
    using assms by (simp add: message_wf_def elements_wf_def)
  note init = syslogMessage_init_def set_prival_def set_version_def set_msg_def
  show ?thesis
  proof (rule SyslogMessage.equality)
    show "Version (export (parsed opt sm)) = Version sm"
      using v by (simp add: parsed_def Let_def set_msg_def split: option.split)
    show "Priority (export (parsed opt sm)) = Priority sm"
      "Facility (export (parsed opt sm)) = Facility sm"
      "Severity (export (parsed opt sm)) = Severity sm"
      using pr p base by (simp_all add: parsed_def Let_def set_msg_def split: option.split)
    show "Timestamp (export (parsed opt sm)) = Timestamp sm"
      by (simp add: parsed_def Let_def init split: option.split)
    show "Hostname (export (parsed opt sm)) = Hostname sm"
      "Appname (export (parsed opt sm)) = Appname sm"
      "ProcID (export (parsed opt sm)) = ProcID sm"
      "MsgID (export (parsed opt sm)) = MsgID sm"
      using w(1-4) by (simp_all add: parsed_def Let_def set_msg_def export_or_nil split: option.split)
    show "StructuredData (export (parsed opt sm)) = StructuredData sm"
      using sd by (cases "StructuredData sm") (simp_all add: parsed_def Let_def init split: option.split)
    show "Message (export (parsed opt sm)) = Message sm"
      using w(7) by (cases "Message sm") (simp_all add: parsed_def Let_def init split: option.split)
  qed (use w in simp_all)
qed

text \<open>The stages on the printed text, one after the other.\<close>

lemma spec_header_text:
  assumes "1 \<le> v" "v \<le> 999"
    and ts: "\<And>col r out. \<exists>c. spec_timestamp col (t @ 32 # r) out = Inr (c, r, ft out)"
    and "counted is_graph 255 h" "counted is_graph 48 a" "counted is_graph 128 p" "counted is_graph 32 i"
  shows "\<exists>c. spec_header col (dec_string v @ 32 # t @ 32 # h @ 32 # a @ 32 # p @ 32 # i @ 32 # r) out =
    Inr (c, r, (((ft (set_version (dec_string v) out))\<lparr>hostname := h\<rparr>)\<lparr>appname := a\<rparr>
      \<lparr>procID := p\<rparr>)\<lparr>msgID := i\<rparr>)"
proof -
  obtain c1 where 1: "spec_version col (dec_string v @ 32 # t @ 32 # h @ 32 # a @ 32 # p @ 32 # i @ 32 # r) out =
      Inr (c1, t @ 32 # h @ 32 # a @ 32 # p @ 32 # i @ 32 # r, set_version (dec_string v) out)"
    using spec_version_text [OF assms(1,2)] by blast
  obtain c2 where 2: "spec_timestamp c1 (t @ 32 # h @ 32 # a @ 32 # p @ 32 # i @ 32 # r)
      (set_version (dec_string v) out) =
      Inr (c2, h @ 32 # a @ 32 # p @ 32 # i @ 32 # r, ft (set_version (dec_string v) out))"
    using ts by blast
  obtain c3 where 3: "spec_field 255 ErrHostname (\<lambda>t out. out\<lparr>hostname := t\<rparr>) c2
      (h @ 32 # a @ 32 # p @ 32 # i @ 32 # r) o2 =
      Inr (c3, a @ 32 # p @ 32 # i @ 32 # r, o2\<lparr>hostname := h\<rparr>)"
    if "o2 = ft (set_version (dec_string v) out)" for o2
    using spec_field_text [OF assms(4)] by blast
  obtain c4 where 4: "spec_field 48 ErrAppname (\<lambda>t out. out\<lparr>appname := t\<rparr>) c3
      (a @ 32 # p @ 32 # i @ 32 # r) o3 =
      Inr (c4, p @ 32 # i @ 32 # r, o3\<lparr>appname := a\<rparr>)"
    if "o3 = (ft (set_version (dec_string v) out))\<lparr>hostname := h\<rparr>" for o3
    using spec_field_text [OF assms(5)] by blast
  obtain c5 where 5: "spec_field 128 ErrProcID (\<lambda>t out. out\<lparr>procID := t\<rparr>) c4
      (p @ 32 # i @ 32 # r) o4 = Inr (c5, i @ 32 # r, o4\<lparr>procID := p\<rparr>)"
    if "o4 = (ft (set_version (dec_string v) out))\<lparr>hostname := h\<rparr>\<lparr>appname := a\<rparr>" for o4
    using spec_field_text [OF assms(6)] by blast
  obtain c6 where 6: "spec_field 32 ErrMsgID (\<lambda>t out. out\<lparr>msgID := t\<rparr>) c5
      (i @ 32 # r) o5 = Inr (c6, r, o5\<lparr>msgID := i\<rparr>)"
    if "o5 = (ft (set_version (dec_string v) out))\<lparr>hostname := h\<rparr>\<lparr>appname := a\<rparr>\<lparr>procID := p\<rparr>" for o5
    using spec_field_text [OF assms(7)] by blast
  show ?thesis
    unfolding spec_header_def andThen_simps 1 2 3 [OF refl] 4 [OF refl] 5 [OF refl] 6 [OF refl]
    by simp
qed

definition put_time :: "gotime option \<Rightarrow> syslogMessage \<Rightarrow> syslogMessage" where
  "put_time x out =
     (case x of None \<Rightarrow> out | Some t \<Rightarrow> out\<lparr>timestamp := Some t, timestampSet := True\<rparr>)"

definition time_text :: "gotime option \<Rightarrow> bytes" where
  "time_text x = (case x of None \<Rightarrow> [45] | Some t \<Rightarrow> time_Format_RFC3339MICRO t)"

lemma spec_time_text:
  assumes "case x of None \<Rightarrow> True | Some t \<Rightarrow> valid_time t \<and> micro_time t = t"
  shows "\<exists>c. spec_timestamp col (time_text x @ 32 # r) out = Inr (c, r, put_time x out)"
  using assms spec_timestamp_text(1)
  by (auto simp: time_text_def put_time_def format_is_timestamp time_parse_format
      intro: spec_timestamp_text(2) split: option.splits)

definition put_sd :: "sdmap option \<Rightarrow> syslogMessage \<Rightarrow> syslogMessage" where
  "put_sd x out =
     (case x of None \<Rightarrow> out | Some sd \<Rightarrow> out\<lparr>structuredData := Some sd, hasElements := True\<rparr>)"

lemma spec_sd_opt_text:
  assumes "case x of None \<Rightarrow> True | Some sd \<Rightarrow> sd_wf sd" "m = [] \<or> (\<exists>y. m = 32 # y)"
  shows "\<exists>c. spec_sd col ((case x of None \<Rightarrow> [45] | Some sd \<Rightarrow> render_sd sd) @ m) out =
    Inr (c, (if m = [] then [] else tl m), put_sd x out)"
proof (cases x)
  case None
  then show ?thesis
    using assms(2) by (auto simp: spec_sd_def put_sd_def)
next
  case (Some sd)
  then show ?thesis
    using spec_sd_text [of sd m col out] assms by (simp add: put_sd_def)
qed

lemma parsed_alt:
  "parsed opt sm =
    (let out = put_sd (map_option nil_is_empty (StructuredData sm)) (((put_time (Timestamp sm)
        (set_version (dec_string (unat (Version sm)))
          (set_prival (dec_string (unat (the (Priority sm)))) (syslogMessage_init opt))))
          \<lparr>hostname := or_nil (Hostname sm)\<rparr>)\<lparr>appname := or_nil (Appname sm)\<rparr>
          \<lparr>procID := or_nil (ProcID sm)\<rparr>\<lparr>msgID := or_nil (MsgID sm)\<rparr>)
     in (case Message sm of None \<Rightarrow> out | Some x \<Rightarrow> set_msg x out))"
  by (simp add: parsed_def put_sd_def put_time_def Let_def split: option.split)

lemma String_Parse_inverse:
  assumes "message_wf sm"
    and "m_compliantMsg m \<Longrightarrow> (case Message sm of None \<Rightarrow> True
      | Some x \<Rightarrow> take 3 x = [239, 187, 191] \<longrightarrow> valid_utf8 (drop 3 x))"
  shows "\<exists>out. SyslogMessage_String sm = Inr out \<and>
    map_option snd (Parse m out) = Some (Some sm, None)"
proof -
  obtain pr where pr: "Priority sm = Some pr" "unat pr \<le> 191"
    using assms(1) by (auto simp: message_wf_def ValidPriority_iff split: option.splits)
  have w: "counted is_graph 255 (or_nil (Hostname sm))" "counted is_graph 48 (or_nil (Appname sm))"
    "counted is_graph 128 (or_nil (ProcID sm))" "counted is_graph 32 (or_nil (MsgID sm))"
    "1 \<le> unat (Version sm)" "unat (Version sm) \<le> 999"
    using assms(1) by (simp_all add: message_wf_def or_nil_counted ValidVersion_iff)
  have ts: "case Timestamp sm of None \<Rightarrow> True | Some t \<Rightarrow> valid_time t \<and> micro_time t = t"
    using assms(1) by (simp add: message_wf_def)
  define sds where "sds = map_option nil_is_empty (StructuredData sm)"
  have sd: "case sds of None \<Rightarrow> True | Some sd \<Rightarrow> sd_wf sd"
    using assms(1) by (auto simp: message_wf_def sds_def elements_wf_def split: option.splits)
  define m' where "m' = (case Message sm of None \<Rightarrow> [] | Some x \<Rightarrow> 32 # x)"
  define body where "body = time_text (Timestamp sm) @ 32 # or_nil (Hostname sm) @ 32 #
    or_nil (Appname sm) @ 32 # or_nil (ProcID sm) @ 32 # or_nil (MsgID sm) @ 32 #
    (case sds of None \<Rightarrow> [45] | Some x \<Rightarrow> render_sd x) @ m'"
  define input where "input = 60 # dec_string (unat pr) @ 62 # dec_string (unat (Version sm)) @ 32 # body"
  have valid: "SyslogMessage_Valid sm"
    using assms(1) pr by (auto simp: message_wf_def SyslogMessage_Valid_def Valid_def)
  have text_eq: "SyslogMessage_String sm = Inr input"
    using pr(1) valid
    by (simp add: SyslogMessage_String_def input_def body_def m'_def time_text_def sds_def Let_def split: option.split)
  have run: "spec_parse be com opt input = (Some sm, None)"
    if com: "com \<Longrightarrow> (case Message sm of None \<Rightarrow> True
      | Some x \<Rightarrow> take 3 x = [239, 187, 191] \<longrightarrow> valid_utf8 (drop 3 x))" for be com opt
  proof -
    let ?o1 = "set_prival (dec_string (unat pr)) (syslogMessage_init opt)"
    obtain c1 where 1: "spec_pri 0 input (syslogMessage_init opt) =
        Inr (c1, dec_string (unat (Version sm)) @ 32 # body, ?o1)"
      using spec_pri_text [OF pr(2)] unfolding input_def by blast
    let ?o2 = "((put_time (Timestamp sm) (set_version (dec_string (unat (Version sm))) ?o1))
          \<lparr>hostname := or_nil (Hostname sm)\<rparr>)\<lparr>appname := or_nil (Appname sm)\<rparr>
          \<lparr>procID := or_nil (ProcID sm)\<rparr>\<lparr>msgID := or_nil (MsgID sm)\<rparr>"
    obtain c2 where 2: "spec_header c1 (dec_string (unat (Version sm)) @ 32 # body) ?o1 =
        Inr (c2, (case sds of None \<Rightarrow> [45] | Some x \<Rightarrow> render_sd x) @ m', ?o2)"
      using spec_header_text [OF w(5,6) spec_time_text [OF ts] w(1-4)] unfolding body_def by blast
    have m': "m' = [] \<or> (\<exists>y. m' = 32 # y)"
      by (simp add: m'_def split: option.split)
    obtain c3 where 3: "spec_sd c2 ((case sds of None \<Rightarrow> [45] | Some x \<Rightarrow> render_sd x) @ m') ?o2 =
        Inr (c3, (if m' = [] then [] else tl m'), put_sd sds ?o2)"
      using spec_sd_opt_text [OF sd m'] by blast
    have scan_ok: "\<not> valid_utf8 r" if "msg_scan r = (k, False)" for r k
      using msg_scan_valid [of r] that by simp
    have 4: "spec_msg com c3 (if m' = [] then [] else tl m') (put_sd sds ?o2) =
        Inr (parsed opt sm)"
      using com assms(1) scan_ok
      by (auto simp: spec_msg_def m'_def parsed_alt Let_def pr(1) sds_def message_wf_def
          split: option.splits prod.splits)
    have hd: "input \<noteq> [] \<and> hd input = 60"
      by (simp add: input_def)
    show ?thesis
      using export_parsed [OF assms(1), of opt]
      by (simp add: spec_parse_def hd Let_def 1 2 3 4 andThen_simps)
  qed
  show ?thesis
    using text_eq Parse_is_spec [of m input] run [of "m_compliantMsg m", OF assms(2)] by simp
qed

lemma String_starts: "SyslogMessage_String sm = Inr t \<Longrightarrow> t \<noteq> [] \<and> hd t = 60"
  by (auto simp: SyslogMessage_String_def Let_def split: option.splits if_splits)

text \<open>
  C3: Printing and parsing are inverse: a well-formed message (fields of the grammar, values in
  UTF-8, a time with microseconds) has a text, and \<open>Parse\<close> of that text, with any options, returns
  the same message and no error. With the compliance option a message part that starts with the
  byte order mark must be in UTF-8.
\<close>

theorem String_Parse_roundtrip:
  assumes "message_wf sm"
    and "m_compliantMsg m \<Longrightarrow> (case Message sm of None \<Rightarrow> True
      | Some x \<Rightarrow> take 3 x = [239, 187, 191] \<longrightarrow> valid_utf8 (drop 3 x))"
  shows "\<exists>out. SyslogMessage_String sm = Inr out \<and>
    map_option snd (Parse m out) = Some (Some sm, None)"
  using assms by (rule String_Parse_inverse)

text \<open>
  A message with every part: <165>1 2003-10-11T22:14:15.003Z h a p i [e k="v]"] hi, as a message.
\<close>

definition sample_message :: SyslogMessage where
  "sample_message = SyslogMessage_zero\<lparr>Version := 1, Priority := Some 165, Facility := Some 20,
     Severity := Some 5,
     Timestamp := Some \<lparr>t_year = 2003, t_month = 10, t_day = 11, t_hour = 22, t_min = 14, t_sec = 15,
       t_nsec = 3000000, t_zone = UTC\<rparr>,
     Hostname := Some [104], Appname := Some [97], ProcID := Some [112], MsgID := Some [105],
     StructuredData := Some (made (fmupd [101] (fmupd [107] [118, 93] fmempty) fmempty)),
     Message := Some [104, 105]\<rparr>"

lemma sorted_single: "sorted_list_of_fset {|k|} = [k]"
  by (simp add: sorted_list_of_fset.rep_eq)

lemma sample_message_wf: "message_wf sample_message"
proof -
  have 1: "sd_wf (fmupd [101] (fmupd [107] [118, 93] fmempty) fmempty)"
  proof -
    have "fmupd [101] (fmupd [107] [118, 93] fmempty) fmempty \<noteq> (fmempty :: sdmap)"
      by (metis fmempty_lookup fmupd_lookup option.distinct(1))
    then show ?thesis
      by (simp add: sd_wf_def sd_list_def sorted_single elem_wf_def param_list_def param_wf_def
          counted_def go_lookup_def byte_class valid_utf8.simps rune_width.simps)
  qed
  have 2: "field_wf 255 (Some [104])" "field_wf 48 (Some [97])" "field_wf 128 (Some [112])"
    "field_wf 32 (Some [105])" "ValidPriority 165" "ValidVersion 1"
    by (simp_all add: field_wf_def counted_def byte_class ValidPriority_iff ValidVersion_iff)
  have 3: "valid_time t \<and> micro_time t = t"
    if "t = \<lparr>t_year = 2003, t_month = 10, t_day = 11, t_hour = 22, t_min = 14, t_sec = 15,
       t_nsec = 3000000, t_zone = UTC\<rparr>" for t
    by (simp add: that valid_time_def micro_time_def daysIn_def zone_offset_def Let_def)
  show ?thesis
    using 1 2 3 by (simp add: message_wf_def elements_wf_def sample_message_def SyslogMessage_zero_def Base_zero_def Base.extend_def)
qed

theorem String_Parse_roundtrip_witness:
  "\<exists>out. SyslogMessage_String sample_message = Inr out \<and>
    map_option snd (Parse (machine_zero\<lparr>m_compliantMsg := True\<rparr>) out) = Some (Some sample_message, None)"
  by (rule String_Parse_roundtrip [OF sample_message_wf]) (simp add: sample_message_def)

end
