(* ===== verification/RFC5424_Text.thy ===== *)
theory RFC5424_Text
  imports RFC5424_Parser RFC5424_RoundTrip
begin

text \<open>
  The text of a message and the answer of the machine to it, for the round trips over the transports.
\<close>

text \<open>The text of a message, as \<open>String\<close> prints it.\<close>

definition message_text :: "SyslogMessage \<Rightarrow> bytes" where
  "message_text sm = (case SyslogMessage_String sm of Inl e \<Rightarrow> [] | Inr t \<Rightarrow> t)"

text \<open>The condition on the free-form part under the compliance option.\<close>

definition message_compliant :: "SyslogMessage \<Rightarrow> bool" where
  "message_compliant sm \<longleftrightarrow>
     (case Message sm of None \<Rightarrow> True | Some x \<Rightarrow> take 3 x = [239, 187, 191] \<longrightarrow> valid_utf8 (drop 3 x))"

lemma message_text_answer:
  assumes "message_wf sm" "m_compliantMsg m \<longrightarrow> message_compliant sm"
  shows "answer machine_methods m (message_text sm) = Some (Some sm, None)"
    "message_text sm \<noteq> []" "hd (message_text sm) = 60"
proof -
  obtain t where t: "SyslogMessage_String sm = Inr t" "map_option snd (Parse m t) = Some (Some sm, None)"
    using String_Parse_inverse [of sm m] assms by (auto simp: message_compliant_def)
  then show "answer machine_methods m (message_text sm) = Some (Some sm, None)"
    "message_text sm \<noteq> []" "hd (message_text sm) = 60"
    using String_starts [OF t(1)] by (simp_all add: message_text_def answer_def)
qed

text \<open>The text of the sample: <165>1 2003-10-11T22:14:15.003Z h a p i [e k="v\]"] hi\<close>

lemma sample_message_text:
  "last (message_text sample_message) = 105" "length (message_text sample_message) = 54"
proof -
  have "SyslogMessage_Valid sample_message"
    by (simp add: SyslogMessage_Valid_def Valid_def sample_message_def ValidPriority_iff ValidVersion_iff)
  then have "\<exists>t. SyslogMessage_String sample_message = Inr t \<and> last t = 105 \<and> length t = 54"
    by (simp add: SyslogMessage_String_def)
      (simp add: sample_message_def SyslogMessage_zero_def Base_zero_def Base.extend_def or_nil_def
        render_sd_def render_element_def sorted_single dec_string.simps dig_def
        time_Format_RFC3339MICRO_def format_year_def pad2_def pad4_def format_frac_def format_zone_def
        render_param_def go_lookup_def Let_def trim_zeros_def micro_digits_def EscapeBytes.simps
        rune_width.simps toescape_def zone_offset_def)
  then show "last (message_text sample_message) = 105" "length (message_text sample_message) = 54"
    by (auto simp: message_text_def)
qed

end
