(* ===== verification/NonTransparent_RFC5424.thy ===== *)
theory NonTransparent_RFC5424
  imports NonTransparent_Lines RFC5424_Text
begin

text \<open>
  nontransparent/parser.go, \<open>NewParser\<close>: non-transparent framing around the RFC 5424 machine, and
  what it does on streams of lines.
\<close>

section \<open>The constructor\<close>

type_synonym 'rerr nt_parser =
  "(RFC5424_Machine.machine \<Rightarrow> RFC5424_Machine.machine, RFC5424_Machine.machine, SyslogMessage, perror, 'rerr)
    NonTransparent.machine"

definition nt_zero :: "'rerr nt_parser" where
  "nt_zero =
     \<lparr>trailertyp = LF, trailer = 0, candidate = [], bestEffort = False, internal = NewMachine [],
      internalOpts = [], emitted = [], readError = None, lastChunk = [], rfc3164Opts = [],
      rfc5424Opts = [], noFallback = False\<rparr>"

definition nt_NewParser :: "('rerr nt_parser \<Rightarrow> 'rerr nt_parser) list \<Rightarrow> 'rerr nt_parser" where
  "nt_NewParser options =
     (let m = fold (\<lambda>opt m. opt m) options nt_zero;
          m = m\<lparr>trailer := word_of_int (fst (TrailerType_Value (trailertyp m)))\<rparr>;
          m = (if bestEffort m
               then m\<lparr>internalOpts := internalOpts m @ [RFC5424_Parser.WithBestEffort]\<rparr> else m)
      in m\<lparr>internal := NewMachine (internalOpts m)\<rparr>)"

section \<open>Results\<close>

interpretation nt5424: line_stream machine_methods "\<lambda>_. True"
  by unfold_locales

text \<open>
  Marshalling a trailer type and reading the text back gives the same type, and only the two
  named types have a text. An unknown text sets the receiver to -1, which is no type.
\<close>

theorem trailer_roundtrip:
  "(case MarshalText t of None \<Rightarrow> t \<noteq> LF \<and> t \<noteq> NUL | Some s \<Rightarrow> UnmarshalText s = (t, True)) \<and>
   (snd (UnmarshalText s) \<or> fst (UnmarshalText s) = - 1) \<and>
   (snd (UnmarshalTOML s) = snd (TrailerType_Value (fst (UnmarshalTOML s))))"
proof -
  have "t < LF \<or> t > NUL \<or> t = LF \<or> t = NUL"
    by (auto simp: LF_def NUL_def)
  then have "case MarshalText t of None \<Rightarrow> t \<noteq> LF \<and> t \<noteq> NUL | Some s \<Rightarrow> UnmarshalText s = (t, True)"
    by (elim disjE) (simp_all add: MarshalText_def TrailerType_String_def LF_def NUL_def names_def
      UnmarshalText_def TrailerTypeFromString_def to_upper_def Let_def)
  then show ?thesis
    by (auto simp: UnmarshalTOML_def UnmarshalText_def TrailerTypeFromString_def TrailerType_Value_def
        Let_def LF_def NUL_def)
qed


text \<open>
  C39: A last chunk without a trailer is answered too: in best-effort mode with its result; else a
  message without an error is replaced by the read error.
\<close>

theorem nt_unterminated:
  assumes "trailer_ok m" "candidate m = []" "\<forall>x\<in>set xs. lines_wf (trailer m) x" "chunk \<noteq> []"
  shows "\<exists>q. NonTransparent.Parse machine_methods
      (concat (map (line_calls (trailer m)) xs) @ [OnErr_call chunk e, OnCompletion_call]) m = Some q \<and>
    emitted q = emitted m @ map (\<lambda>x. nt_result machine_methods (internal m) (joined (trailer m) x)) xs @
      [nt_last_result machine_methods (internal m) chunk e]"
  using nt5424.Parse_unterminated [OF assms(1,3,4) TrueI] assms(2) by (simp add: nt5424.collected_def)

text \<open>
  C40: The parser cannot be used twice: the candidate is not reset at the end of a stream, so the
  last message of one stream is emitted again when the first message of the next one starts.
\<close>

theorem nt_reuse_duplicates:
  assumes "trailer_ok m" "trailer m \<noteq> 60" "readError m = None" "candidate m = []"
    and "trailer m \<notin> set x" "trailer m \<notin> set y"
  shows "\<exists>q q'. NonTransparent.Parse machine_methods [Exec_call 0 (60 # x @ [trailer m]), OnCompletion_call] m = Some q \<and>
    NonTransparent.Parse machine_methods [Exec_call 0 (60 # y @ [trailer m]), OnCompletion_call] q = Some q' \<and>
    emitted q' = emitted m @ [nt_result machine_methods (internal m) (60 # x),
      nt_result machine_methods (internal m) (60 # x), nt_result machine_methods (internal m) (60 # y)]"
  by (rule nt5424.Parse_twice [OF assms TrueI])

text \<open>
  C5: From message to message over non-transparent framing: the texts of well-formed messages that
  do not contain the trailer come back as exactly these messages, in order and without an error.
\<close>

theorem nt_roundtrip:
  fixes m :: "'rerr nt_parser"
  assumes "trailer_ok m" "readError m = None" "candidate m = []" "trailer m \<noteq> 60"
    and "\<forall>sm\<in>set sms. message_wf sm \<and> (m_compliantMsg (internal m) \<longrightarrow> message_compliant sm)"
    and "\<forall>sm\<in>set sms. trailer m \<notin> set (message_text sm)"
  shows "\<exists>q. NonTransparent.Parse machine_methods
      (map (\<lambda>sm. Exec_call 0 (message_text sm @ [trailer m])) sms @ [OnCompletion_call]) m = Some q \<and>
    emitted q = emitted m @ map (\<lambda>sm. \<lparr>res_Message = Some sm, res_Error = None\<rparr>) sms"
proof -
  let ?x = "\<lambda>sm. (tl (message_text sm), []) :: lines"
  have shape: "message_text sm = 60 # tl (message_text sm)" if "sm \<in> set sms" for sm
    using message_text_answer(2,3) [of sm "internal m"] assms(5) that
    by (cases "message_text sm") auto
  have calls: "concat (map (line_calls (trailer m)) (map ?x sms)) =
      map (\<lambda>sm. Exec_call 0 (message_text sm @ [trailer m])) sms"
    using shape by (induction sms) (simp_all add: line_calls_def)
  have "trailer m \<notin> set (tl (message_text sm))" if "sm \<in> set sms" for sm
    using assms(6) shape [OF that] that by (metis list.set_intros(2))
  then have wf: "\<forall>x\<in>set (map ?x sms). lines_wf (trailer m) x"
    using assms(4) by (auto simp: lines_wf_def)
  have res: "(nt_result machine_methods (internal m) (joined (trailer m) (?x sm)) ::
        (SyslogMessage, (perror, 'rerr) nt_error) Result) = \<lparr>res_Message = Some sm, res_Error = None\<rparr>" if "sm \<in> set sms" for sm
    using message_text_answer(1) [of sm "internal m"] assms(5) shape [OF that] that
    by (simp add: joined_def nt_result_def)
  have all: "map (\<lambda>x. nt_result machine_methods (internal m) (joined (trailer m) x)) (map ?x sms) =
      (map :: (SyslogMessage \<Rightarrow> (SyslogMessage, (perror, 'rerr) nt_error) Result) \<Rightarrow> _) (\<lambda>sm. \<lparr>res_Message = Some sm, res_Error = None\<rparr>) sms"
    using res by simp
  show ?thesis
    using nt5424.Parse_stream [OF assms(1) wf assms(2) TrueI] assms(3)
    unfolding calls all by (simp add: nt5424.collected_def)
qed

section \<open>The properties at work\<close>

text \<open>A new parser with NUL trailers, and one with the default LF.\<close>

definition sample_nul :: "unit nt_parser" where
  "sample_nul = nt_NewParser [WithTrailer NUL]"

definition sample_lf :: "unit nt_parser" where
  "sample_lf = nt_NewParser []"

lemma sample_nt_fields:
  "trailer_ok sample_nul" "trailer sample_nul = 0" "readError sample_nul = None"
  "candidate sample_nul = []" "emitted sample_nul = []"
  "trailer_ok sample_lf" "trailer sample_lf = 10" "readError sample_lf = None"
  "candidate sample_lf = []" "emitted sample_lf = []"
  by (simp_all add: sample_nul_def sample_lf_def nt_NewParser_def nt_zero_def Let_def WithTrailer_def
      TrailerType_Value_def LF_def NUL_def trailer_bytes_def trailer_ok_def)

text \<open>A message of two lines and one of one line.\<close>

definition sample_lines :: "lines list" where
  "sample_lines = [(lit ''1>1 - - - - - - a'', [lit ''b'']), (lit ''2>1 - - - - - -'', [])]"

lemma sample_lines_wf: "\<forall>x\<in>set sample_lines. lines_wf 10 x"
  by (simp add: sample_lines_def lines_wf_def goes_on_def)


theorem nt_unterminated_witness:
  "\<exists>q. NonTransparent.Parse machine_methods
      (concat (map (line_calls 10) sample_lines) @ [OnErr_call [60] (), OnCompletion_call]) sample_lf = Some q \<and>
    emitted q = map (\<lambda>x. nt_result machine_methods (internal sample_lf) (joined 10 x)) sample_lines @
      [nt_last_result machine_methods (internal sample_lf) [60] ()]"
  using nt_unterminated [of sample_lf sample_lines "[60]" "()"] sample_nt_fields sample_lines_wf by simp

theorem nt_reuse_duplicates_witness:
  "\<exists>q q'. NonTransparent.Parse machine_methods [Exec_call 0 (60 # lit ''1>x'' @ [10]), OnCompletion_call] sample_lf = Some q \<and>
    NonTransparent.Parse machine_methods [Exec_call 0 (60 # lit ''2>y'' @ [10]), OnCompletion_call] q = Some q' \<and>
    length (emitted q') = 3"
  using nt_reuse_duplicates [of sample_lf "lit ''1>x''" "lit ''2>y''"] sample_nt_fields by auto

lemma sample_text_no_nul: "0 \<notin> set (message_text sample_message)"
  by (simp add: message_text_def SyslogMessage_String_def sample_message_def SyslogMessage_zero_def
      Base_zero_def Base.extend_def or_nil_def render_sd_def render_element_def sorted_single
      dec_string.simps dig_def time_Format_RFC3339MICRO_def format_year_def pad2_def pad4_def format_frac_def format_zone_def
      render_param_def go_lookup_def Let_def trim_zeros_def micro_digits_def EscapeBytes.simps
      rune_width.simps toescape_def zone_offset_def)

theorem nt_roundtrip_witness:
  "\<exists>q. NonTransparent.Parse machine_methods
      [Exec_call 0 (message_text sample_message @ [0]), Exec_call 0 (message_text sample_message @ [0]),
        OnCompletion_call] sample_nul = Some q \<and>
    emitted q = [\<lparr>res_Message = Some sample_message, res_Error = None\<rparr>,
      \<lparr>res_Message = Some sample_message, res_Error = None\<rparr>]"
proof -
  have "message_compliant sample_message"
    by (simp add: message_compliant_def sample_message_def)
  then show ?thesis
    using nt_roundtrip [of sample_nul "[sample_message, sample_message]"]
      sample_nt_fields sample_message_wf sample_text_no_nul by simp
qed

end
