(* ===== verification/OctetCounting.thy ===== *)
theory OctetCounting
  imports GoIO Interfaces
begin

text \<open>
  Package \<open>octetcounting\<close> (tokens.go, scanner.go, parser.go): the framing of RFC 5425 / RFC 6587,
  a decimal length, a space and the message. The listener is the list of the results emitted so
  far; the inner machine is any \<open>syslog.Machine\<close>.
\<close>

section \<open>Tokens\<close>

datatype TokenType = ILLEGAL | EOF | LF | WS | MSGLEN | SYSLOGMSG

record Token =
  tok_typ :: TokenType
  tok_lit :: bytes

fun TokenType_int :: "TokenType \<Rightarrow> int" where
  "TokenType_int ILLEGAL = 0"
| "TokenType_int EOF = 1"
| "TokenType_int LF = 2"
| "TokenType_int WS = 3"
| "TokenType_int MSGLEN = 4"
| "TokenType_int SYSLOGMSG = 5"

definition tokentypename :: bytes where
  "tokentypename = lit ''ILLEGALEOFLFWSMSGLENSYSLOGMSG''"

definition tokentypeindex :: "nat list" where
  "tokentypeindex = [0, 7, 10, 12, 14, 20, 29]"

text \<open>
  \<open>TokenType.String\<close> on any value of the Go type; \<open>show_int\<close> is \<open>strconv.FormatInt\<close> in base 10.
  \<open>None\<close> is an index out of range.
\<close>

definition TokenType_String :: "(int \<Rightarrow> bytes) \<Rightarrow> int \<Rightarrow> bytes option" where
  "TokenType_String show_int i =
     (if i < 0 \<or> i \<ge> int (length tokentypeindex - 1)
      then Some (lit ''TokenType('' @ show_int i @ lit '')'')
      else (case (gindex tokentypeindex (nat i), gindex tokentypeindex (nat i + 1)) of
              (Some a, Some b) \<Rightarrow> gslice tokentypename a b
            | _ \<Rightarrow> None))"

definition Token_String :: "(int \<Rightarrow> bytes) \<Rightarrow> Token \<Rightarrow> bytes option" where
  "Token_String show_int t =
     map_option (\<lambda>s. if tok_typ t = WS \<or> tok_typ t = EOF then s else s @ lit ''('' @ tok_lit t @ lit '')'')
       (TokenType_String show_int (TokenType_int (tok_typ t)))"

section \<open>Scanner\<close>

definition MaxInt :: "64 word" where
  "MaxInt = 9223372036854775807"

definition ErrMsgInvalidLength :: bytes where
  "ErrMsgInvalidLength = lit ''invalid message length''"

definition ErrMsgTooLarge :: bytes where
  "ErrMsgTooLarge = lit ''message length (%d) exceeds maximum length (%d)''"

definition ErrMsgExceedsIntLimit :: bytes where
  "ErrMsgExceedsIntLimit = lit ''message length exceeds system limit''"

definition eof :: byte where "eof = 0"
definition lf :: byte where "lf = 10"
definition ws :: byte where "ws = 32"
definition lt :: byte where "lt = 60"

definition isDigit :: "byte \<Rightarrow> bool" where
  "isDigit ch \<longleftrightarrow> ch \<ge> 48 \<and> ch \<le> 57"

definition isNonZeroDigit :: "byte \<Rightarrow> bool" where
  "isNonZeroDigit ch \<longleftrightarrow> ch \<ge> 49 \<and> ch \<le> 57"

record Scanner =
  s_r :: reader
  s_msglen :: "64 word"
  s_ready :: bool
  s_maxlen :: goint

definition DefaultMaxSize :: goint where
  "DefaultMaxSize = 8192"

text \<open>
  \<open>getReader\<close>: a reader from the pool (of some size) if it is large enough, else a new one; a new
  one has at least 16 bytes.
\<close>

definition getReader :: "nat option \<Rightarrow> bytes \<Rightarrow> goint \<Rightarrow> reader" where
  "getReader pool input sz =
     (let new = nat (max 16 (sint sz)) in
      \<lparr>rd_rest = input,
       rd_size = (case pool of None \<Rightarrow> new | Some n \<Rightarrow> if int n < sint sz then new else n),
       rd_last = None\<rparr>)"

definition NewScanner :: "nat option \<Rightarrow> bytes \<Rightarrow> goint \<Rightarrow> Scanner" where
  "NewScanner pool input maxLength =
     (let maxLength = (if sint maxLength \<le> 0 then DefaultMaxSize else maxLength) in
      \<lparr>s_r = getReader pool input (maxLength + 20), s_msglen = 0, s_ready = False,
       s_maxlen = maxLength\<rparr>)"

definition read :: "Scanner \<Rightarrow> byte \<times> Scanner" where
  "read s =
     (case ReadByte (s_r s) of
        (None, r) \<Rightarrow> (eof, s\<lparr>s_r := r\<rparr>)
      | (Some b, r) \<Rightarrow> (b, s\<lparr>s_r := r\<rparr>))"

definition unread :: "Scanner \<Rightarrow> Scanner" where
  "unread s = s\<lparr>s_r := UnreadByte (s_r s)\<rparr>"

abbreviation unscanned :: "Scanner \<Rightarrow> bytes" where
  "unscanned s \<equiv> rd_rest (s_r s)"

lemma read_cases:
  "read s = (case unscanned s of
     [] \<Rightarrow> (0, s)
   | b # bs \<Rightarrow> (b, s\<lparr>s_r := (s_r s)\<lparr>rd_rest := bs, rd_last := Some b\<rparr>\<rparr>))"
  by (cases s) (auto simp: read_def ReadByte_def eof_def split: list.split)

text \<open>The digits of a length; the byte after them is put back unless it is a NUL byte.\<close>

function scan_digits :: "Scanner \<Rightarrow> bytes \<Rightarrow> bytes \<times> Scanner" where
  "scan_digits s buf =
     (case read s of
        (b, s') \<Rightarrow>
          if b = eof then (buf, s')
          else if \<not> isDigit b then (buf, unread s')
          else scan_digits s' (buf @ [b]))"
  by pat_completeness auto
termination
  by (relation "measure (\<lambda>(s, buf). length (unscanned s))")
    (auto simp: read_cases eof_def split: list.splits)

declare scan_digits.simps [simp del]

definition scanMsgLen :: "Scanner \<Rightarrow> Token \<times> Scanner" where
  "scanMsgLen s =
     (case read s of
        (b, s) \<Rightarrow>
          (case scan_digits s [b] of
             (buf, s) \<Rightarrow>
               (case ParseUint 64 buf of
                  Inl e \<Rightarrow> (\<lparr>tok_typ = ILLEGAL, tok_lit = ErrMsgInvalidLength\<rparr>, s)
                | Inr n \<Rightarrow>
                    let l = word_of_nat n in
                    if l > s_maxlen s
                    then (\<lparr>tok_typ = ILLEGAL, tok_lit = ErrMsgTooLarge\<rparr>, s\<lparr>s_msglen := l\<rparr>)
                    else (\<lparr>tok_typ = MSGLEN, tok_lit = buf\<rparr>, s\<lparr>s_msglen := l\<rparr>))))"

definition scanSyslogMsg :: "Scanner \<Rightarrow> Token \<times> Scanner" where
  "scanSyslogMsg s =
     (if s_msglen s > MaxInt
      then (\<lparr>tok_typ = ILLEGAL, tok_lit = ErrMsgExceedsIntLimit\<rparr>, s\<lparr>s_ready := False, s_msglen := 0\<rparr>)
      else
        let n = unat (s_msglen s) in
        case Peek n (s_r s) of
          (b, ok, r) \<Rightarrow>
            if \<not> ok then (\<lparr>tok_typ = EOF, tok_lit = b\<rparr>, s\<lparr>s_r := r\<rparr>)
            else (\<lparr>tok_typ = SYSLOGMSG, tok_lit = b\<rparr>,
              s\<lparr>s_r := Discard n r, s_ready := False, s_msglen := 0\<rparr>))"

definition Scan :: "Scanner \<Rightarrow> Token \<times> Scanner" where
  "Scan s =
     (case read s of
        (b, s) \<Rightarrow>
          if isNonZeroDigit b then scanMsgLen ((unread s)\<lparr>s_ready := False\<rparr>)
          else if b = eof then (\<lparr>tok_typ = EOF, tok_lit = []\<rparr>, s\<lparr>s_ready := False\<rparr>)
          else if b = lf then (\<lparr>tok_typ = LF, tok_lit = [lf]\<rparr>, s\<lparr>s_ready := True\<rparr>)
          else if b = ws then (\<lparr>tok_typ = WS, tok_lit = [ws]\<rparr>, s\<lparr>s_ready := True\<rparr>)
          else if b = lt \<and> s_msglen s > 0 \<and> s_ready s then scanSyslogMsg (unread s)
          else (\<lparr>tok_typ = ILLEGAL, tok_lit = [b]\<rparr>, s))"

definition SetMaxLength :: "goint \<Rightarrow> Scanner \<Rightarrow> Scanner" where
  "SetMaxLength maxLength s = (if sint maxLength > 0 then s\<lparr>s_maxlen := maxLength\<rparr> else s)"

definition MaxLength :: "Scanner \<Rightarrow> goint" where
  "MaxLength s = s_maxlen s"

section \<open>Parser\<close>

text \<open>The errors that are emitted: those of the framing, or the error of the inner machine.\<close>

datatype 'err octet_error =
    InvalidLength
  | TooLarge "64 word" goint \<comment> \<open>the length read and the configured maximum\<close>
  | ExceedsIntLimit
  | Found Token TokenType \<comment> \<open>found the token, expecting the type\<close>
  | FoundAfter Token "64 word" \<comment> \<open>found the token, expecting a SYSLOGMSG of that many octets\<close>
  | Inner 'err

record ('opt, 'm, 'msg, 'err) parser =
  maxMessageLength :: goint
  scanner :: Scanner
  bestEffort :: bool
  internal :: 'm
  internalOpts :: "'opt list"
  last_tok :: Token
  stepback :: bool
  emitted :: "('msg, 'err octet_error) Result list"
  stripTrailingNL :: bool
  rfc3164Opts :: "'opt list"
  rfc5424Opts :: "'opt list"
  noFallback :: bool

definition emit ::
    "('msg, 'err octet_error) Result \<Rightarrow> ('opt, 'm, 'msg, 'err) parser \<Rightarrow> ('opt, 'm, 'msg, 'err) parser" where
  "emit r p = p\<lparr>emitted := emitted p @ [r]\<rparr>"

abbreviation emit_error ::
    "'err octet_error \<Rightarrow> ('opt, 'm, 'msg, 'err) parser \<Rightarrow> ('opt, 'm, 'msg, 'err) parser" where
  "emit_error e p \<equiv> emit \<lparr>res_Message = None, res_Error = Some e\<rparr> p"

text \<open>The methods that set the configuration, and the ones the options of package auto call.\<close>

definition WithBestEffort :: "('opt, 'm, 'msg, 'err) parser \<Rightarrow> ('opt, 'm, 'msg, 'err) parser" where
  "WithBestEffort p = p\<lparr>bestEffort := True\<rparr>"

definition HasBestEffort ::
    "('m, 'msg, 'err) Machine \<Rightarrow> ('opt, 'm, 'msg, 'err) parser \<Rightarrow> bool" where
  "HasBestEffort I p = HasBestEffort_method I (internal p)"

definition WithMachineOptions ::
    "'opt list \<Rightarrow> ('opt, 'm, 'msg, 'err) parser \<Rightarrow> ('opt, 'm, 'msg, 'err) parser" where
  "WithMachineOptions opts p = p\<lparr>internalOpts := internalOpts p @ opts\<rparr>"

definition WithMaxMessageLength ::
    "goint \<Rightarrow> ('opt, 'm, 'msg, 'err) parser \<Rightarrow> ('opt, 'm, 'msg, 'err) parser" where
  "WithMaxMessageLength len p = p\<lparr>maxMessageLength := len\<rparr>"

definition SetRFC3164Options ::
    "'opt list \<Rightarrow> ('opt, 'm, 'msg, 'err) parser \<Rightarrow> ('opt, 'm, 'msg, 'err) parser" where
  "SetRFC3164Options opts p = p\<lparr>rfc3164Opts := rfc3164Opts p @ opts\<rparr>"

definition SetRFC5424Options ::
    "'opt list \<Rightarrow> ('opt, 'm, 'msg, 'err) parser \<Rightarrow> ('opt, 'm, 'msg, 'err) parser" where
  "SetRFC5424Options opts p = p\<lparr>rfc5424Opts := rfc5424Opts p @ opts\<rparr>"

definition SetNoFallback :: "('opt, 'm, 'msg, 'err) parser \<Rightarrow> ('opt, 'm, 'msg, 'err) parser" where
  "SetNoFallback p = p\<lparr>noFallback := True\<rparr>"

text \<open>\<open>scan\<close> and \<open>unscan\<close>: one token of look-ahead can be handed back.\<close>

definition scan :: "('opt, 'm, 'msg, 'err) parser \<Rightarrow> Token \<times> ('opt, 'm, 'msg, 'err) parser" where
  "scan p =
     (if stepback p then (last_tok p, p\<lparr>stepback := False\<rparr>)
      else (case Scan (scanner p) of
              (tok, s) \<Rightarrow> (tok, p\<lparr>scanner := s, last_tok := tok\<rparr>)))"

definition unscan :: "('opt, 'm, 'msg, 'err) parser \<Rightarrow> ('opt, 'm, 'msg, 'err) parser" where
  "unscan p = p\<lparr>stepback := True\<rparr>"

text \<open>One trailing LF, or CR LF, is not part of the message.\<close>

definition strip_newline :: "bytes \<Rightarrow> bytes" where
  "strip_newline input =
     (if input \<noteq> [] \<and> last input = 10 then
        (let input = butlast input in
         if input \<noteq> [] \<and> last input = 13 then butlast input else input)
      else input)"

definition parse ::
    "('m, 'msg, 'err) Machine \<Rightarrow> bytes \<Rightarrow> ('opt, 'm, 'msg, 'err) parser \<Rightarrow>
     (('msg, 'err octet_error) Result \<times> ('opt, 'm, 'msg, 'err) parser) option" where
  "parse I input p =
     (let input = (if stripTrailingNL p \<and> length input > 0 then strip_newline input else input) in
      case Parse_method I (internal p) input of
        None \<Rightarrow> None
      | Some (m, msg, err) \<Rightarrow>
          Some (\<lparr>res_Message = msg, res_Error = map_option Inner err\<rparr>, p\<lparr>internal := m\<rparr>))"

text \<open>The error for a first token that is not a length.\<close>

definition first_error :: "Token \<Rightarrow> ('opt, 'm, 'msg, 'err) parser \<Rightarrow> 'err octet_error" where
  "first_error tok p =
     (if tok_typ tok = ILLEGAL \<and> tok_lit tok = ErrMsgInvalidLength then InvalidLength
      else if tok_typ tok = ILLEGAL \<and> tok_lit tok = ErrMsgTooLarge
        then TooLarge (s_msglen (scanner p)) (maxMessageLength p)
      else if tok_typ tok = ILLEGAL \<and> tok_lit tok = ErrMsgExceedsIntLimit then ExceedsIntLimit
      else Found tok MSGLEN)"

text \<open>
  The body of the loop of \<open>run\<close>: the parser after it and whether the loop goes on; \<open>None\<close> is a
  panic of the inner machine.
\<close>

definition run_body ::
    "('m, 'msg, 'err) Machine \<Rightarrow> ('opt, 'm, 'msg, 'err) parser \<Rightarrow>
     (bool \<times> ('opt, 'm, 'msg, 'err) parser) option" where
  "run_body I p =
     (case scan p of (tok, p) \<Rightarrow>
      if tok_typ tok \<noteq> MSGLEN then Some (False, emit_error (first_error tok p) p)
      else case scan p of (tok, p) \<Rightarrow>
      if tok_typ tok \<noteq> WS then Some (False, emit_error (Found tok WS) p)
      else case scan p of (tok, p) \<Rightarrow>
      if tok_typ tok \<noteq> SYSLOGMSG then
        (let e = FoundAfter tok (s_msglen (scanner p)) in
         if int (length (tok_lit tok)) < sint (s_msglen (scanner p)) \<and> HasBestEffort I p then
           (case parse I (tok_lit tok) p of
              None \<Rightarrow> None
            | Some (result, p) \<Rightarrow>
                Some (False, emit (if res_Error result = None then result\<lparr>res_Error := Some e\<rparr> else result) p))
         else Some (False, emit_error e p))
      else (case parse I (tok_lit tok) p of
        None \<Rightarrow> None
      | Some (result, p) \<Rightarrow>
          (let p = (if HasBestEffort I p \<or> res_Error result = None then emit result p else p) in
           if \<not> HasBestEffort I p \<and> res_Error result \<noteq> None
           then Some (False, emit \<lparr>res_Message = None, res_Error = res_Error result\<rparr> p)
           else (case scan p of (tok, p) \<Rightarrow>
             if tok_typ tok = EOF then Some (False, p)
             else if tok_typ tok \<noteq> LF then Some (True, unscan p)
             else Some (True, p)))))"

section \<open>Progress\<close>

lemma unread_read:
  "unscanned s = b # bs \<Longrightarrow>
    unread (s\<lparr>s_r := (s_r s)\<lparr>rd_rest := bs, rd_last := Some b\<rparr>\<rparr>) =
      s\<lparr>s_r := (s_r s)\<lparr>rd_last := None\<rparr>\<rparr>"
  by (cases s; cases "s_r s") (simp add: unread_def UnreadByte_def)

lemma scan_digits_unscanned:
  "scan_digits s buf = (ds, s') \<Longrightarrow>
    length (unscanned s') \<le> length (unscanned s) \<and> s_ready s' = s_ready s \<and>
    s_msglen s' = s_msglen s \<and> s_maxlen s' = s_maxlen s \<and> rd_size (s_r s') = rd_size (s_r s)"
proof (induction s buf rule: scan_digits.induct)
  case (1 s buf)
  show ?case
  proof (cases "unscanned s")
    case Nil
    with 1 show ?thesis
      by (simp add: scan_digits.simps [of s] read_cases eof_def)
  next
    case (Cons b bs)
    with 1 show ?thesis
      by (auto simp: scan_digits.simps [of s] read_cases eof_def unread_read split: if_splits)
  qed
qed

lemma scanMsgLen_unscanned:
  assumes "scanMsgLen s = (tok, s')" "unscanned s \<noteq> []"
  shows "length (unscanned s') < length (unscanned s) \<and>
    (tok_typ tok = MSGLEN \<or> tok_typ tok = ILLEGAL) \<and> s_maxlen s' = s_maxlen s \<and>
    rd_size (s_r s') = rd_size (s_r s) \<and> (tok_typ tok = MSGLEN \<longrightarrow> s_msglen s' \<le> s_maxlen s')"
proof -
  obtain b bs where b: "unscanned s = b # bs"
    using assms(2) by (cases "unscanned s") auto
  obtain ds s1 where s1: "scan_digits (s\<lparr>s_r := (s_r s)\<lparr>rd_rest := bs, rd_last := Some b\<rparr>\<rparr>) [b] = (ds, s1)"
    by fastforce
  show ?thesis
    using assms(1) scan_digits_unscanned [OF s1]
    by (auto simp: scanMsgLen_def read_cases b s1 Let_def not_less split: sum.splits if_splits)
qed

lemma scanSyslogMsg_unscanned:
  assumes "scanSyslogMsg s = (tok, s')" "s_msglen s > 0"
  shows "length (unscanned s') \<le> length (unscanned s) \<and> s_maxlen s' = s_maxlen s \<and>
    rd_size (s_r s') = rd_size (s_r s) \<and>
    (tok_typ tok = SYSLOGMSG \<and> length (unscanned s') < length (unscanned s) \<or>
     tok_typ tok = EOF \<or> tok_typ tok = ILLEGAL)"
proof -
  have "0 < unat (s_msglen s)"
    using assms(2) by (simp add: word_less_nat_alt)
  then show ?thesis
    using assms(1)
    by (auto simp: scanSyslogMsg_def Let_def Peek_def Discard_def split: if_splits)
qed

lemma Scan_unscanned:
  assumes "Scan s = (tok, s')"
  shows "length (unscanned s') \<le> length (unscanned s) \<and> s_maxlen s' = s_maxlen s \<and>
    rd_size (s_r s') = rd_size (s_r s) \<and>
    (tok_typ tok \<in> {MSGLEN, WS, LF, SYSLOGMSG} \<longrightarrow> length (unscanned s') < length (unscanned s))"
proof (cases "unscanned s")
  case Nil
  with assms show ?thesis
    by (auto simp: Scan_def read_cases eof_def isNonZeroDigit_def)
next
  case (Cons b bs)
  let ?s = "s\<lparr>s_r := (s_r s)\<lparr>rd_last := None\<rparr>\<rparr>"
  show ?thesis
  proof (cases "isNonZeroDigit b")
    case True
    with assms Cons have "scanMsgLen (?s\<lparr>s_ready := False\<rparr>) = (tok, s')"
      by (simp add: Scan_def read_cases unread_read)
    then show ?thesis
      using scanMsgLen_unscanned [of "?s\<lparr>s_ready := False\<rparr>" tok s'] Cons by auto
  next
    case False
    show ?thesis
    proof (cases "b = lt \<and> s_msglen s > 0 \<and> s_ready s")
      case True
      with assms Cons False have "scanSyslogMsg ?s = (tok, s')"
        by (simp add: Scan_def read_cases unread_read lt_def eof_def lf_def ws_def)
      then show ?thesis
        using scanSyslogMsg_unscanned [of ?s tok s'] True by auto
    next
      case not: False
      with assms Cons False show ?thesis
        by (auto simp: Scan_def read_cases split: if_splits)
    qed
  qed
qed

text \<open>What is left to read, with the token that was handed back.\<close>

definition pending :: "('opt, 'm, 'msg, 'err) parser \<Rightarrow> nat" where
  "pending p = 2 * length (unscanned (scanner p)) + (if stepback p then 1 else 0)"

lemma scan_pending:
  assumes "scan p = (tok, p')"
  shows "pending p' \<le> pending p" "\<not> stepback p'" "internal p' = internal p" "emitted p' = emitted p"
    "maxMessageLength p' = maxMessageLength p"
    "tok_typ tok \<in> {MSGLEN, WS, LF, SYSLOGMSG} \<Longrightarrow> pending p' < pending p"
    "\<not> stepback p \<Longrightarrow> tok_typ tok \<in> {MSGLEN, WS, LF, SYSLOGMSG} \<Longrightarrow> pending p' + 2 \<le> pending p"
  using assms Scan_unscanned [of "scanner p"]
  by (fastforce simp: scan_def pending_def split: if_splits prod.splits)+

lemma parse_pending:
  "parse I input p = Some (r, p') \<Longrightarrow>
    pending p' = pending p \<and> stepback p' = stepback p \<and> emitted p' = emitted p \<and> scanner p' = scanner p \<and> maxMessageLength p' = maxMessageLength p"
  by (auto simp: parse_def pending_def Let_def split: option.splits)

lemma pending_simps [simp]: "pending (emit r p) = pending p" "pending (unscan p) \<le> pending p + 1"
  "stepback (emit r p) = stepback p"
  by (simp_all add: pending_def emit_def unscan_def)

lemma run_body_pending:
  assumes "run_body I p = Some (go, p')"
  shows "pending p' \<le> pending p \<and> (go \<longrightarrow> pending p' < pending p) \<and> (\<not> go \<longrightarrow> \<not> stepback p')"
proof -
  obtain t1 p1 where 1: "scan p = (t1, p1)" by fastforce
  obtain t2 p2 where 2: "scan p1 = (t2, p2)" by fastforce
  obtain t3 p3 where 3: "scan p2 = (t3, p3)" by fastforce
  note s1 = scan_pending [OF 1] and s2 = scan_pending [OF 2] and s3 = scan_pending [OF 3]
  consider "tok_typ t1 \<noteq> MSGLEN" | "tok_typ t1 = MSGLEN" "tok_typ t2 \<noteq> WS"
    | "tok_typ t1 = MSGLEN" "tok_typ t2 = WS" "tok_typ t3 \<noteq> SYSLOGMSG"
    | "tok_typ t1 = MSGLEN" "tok_typ t2 = WS" "tok_typ t3 = SYSLOGMSG"
    by blast
  then show ?thesis
  proof cases
    case 4
    then obtain r p4 where 4: "parse I (tok_lit t3) p3 = Some (r, p4)"
      using assms 1 2 3 by (auto simp: run_body_def split: option.splits)
    define p5 where "p5 = (if HasBestEffort I p4 \<or> res_Error r = None then emit r p4 else p4)"
    have p5: "pending p5 = pending p3" "\<not> stepback p5" "pending p4 = pending p3" "\<not> stepback p4"
      using parse_pending [OF 4] s3(2) by (simp_all add: p5_def)
    obtain t6 p6 where 6: "scan p5 = (t6, p6)" by fastforce
    note s6 = scan_pending [OF 6]
    have "pending p3 + 4 < pending p"
      using s1(6) s2(7) s3(7) s1(2) s2(2) \<open>tok_typ t1 = MSGLEN\<close> \<open>tok_typ t2 = WS\<close>
        \<open>tok_typ t3 = SYSLOGMSG\<close> by force
    then show ?thesis
      using assms s6(1,2) p5 4 pending_simps(2) [of p6] \<open>tok_typ t1 = MSGLEN\<close> \<open>tok_typ t2 = WS\<close> \<open>tok_typ t3 = SYSLOGMSG\<close>
      by (auto simp: run_body_def 1 2 3 Let_def 6 simp flip: p5_def split: if_splits)
  next
    case 1
    then have "p' = emit_error (first_error t1 p1) p1" "\<not> go"
      using assms \<open>scan p = (t1, p1)\<close> by (simp_all add: run_body_def)
    then show ?thesis
      using s1(1,2) by simp
  next
    case 2
    then have "p' = emit_error (Found t2 WS) p2" "\<not> go"
      using assms \<open>scan p = (t1, p1)\<close> \<open>scan p1 = (t2, p2)\<close> by (simp_all add: run_body_def)
    then show ?thesis
      using s1(1) s2(1,2) by simp
  next
    case 3
    then consider r where "p' = emit r p3" "\<not> go"
      | r x p4 where "parse I (tok_lit t3) p3 = Some (x, p4)" "p' = emit r p4" "\<not> go"
      using assms \<open>scan p = (t1, p1)\<close> \<open>scan p1 = (t2, p2)\<close> \<open>scan p2 = (t3, p3)\<close>
      by (auto simp: run_body_def Let_def split: if_splits option.splits)
    then show ?thesis
    proof cases
      case 1
      then show ?thesis
        using s1(1) s2(1) s3(1,2) by simp
    next
      case 2
      then show ?thesis
        using s1(1) s2(1) s3(1,2) parse_pending [OF 2(1)] by simp
    qed
  qed
qed

text \<open>\<open>run\<close> ends: every turn of the loop reads a length, a space and a message.\<close>

function run ::
    "('m, 'msg, 'err) Machine \<Rightarrow> ('opt, 'm, 'msg, 'err) parser \<Rightarrow> ('opt, 'm, 'msg, 'err) parser option" where
  "run I p =
     (case run_body I p of
        None \<Rightarrow> None
      | Some (go, p') \<Rightarrow> if go then run I p' else Some p')"
  by pat_completeness auto
termination
  by (relation "measure (\<lambda>(I, p). pending p)") (auto dest: run_body_pending)

declare run.simps [simp del]

text \<open>\<open>Parse\<close> on a stream, with a reader from the pool if there is one.\<close>

definition Parse ::
    "('m, 'msg, 'err) Machine \<Rightarrow> nat option \<Rightarrow> bytes \<Rightarrow> ('opt, 'm, 'msg, 'err) parser \<Rightarrow>
     ('opt, 'm, 'msg, 'err) parser option" where
  "Parse I pool input p = run I (p\<lparr>scanner := NewScanner pool input (maxMessageLength p)\<rparr>)"

end
