(* ===== verification/OctetCounting_Frames.thy ===== *)
theory OctetCounting_Frames
  imports OctetCounting Decimal
begin

text \<open>
  Octet counting on streams of well-formed frames: the tokens of a frame, one turn of the loop, and
  the results of the whole stream as a function of the answers of the inner machine.
\<close>

definition frame :: "bytes \<Rightarrow> bytes" where
  "frame x = dec_string (length x) @ 32 # x"

section \<open>The tokens of a frame\<close>

lemma digit_classes [simp]: "isDigit = is_digit" "isNonZeroDigit = is_nonzero_digit"
  by (rule ext, simp add: isDigit_def isNonZeroDigit_def byte_class)+

text \<open>The scanner after reading up to \<open>r\<close>.\<close>

definition at :: "bytes \<Rightarrow> byte option \<Rightarrow> Scanner \<Rightarrow> Scanner" where
  "at r l s = s\<lparr>s_r := (s_r s)\<lparr>rd_rest := r, rd_last := l\<rparr>\<rparr>"

lemma at_simps [simp]:
  "unscanned (at r l s) = r" "at r l (at r' l' s) = at r l s" "rd_size (s_r (at r l s)) = rd_size (s_r s)"
  "s_msglen (at r l s) = s_msglen s" "s_ready (at r l s) = s_ready s" "s_maxlen (at r l s) = s_maxlen s"
  "at r l (s\<lparr>s_msglen := n\<rparr>) = (at r l s)\<lparr>s_msglen := n\<rparr>"
  "at r l (s\<lparr>s_ready := b\<rparr>) = (at r l s)\<lparr>s_ready := b\<rparr>"
  "rd_last (s_r (at r l s)) = l"
  by (simp_all add: at_def)

lemma read_at: "unscanned s = b # r \<Longrightarrow> read s = (b, at r (Some b) s)"
  by (simp add: read_cases at_def)

lemma unread_at: "unscanned s = b # r \<Longrightarrow> unread (at r (Some b) s) = at (b # r) None s"
  by (simp add: at_def unread_def UnreadByte_def)

lemma scan_digits_all:
  "unscanned s = ds @ c # r \<Longrightarrow> list_all is_digit ds \<Longrightarrow> \<not> is_digit c \<Longrightarrow> c \<noteq> 0 \<Longrightarrow>
    scan_digits s buf = (buf @ ds, at (c # r) None s)"
proof (induction ds arbitrary: s buf)
  case Nil
  then show ?case
    by (simp add: scan_digits.simps [of s] read_at unread_at eof_def)
next
  case (Cons d ds)
  have "d \<noteq> 0" using Cons.prems(2) by (auto simp: byte_class)
  then show ?case
    using Cons by (simp add: scan_digits.simps [of s] read_at eof_def)
qed

lemma Scan_length:
  assumes "list_all is_digit ds" "ds \<noteq> []" "hd ds \<noteq> 48" "\<not> is_digit c" "c \<noteq> 0"
    and "unscanned s = ds @ c # r" "dec_value ds 0 \<le> unat (s_maxlen s)"
  shows "Scan s = (\<lparr>tok_typ = MSGLEN, tok_lit = ds\<rparr>,
    (at (c # r) None s)\<lparr>s_msglen := word_of_nat (dec_value ds 0), s_ready := False\<rparr>)"
proof -
  obtain d es where ds: "ds = d # es" using assms(2) by (cases ds) auto
  have d: "is_nonzero_digit d"
    using assms(1,3) by (auto simp: ds byte_class word_le_nat_alt word_unat_eq_iff)
  have "dec_value ds 0 < 2 ^ 64"
    using assms(7) unsigned_less [of "s_maxlen s", where ?'a = nat] by simp
  then have P: "ParseUint 64 ds = Inr (dec_value ds 0)"
    using assms(1,2) by (simp add: ParseUint_digits)
  have "unat (word_of_nat (dec_value ds 0) :: 64 word) = dec_value ds 0"
    using \<open>dec_value ds 0 < 2 ^ 64\<close> by (simp add: unsigned_of_nat take_bit_nat_eq_self)
  then have "\<not> s_maxlen s < word_of_nat (dec_value ds 0)"
    using assms(7) by (simp add: word_less_nat_alt)
  then show ?thesis
    using assms(1,4,5,6) d P
    by (simp add: Scan_def read_at unread_at ds scanMsgLen_def scan_digits_all Let_def)
qed

lemma Scan_space:
  "unscanned s = 32 # r \<Longrightarrow>
    Scan s = (\<lparr>tok_typ = WS, tok_lit = [32]\<rparr>, (at r (Some 32) s)\<lparr>s_ready := True\<rparr>)"
  by (simp add: Scan_def read_at byte_class eof_def lf_def ws_def)

lemma Scan_newline:
  "unscanned s = 10 # r \<Longrightarrow>
    Scan s = (\<lparr>tok_typ = LF, tok_lit = [10]\<rparr>, (at r (Some 10) s)\<lparr>s_ready := True\<rparr>)"
  by (simp add: Scan_def read_at byte_class eof_def lf_def ws_def)

lemma Scan_end: "unscanned s = [] \<Longrightarrow> Scan s = (\<lparr>tok_typ = EOF, tok_lit = []\<rparr>, s\<lparr>s_ready := False\<rparr>)"
  by (simp add: Scan_def read_cases byte_class eof_def)

lemma Scan_message:
  assumes "unscanned s = x @ r" "x \<noteq> []" "hd x = 60" "unat (s_msglen s) = length x" "s_ready s"
    and "s_msglen s \<le> MaxInt" "length x \<le> rd_size (s_r s)"
  shows "Scan s = (\<lparr>tok_typ = SYSLOGMSG, tok_lit = x\<rparr>,
    (at r None s)\<lparr>s_ready := False, s_msglen := 0\<rparr>)"
proof -
  obtain y where y: "x = 60 # y" using assms(2,3) by (cases x) auto
  have "s_msglen s > 0" using assms(2,4) by (simp add: word_less_nat_alt)
  then have "Scan s = scanSyslogMsg (at (x @ r) None s)"
    using assms(1,5) by (simp add: Scan_def y read_at unread_at byte_class eof_def lf_def ws_def lt_def)
  then show ?thesis
    using assms by (simp add: scanSyslogMsg_def Let_def Peek_def Discard_def at_def not_less)
qed

section \<open>A turn of the loop\<close>

lemma frame_wf:
  assumes "x \<noteq> []"
  shows "list_all is_digit (dec_string (length x))" "dec_string (length x) \<noteq> []"
    "hd (dec_string (length x)) \<noteq> 48" "dec_value (dec_string (length x)) 0 = length x"
  using assms dec_string_digits [of "length x"] dec_string_hd [of "length x"] dec_string_value
  by simp_all

text \<open>A message that octet counting can carry under a limit: it starts with an angle bracket.\<close>

definition carried :: "goint \<Rightarrow> bytes \<Rightarrow> bool" where
  "carried mx x \<longleftrightarrow> x \<noteq> [] \<and> hd x = 60 \<and> length x \<le> unat mx"

text \<open>The parser between two frames, with \<open>r\<close> left to read.\<close>

definition between :: "goint \<Rightarrow> bytes \<Rightarrow> ('opt, 'm, 'msg, 'err) parser \<Rightarrow> bool" where
  "between mx r p \<longleftrightarrow> \<not> stepback p \<and> unscanned (scanner p) = r \<and> s_maxlen (scanner p) = mx \<and>
     unat mx \<le> rd_size (s_r (scanner p)) \<and> mx \<le> MaxInt"

lemma scan_fresh:
  "\<not> stepback p \<Longrightarrow> Scan (scanner p) = (tok, s) \<Longrightarrow>
    scan p = (tok, p\<lparr>scanner := s, last_tok := tok\<rparr>)"
  by (simp add: scan_def)

lemma scan_frame:
  assumes "between mx (frame x @ r) p" "carried mx x"
  obtains t1 p1 t2 p2 p3 where "scan p = (t1, p1)" "tok_typ t1 = MSGLEN" "scan p1 = (t2, p2)"
    "tok_typ t2 = WS" "scan p2 = (\<lparr>tok_typ = SYSLOGMSG, tok_lit = x\<rparr>, p3)" "between mx r p3"
    "internal p3 = internal p" "emitted p3 = emitted p" "stripTrailingNL p3 = stripTrailingNL p"
    "maxMessageLength p3 = maxMessageLength p"
proof -
  let ?s = "scanner p" and ?ds = "dec_string (length x)"
  have x: "x \<noteq> []" "hd x = 60" "length x \<le> unat mx" and b: "\<not> stepback p" "s_maxlen ?s = mx"
    "unat mx \<le> rd_size (s_r ?s)" "mx \<le> MaxInt" "unscanned ?s = ?ds @ 32 # x @ r"
    using assms by (simp_all add: carried_def between_def frame_def)
  let ?n = "word_of_nat (length x) :: 64 word"
  let ?s1 = "(at (32 # x @ r) None ?s)\<lparr>s_msglen := ?n, s_ready := False\<rparr>"
  let ?s2 = "(at (x @ r) (Some 32) ?s1)\<lparr>s_ready := True\<rparr>"
  let ?s3 = "(at r None ?s2)\<lparr>s_ready := False, s_msglen := 0\<rparr>"
  have len: "unat ?n = length x"
  proof -
    have "length x < 2 ^ 64"
      using x(3) unsigned_less [of mx, where ?'a = nat] by simp
    then show ?thesis by (simp add: unsigned_of_nat take_bit_nat_eq_self)
  qed
  have "\<not> is_digit 32" by (simp add: byte_class)
  then have S1: "Scan ?s = (\<lparr>tok_typ = MSGLEN, tok_lit = ?ds\<rparr>, ?s1)"
    using Scan_length [OF frame_wf(1-3) [OF x(1)], of 32 ?s "x @ r"] b x by (simp add: dec_string_value)
  have S2: "Scan ?s1 = (\<lparr>tok_typ = WS, tok_lit = [32]\<rparr>, ?s2)"
    by (rule Scan_space) simp
  have "?n \<le> MaxInt"
    using len x(3) b(4) by (simp add: word_le_nat_alt)
  then have S3: "Scan ?s2 = (\<lparr>tok_typ = SYSLOGMSG, tok_lit = x\<rparr>, ?s3)"
    using len x b by (intro Scan_message) simp_all
  let ?p1 = "p\<lparr>scanner := ?s1, last_tok := \<lparr>tok_typ = MSGLEN, tok_lit = ?ds\<rparr>\<rparr>"
  let ?p2 = "?p1\<lparr>scanner := ?s2, last_tok := \<lparr>tok_typ = WS, tok_lit = [32]\<rparr>\<rparr>"
  let ?p3 = "?p2\<lparr>scanner := ?s3, last_tok := \<lparr>tok_typ = SYSLOGMSG, tok_lit = x\<rparr>\<rparr>"
  have 1: "scan p = (\<lparr>tok_typ = MSGLEN, tok_lit = ?ds\<rparr>, ?p1)"
    by (rule scan_fresh [OF b(1) S1])
  have 2: "scan ?p1 = (\<lparr>tok_typ = WS, tok_lit = [32]\<rparr>, ?p2)"
    using b(1) S2 by (intro scan_fresh) simp_all
  have 3: "scan ?p2 = (\<lparr>tok_typ = SYSLOGMSG, tok_lit = x\<rparr>, ?p3)"
    using b(1) S3 by (intro scan_fresh) simp_all
  show ?thesis
    by (rule that [OF 1 _ 2 _ 3]) (use b in \<open>simp_all add: between_def\<close>)
qed

text \<open>What follows the message: the end, a newline to ignore, or the next frame.\<close>

definition next_turn ::
    "('m, 'msg, 'err) Machine \<Rightarrow> ('opt, 'm, 'msg, 'err) parser \<Rightarrow> ('opt, 'm, 'msg, 'err) parser option" where
  "next_turn I p =
     (case scan p of (tok, p) \<Rightarrow>
        if tok_typ tok = EOF then Some p
        else if tok_typ tok \<noteq> LF then run I (unscan p) else run I p)"

text \<open>A token handed back is read again, and nothing else has changed.\<close>

lemma run_unscan:
  assumes "\<not> stepback p" "scan p = (tok, p1)"
  shows "run I (unscan p1) = run I p"
proof -
  have "scan (unscan p1) = scan p"
    using assms by (auto simp: scan_def unscan_def split: prod.splits)
  then have "run_body I (unscan p1) = run_body I p"
    by (simp add: run_body_def)
  then show ?thesis
    by (simp add: run.simps [of I p] run.simps [of I "unscan p1"])
qed

lemma emit_simps [simp]:
  "internal (emit r p) = internal p" "scanner (emit r p) = scanner p" "stepback (emit r p) = stepback p"
  "stripTrailingNL (emit r p) = stripTrailingNL p" "emitted (emit r p) = emitted p @ [r]"
  by (simp_all add: emit_def)

lemma run_frame:
  assumes "between mx (frame x @ r) p" "carried mx x"
    and "Parse_method I (internal p) (if stripTrailingNL p then strip_newline x else x) = Some (m', msg, err)"
    and "HasBestEffort_method I m' = be" and "\<not> be \<Longrightarrow> msg = None \<or> err = None"
  obtains q where "between mx r q" "internal q = m'" "stripTrailingNL q = stripTrailingNL p"
    "emitted q = emitted p @ [\<lparr>res_Message = msg, res_Error = map_option Inner err\<rparr>]"
    "run I p = (if \<not> be \<and> err \<noteq> None then Some q else next_turn I q)"
proof -
  obtain t1 p1 t2 p2 p3 where s: "scan p = (t1, p1)" "tok_typ t1 = MSGLEN" "scan p1 = (t2, p2)"
    "tok_typ t2 = WS" "scan p2 = (\<lparr>tok_typ = SYSLOGMSG, tok_lit = x\<rparr>, p3)" and p3: "between mx r p3"
    "internal p3 = internal p" "emitted p3 = emitted p" "stripTrailingNL p3 = stripTrailingNL p"
    using scan_frame [OF assms(1,2)] .
  let ?r = "\<lparr>res_Message = msg, res_Error = map_option Inner err\<rparr>"
  let ?p4 = "p3\<lparr>internal := m'\<rparr>"
  have x: "x \<noteq> []" using assms(2) by (simp add: carried_def)
  have P: "parse I x p3 = Some (?r, ?p4)"
    using assms(3) p3 x by (simp add: parse_def)
  let ?q = "emit ?r ?p4"
  have run: "run I p = (if \<not> be \<and> err \<noteq> None then Some ?q else next_turn I ?q)"
  proof (cases "\<not> be \<and> err \<noteq> None")
    case True
    then obtain e where "err = Some e" by auto
    moreover have "?r = \<lparr>res_Message = None, res_Error = map_option Inner err\<rparr>"
      using assms(5) True by auto
    ultimately show ?thesis
      using s P assms(4) True
      by (simp add: run.simps [of I p] run_body_def HasBestEffort_def)
  next
    case False
    obtain t6 p6 where 6: "scan ?q = (t6, p6)" by fastforce
    show ?thesis
      using s P assms(4) False
      by (auto simp: run.simps [of I p] run_body_def HasBestEffort_def Let_def 6 next_turn_def)
  qed
  show ?thesis
    by (rule that [OF _ _ _ _ run]) (use p3 in \<open>simp_all add: between_def emit_def\<close>)
qed

section \<open>Streams of frames\<close>

text \<open>Frames, each with or without a newline after it.\<close>

definition frames :: "(bytes \<times> bool) list \<Rightarrow> bytes" where
  "frames xs = concat (map (\<lambda>(x, nl). frame x @ (if nl then [10] else [])) xs)"

lemma frames_simps [simp]:
  "frames [] = []"
  "frames ((x, nl) # xs) = frame x @ (if nl then [10] else []) @ frames xs"
  by (simp_all add: frames_def)

lemma frame_start: "x \<noteq> [] \<Longrightarrow> \<exists>d r. frame x = d # r \<and> is_nonzero_digit d"
  using frame_wf [of x] dec_string_digits [of "length x"]
  by (cases "dec_string (length x)")
    (auto simp: frame_def byte_class word_le_nat_alt word_unat_eq_iff)

lemma strip_line_end:
  "x \<noteq> [] \<Longrightarrow> last x \<noteq> 10 \<Longrightarrow> last x \<noteq> 13 \<Longrightarrow> e = [] \<or> e = [10] \<or> e = [13, 10] \<Longrightarrow> strip_newline (x @ e) = x"
  by (auto simp: strip_newline_def butlast_append Let_def)

text \<open>The result of a message, given the answer of the inner machine.\<close>

definition octet_result ::
    "('m, 'msg, 'err) Machine \<Rightarrow> bool \<Rightarrow> 'm \<Rightarrow> bytes \<Rightarrow> ('msg, 'err octet_error) Result" where
  "octet_result I strip m x =
     (case answer I m (if strip then strip_newline x else x) of
        None \<Rightarrow> \<lparr>res_Message = None, res_Error = None\<rparr>
      | Some (msg, err) \<Rightarrow> \<lparr>res_Message = msg, res_Error = map_option Inner err\<rparr>)"

text \<open>
  What a stream of frames emits: the results in order, up to the first error outside best-effort
  mode. A stream that ends where a frame could start (it is empty, or its last frame has a newline)
  emits one more error.
\<close>

fun octet_spec ::
    "bool \<Rightarrow> (('msg, 'err octet_error) Result \<times> bool) list \<Rightarrow> ('msg, 'err octet_error) Result list" where
  "octet_spec be [] =
     [\<lparr>res_Message = None, res_Error = Some (Found \<lparr>tok_typ = EOF, tok_lit = []\<rparr> MSGLEN)\<rparr>]"
| "octet_spec be ((r, nl) # rs) =
     r # (if \<not> be \<and> res_Error r \<noteq> None then []
          else if rs = [] \<and> \<not> nl then [] else octet_spec be rs)"

lemma octet_spec_ok:
  "rs \<noteq> [] \<Longrightarrow> (\<forall>r\<in>set rs. res_Error r = None) \<Longrightarrow> octet_spec be (map (\<lambda>r. (r, False)) rs) = rs"
  by (induction rs) auto

lemma run_end:
  assumes "between mx [] p"
  shows "\<exists>p'. run I p = Some p' \<and> emitted p' = emitted p @ octet_spec be []"
proof -
  have "scan p = (\<lparr>tok_typ = EOF, tok_lit = []\<rparr>,
      p\<lparr>scanner := (scanner p)\<lparr>s_ready := False\<rparr>, last_tok := \<lparr>tok_typ = EOF, tok_lit = []\<rparr>\<rparr>)"
    using assms by (intro scan_fresh Scan_end) (simp_all add: between_def)
  then show ?thesis
    by (simp add: run.simps [of I p] run_body_def first_error_def emit_def)
qed

lemma next_turn_end:
  assumes "between mx [] p"
  shows "\<exists>p'. next_turn I p = Some p' \<and> emitted p' = emitted p"
proof -
  have "scan p = (\<lparr>tok_typ = EOF, tok_lit = []\<rparr>,
      p\<lparr>scanner := (scanner p)\<lparr>s_ready := False\<rparr>, last_tok := \<lparr>tok_typ = EOF, tok_lit = []\<rparr>\<rparr>)"
    using assms by (intro scan_fresh Scan_end) (simp_all add: between_def)
  then show ?thesis
    by (simp add: next_turn_def)
qed

lemma next_turn_newline:
  assumes "between mx (10 # r) p"
  obtains q where "next_turn I p = run I q" "between mx r q" "emitted q = emitted p"
    "internal q = internal p" "stripTrailingNL q = stripTrailingNL p"
proof -
  let ?s = "(at r (Some 10) (scanner p))\<lparr>s_ready := True\<rparr>"
  let ?q = "p\<lparr>scanner := ?s, last_tok := \<lparr>tok_typ = LF, tok_lit = [10]\<rparr>\<rparr>"
  have "scan p = (\<lparr>tok_typ = LF, tok_lit = [10]\<rparr>, ?q)"
    using assms by (intro scan_fresh Scan_newline) (simp_all add: between_def)
  then have "next_turn I p = run I ?q"
    by (simp add: next_turn_def)
  then show ?thesis
    using assms by (intro that [of ?q]) (simp_all add: between_def)
qed

lemma next_turn_frame:
  assumes "between mx (frame x @ r) p" "carried mx x"
  shows "next_turn I p = run I p"
proof -
  obtain t1 p1 where "scan p = (t1, p1)" "tok_typ t1 = MSGLEN"
    using scan_frame [OF assms] by metis
  then show ?thesis
    using run_unscan [of p t1 p1 I] assms by (simp add: next_turn_def between_def)
qed

text \<open>The limit that \<open>NewScanner\<close> applies, and the buffer that goes with it.\<close>

definition effective_max :: "('opt, 'm, 'msg, 'err) parser \<Rightarrow> goint" where
  "effective_max p = (if sint (maxMessageLength p) \<le> 0 then DefaultMaxSize else maxMessageLength p)"

lemma sint_small:
  assumes "unat (w :: 64 word) < 2 ^ 63"
  shows "sint w = int (unat w)"
proof -
  have "uint w < 2 ^ 63"
    using assms by (simp flip: of_nat_less_iff [where 'a = int])
  moreover have "- (2 ^ 63) \<le> uint w"
    by (rule order_trans [of _ 0]) simp_all
  ultimately have "signed_take_bit 63 (uint w) = uint w"
    by (intro signed_take_bit_int_eq_self) simp_all
  then show ?thesis by (simp add: sint_uint)
qed

lemma NewScanner_between:
  assumes "unat (effective_max p) \<le> 9223372036854775787"
  shows "unscanned (NewScanner pool input (maxMessageLength p)) = input \<and>
    s_maxlen (NewScanner pool input (maxMessageLength p)) = effective_max p \<and>
    unat (effective_max p) \<le> rd_size (s_r (NewScanner pool input (maxMessageLength p))) \<and>
    effective_max p \<le> MaxInt"
proof -
  let ?m = "effective_max p"
  have "unat (?m + 20) = unat ?m + 20"
    using assms by (simp add: unat_word_ariths)
  then have "sint (?m + 20) = int (unat ?m) + 20"
    using assms sint_small [of "?m + 20"] by simp
  then have "int (unat ?m) \<le> int (rd_size (getReader pool input (?m + 20)))"
    using uint_ge_0 [of ?m] by (cases pool) (auto simp: getReader_def Let_def)
  moreover have "?m \<le> MaxInt"
    using assms by (simp add: word_le_nat_alt MaxInt_def)
  ultimately show ?thesis
    by (simp add: NewScanner_def Let_def getReader_def flip: effective_max_def of_nat_le_iff [where 'a = int])
qed

definition result_ok :: "bool \<Rightarrow> ('msg, 'err) Result \<Rightarrow> bool" where
  "result_ok be r \<longleftrightarrow> be \<or> res_Message r = None \<or> res_Error r = None"

text \<open>The client of the contract: octet counting around any machine that keeps it.\<close>

locale octet_stream = syslog_machine I wf for I :: "('m, 'msg, 'err) Machine" and wf
begin

lemma run_frames:
  fixes p :: "('opt, 'm, 'msg, 'err) parser"
  assumes "between mx (frames xs) p" "\<forall>(x, nl) \<in> set xs. carried mx x" "wf (internal p)"
  shows "\<exists>p'. run I p = Some p' \<and>
    emitted p' = emitted p @ octet_spec (HasBestEffort_method I (internal p))
      (map (\<lambda>(x, nl). (octet_result I (stripTrailingNL p) (internal p) x, nl)) xs)"
  using assms
proof (induction xs arbitrary: p)
  case Nil
  then show ?case using run_end [of mx p] by simp
next
  case (Cons y xs)
  obtain x nl where y: "y = (x, nl)" by fastforce
  have wf: "carried mx x" "\<forall>(x, nl) \<in> set xs. carried mx x"
    using Cons.prems(2) by (auto simp: y)
  let ?be = "HasBestEffort_method I (internal p)"
  let ?in = "if stripTrailingNL p then strip_newline x else x"
  let ?R = "\<lambda>x. octet_result I (stripTrailingNL p) (internal p) x"
  obtain m' msg err where P: "Parse_method I (internal p) ?in = Some (m', msg, err)"
    "answer I (internal p) ?in = Some (msg, err)" "like (internal p) m'"
    by (rule parse_cases [OF Cons.prems(3)])
  note like = likeD [OF P(3)]
  let ?r = "\<lparr>res_Message = msg, res_Error = map_option Inner err\<rparr> :: ('msg, 'err octet_error) Result"
  have r: "?R x = ?r"
    using P(2) by (simp add: octet_result_def)
  have at: "between mx (frame x @ (if nl then [10] else []) @ frames xs) p"
    using Cons.prems(1) by (simp add: y)
  have strict: "\<not> ?be \<Longrightarrow> msg = None \<or> err = None"
    using answer_strict [OF Cons.prems(3) P(2)] .
  obtain q where q: "between mx ((if nl then [10] else []) @ frames xs) q" "internal q = m'"
    "stripTrailingNL q = stripTrailingNL p" "emitted q = emitted p @ [?r]"
    "run I p = (if \<not> ?be \<and> err \<noteq> None then Some q else next_turn I q)"
    using run_frame [OF at wf(1) P(1) like(3) strict] by blast
  have same: "?R z = octet_result I (stripTrailingNL q) (internal q) z" for z
    using like(2) q(2,3) by (simp add: octet_result_def)
  show ?case
  proof (cases "\<not> ?be \<and> err \<noteq> None")
    case True
    then show ?thesis
      using q(4,5) r by (auto simp: y)
  next
    case go: False
    have rest: "\<exists>p'. run I q' = Some p' \<and> emitted p' = emitted p @ [?r] @ octet_spec ?be
        (map (\<lambda>(x, nl). (?R x, nl)) xs)"
      if "between mx (frames xs) q'" "emitted q' = emitted q" "internal q' = internal q"
        "stripTrailingNL q' = stripTrailingNL q" for q' :: "('opt, 'm, 'msg, 'err) parser"
      using Cons.IH [OF that(1) wf(2)] that(2-4) q(2-4) like(1,3) same by simp
    have spec: "octet_spec ?be (map (\<lambda>(x, nl). (?R x, nl)) (y # xs)) =
        ?r # (if xs = [] \<and> \<not> nl then [] else octet_spec ?be (map (\<lambda>(x, nl). (?R x, nl)) xs))"
      using go r by (auto simp: y)
    have run: "run I p = next_turn I q"
      using q(5) go by auto
    show ?thesis
    proof (cases nl)
      case True
      then obtain q' where q': "next_turn I q = run I q'" "between mx (frames xs) q'"
        "emitted q' = emitted q" "internal q' = internal q" "stripTrailingNL q' = stripTrailingNL q"
        using next_turn_newline [of mx "frames xs" q] q(1) by auto
      then show ?thesis
        using rest [OF q'(2-5)] True unfolding spec run by simp
    next
      case False
      show ?thesis
      proof (cases xs)
        case Nil
        then show ?thesis
          using next_turn_end [of mx q I] q(1,4) False unfolding spec run by simp
      next
        case (Cons z zs)
        obtain x2 nl2 where z: "z = (x2, nl2)" by fastforce
        have b: "between mx (frames xs) q"
          using q(1) False by simp
        then have "next_turn I q = run I q"
          using wf(2) by (intro next_turn_frame [of mx x2]) (auto simp: Cons z)
        then show ?thesis
          using rest [OF b] False Cons unfolding spec run by simp
      qed
    qed
  qed
qed

text \<open>\<open>Parse\<close> on a stream of frames under the effective limit.\<close>

lemma Parse_frames:
  fixes p :: "('opt, 'm, 'msg, 'err) parser"
  assumes "\<not> stepback p" "unat (effective_max p) \<le> 9223372036854775787"
    and "\<forall>(x, nl) \<in> set xs. carried (effective_max p) x" "wf (internal p)"
  shows "\<exists>p'. Parse I pool (frames xs) p = Some p' \<and>
    emitted p' = emitted p @ octet_spec (HasBestEffort_method I (internal p))
      (map (\<lambda>(x, nl). (octet_result I (stripTrailingNL p) (internal p) x, nl)) xs)"
proof -
  let ?p = "p\<lparr>scanner := NewScanner pool (frames xs) (maxMessageLength p)\<rparr>"
  have "between (effective_max p) (frames xs) ?p"
    using assms(1) NewScanner_between [OF assms(2)] by (simp add: between_def)
  from run_frames [OF this assms(3)] show ?thesis
    using assms(4) by (simp add: Parse_def)
qed

text \<open>
  A property \<open>Q\<close> of results that every answer of a machine in the mode \<open>be\<close> has, and every error,
  and that stays when best-effort mode adds an error.
\<close>

definition stable :: "bool \<Rightarrow> (('msg, 'err octet_error) Result \<Rightarrow> bool) \<Rightarrow> bool" where
  "stable be Q \<longleftrightarrow>
     (\<forall>m x msg err. wf m \<longrightarrow> HasBestEffort_method I m = be \<longrightarrow> answer I m x = Some (msg, err) \<longrightarrow>
        Q \<lparr>res_Message = msg, res_Error = map_option Inner err\<rparr>) \<and>
     (\<forall>e. Q \<lparr>res_Message = None, res_Error = Some e\<rparr>) \<and>
     (\<forall>r e. be \<longrightarrow> Q r \<longrightarrow> Q (r\<lparr>res_Error := Some e\<rparr>))"

lemma stable_error: "stable be Q \<Longrightarrow> Q \<lparr>res_Message = None, res_Error = Some e\<rparr>"
  and stable_add: "stable True Q \<Longrightarrow> Q r \<Longrightarrow> Q (r\<lparr>res_Error := Some e\<rparr>)"
  by (simp_all add: stable_def)

text \<open>Outside best-effort mode a result is not both a message and an error.\<close>

lemma stable_result_ok: "stable be (result_ok be)"
  using answer_strict by (auto simp: stable_def result_ok_def)

lemma parse_result:
  fixes p :: "('opt, 'm, 'msg, 'err) parser"
  assumes "wf (internal p)" "stable (HasBestEffort I p) Q"
  obtains r p' where "parse I x p = Some (r, p')" "emitted p' = emitted p"
    "like (internal p) (internal p')" "Q r"
proof -
  let ?x = "if stripTrailingNL p \<and> length x > 0 then strip_newline x else x"
  obtain m' msg err where P: "Parse_method I (internal p) ?x = Some (m', msg, err)"
    "answer I (internal p) ?x = Some (msg, err)" "like (internal p) m'"
    by (rule parse_cases [OF assms(1)])
  have "Q \<lparr>res_Message = msg, res_Error = map_option Inner err\<rparr>"
    using assms P(2) by (auto simp: stable_def HasBestEffort_def)
  then show ?thesis
    using P by (intro that [of "\<lparr>res_Message = msg, res_Error = map_option Inner err\<rparr>" "p\<lparr>internal := m'\<rparr>"])
      (simp_all add: parse_def)
qed

lemma run_body_result:
  fixes p :: "('opt, 'm, 'msg, 'err) parser"
  assumes "wf (internal p)" "stable (HasBestEffort I p) Q"
  obtains go p' r where "run_body I p = Some (go, p')" "emitted p' = emitted p @ [r]"
    "like (internal p) (internal p')" "Q r"
    "go \<and> \<not> HasBestEffort I p \<longrightarrow> res_Error r = None"
proof -
  obtain t1 p1 where 1: "scan p = (t1, p1)" by fastforce
  obtain t2 p2 where 2: "scan p1 = (t2, p2)" by fastforce
  obtain t3 p3 where 3: "scan p2 = (t3, p3)" by fastforce
  have p: "emitted p1 = emitted p" "emitted p2 = emitted p" "emitted p3 = emitted p"
    "internal p1 = internal p" "internal p2 = internal p" "internal p3 = internal p"
    using scan_pending(3,4) [OF 1] scan_pending(3,4) [OF 2] scan_pending(3,4) [OF 3] by simp_all
  note be = HasBestEffort_def and at = \<open>scan p = (t1, p1)\<close> \<open>scan p1 = (t2, p2)\<close> \<open>scan p2 = (t3, p3)\<close>
  obtain r p4 where 4: "parse I (tok_lit t3) p3 = Some (r, p4)" "emitted p4 = emitted p"
    "like (internal p) (internal p4)" "Q r"
    using parse_result [of p3 Q "tok_lit t3"] assms p by (auto simp: be)
  have mode: "HasBestEffort I p4 = HasBestEffort I p"
    using likeD(3) [OF 4(3)] by (simp add: be)
  have same: "like (internal p) (internal p)"
    using assms(1) by (rule like_refl)
  let ?e = "\<lambda>e. \<lparr>res_Message = None, res_Error = Some e\<rparr>"
  have ok: "Q (?e e)" for e
    using assms(2) by (rule stable_error)
  consider "tok_typ t1 \<noteq> MSGLEN" | "tok_typ t1 = MSGLEN" "tok_typ t2 \<noteq> WS"
    | "tok_typ t1 = MSGLEN" "tok_typ t2 = WS" "tok_typ t3 \<noteq> SYSLOGMSG"
    | "tok_typ t1 = MSGLEN" "tok_typ t2 = WS" "tok_typ t3 = SYSLOGMSG"
    by blast
  then show ?thesis
  proof cases
    case 1
    show ?thesis
      by (rule that [of False "emit_error (first_error t1 p1) p1" "?e (first_error t1 p1)"])
        (use 1 at p ok same in \<open>simp_all add: run_body_def\<close>)
  next
    case 2
    show ?thesis
      by (rule that [of False "emit_error (Found t2 WS) p2" "?e (Found t2 WS)"])
        (use 2 at p ok same in \<open>simp_all add: run_body_def\<close>)
  next
    case 3
    let ?f = "FoundAfter t3 (s_msglen (scanner p3))"
    let ?r = "if res_Error r = None then r\<lparr>res_Error := Some ?f\<rparr> else r"
    show ?thesis
    proof (cases "int (length (tok_lit t3)) < sint (s_msglen (scanner p3)) \<and> HasBestEffort I p3")
      case True
      then have "HasBestEffort I p" by (simp add: be p)
      then have "Q ?r"
        using 4(4) assms(2) stable_add by auto
      then show ?thesis
        by (intro that [of False "emit ?r p4" ?r])
          (use 3 True 4 at p in \<open>simp_all add: run_body_def HasBestEffort_def Let_def\<close>)
    next
      case False
      show ?thesis
        by (rule that [of False "emit_error ?f p3" "?e ?f"])
          (use 3 False at p ok same in \<open>auto simp: run_body_def HasBestEffort_def Let_def\<close>)
    qed
  next
    case msg: 4
    show ?thesis
    proof (cases "\<not> HasBestEffort I p \<and> res_Error r \<noteq> None")
      case True
      then obtain e where "res_Error r = Some e" by auto
      then show ?thesis
        by (intro that [of False "emit_error e p4" "?e e"])
          (use msg True 4 mode at p ok in \<open>simp_all add: run_body_def Let_def\<close>)
    next
      case False
      obtain t6 p6 where 6: "scan (emit r p4) = (t6, p6)" by fastforce
      let ?go = "tok_typ t6 \<noteq> EOF"
      let ?q = "if tok_typ t6 = EOF \<or> tok_typ t6 = LF then p6 else unscan p6"
      have "HasBestEffort I (emit r p4) = HasBestEffort I p4"
        by (simp add: be)
      then have "run_body I p = Some (?go, ?q)"
        using msg False 4 mode at 6 by (auto simp: run_body_def Let_def)
      then show ?thesis
        by (rule that [of ?go ?q r])
          (use 4 False scan_pending(3,4) [OF 6] in \<open>auto simp: unscan_def\<close>)
    qed
  qed
qed

text \<open>
  On any stream: no panic, at least one result, every result has the property, and outside
  best-effort mode an error is the last thing that is emitted.
\<close>

lemma run_results:
  fixes p :: "('opt, 'm, 'msg, 'err) parser"
  assumes "wf (internal p)" "stable (HasBestEffort I p) Q"
  shows "\<exists>p' rs. run I p = Some p' \<and> emitted p' = emitted p @ rs \<and> rs \<noteq> [] \<and> (\<forall>r\<in>set rs. Q r) \<and>
    (\<not> HasBestEffort I p \<longrightarrow> (\<forall>r\<in>set (butlast rs). res_Error r = None))"
  using assms
proof (induction "pending p" arbitrary: p rule: less_induct)
  case less
  obtain go p' r where b: "run_body I p = Some (go, p')" "emitted p' = emitted p @ [r]"
    "like (internal p) (internal p')" "Q r" "go \<and> \<not> HasBestEffort I p \<longrightarrow> res_Error r = None"
    by (rule run_body_result [OF less.prems])
  note like = likeD [OF b(3)]
  have mode: "HasBestEffort I p' = HasBestEffort I p"
    using like(3) by (simp add: HasBestEffort_def)
  show ?case
  proof (cases go)
    case False
    then show ?thesis
      using b(1,2,4) by (auto simp: run.simps [of I p])
  next
    case True
    then have "pending p' < pending p"
      using run_body_pending [OF b(1)] by simp
    then obtain q qs where q: "run I p' = Some q" "emitted q = emitted p' @ qs" "qs \<noteq> []"
      "\<forall>r\<in>set qs. Q r" "\<not> HasBestEffort I p' \<longrightarrow> (\<forall>r\<in>set (butlast qs). res_Error r = None)"
      using less.hyps [of p'] less.prems(2) like(1) mode by auto
    then show ?thesis
      using b(1,2,4,5) mode True
      by (intro exI [of _ q] exI [of _ "r # qs"]) (auto simp: run.simps [of I p])
  qed
qed

lemma Parse_results:
  fixes p :: "('opt, 'm, 'msg, 'err) parser"
  assumes "wf (internal p)" "stable (HasBestEffort_method I (internal p)) Q"
  shows "\<exists>p' rs. Parse I pool input p = Some p' \<and> emitted p' = emitted p @ rs \<and> rs \<noteq> [] \<and>
    (\<forall>r\<in>set rs. Q r) \<and>
    (\<not> HasBestEffort_method I (internal p) \<longrightarrow> (\<forall>r\<in>set (butlast rs). res_Error r = None))"
  using run_results [of "p\<lparr>scanner := NewScanner pool input (maxMessageLength p)\<rparr>" Q] assms
  by (simp add: Parse_def HasBestEffort_def)

end

text \<open>Around a machine that always answers, every result is a message or an error.\<close>

locale octet_answers = octet_stream + answering_machine
begin

lemma stable_answers:
  "stable be (\<lambda>r. result_ok be r \<and> (res_Message r \<noteq> None \<or> res_Error r \<noteq> None))"
  unfolding stable_def
proof (intro conjI allI impI)
  fix m x msg err
  assume "wf m" "HasBestEffort_method I m = be" "answer I m x = Some (msg, err)"
  then show "result_ok be \<lparr>res_Message = msg, res_Error = map_option Inner err\<rparr>"
    "res_Message \<lparr>res_Message = msg, res_Error = map_option Inner err\<rparr> \<noteq> None \<or>
      res_Error \<lparr>res_Message = msg, res_Error = map_option Inner err\<rparr> \<noteq> None"
    using answer_strict answer_some by (fastforce simp: result_ok_def)+
qed (auto simp: result_ok_def)

end

end
