(* ===== verification/OctetCounting_RFC5424.thy ===== *)
theory OctetCounting_RFC5424
  imports OctetCounting_Frames RFC5424_Text
begin

text \<open>
  octetcounting/parser.go, \<open>NewParser\<close>: octet counting around the RFC 5424 machine, and what it
  does on streams of frames. \<open>octet_zero\<close> is the parser before its options run; the field
  \<open>internal\<close>, nil in the code until the constructor sets it, holds a fresh machine there.
\<close>

section \<open>The constructor\<close>

type_synonym octet_parser = "(machine \<Rightarrow> machine, machine, SyslogMessage, perror) OctetCounting.parser"

definition octet_zero :: octet_parser where
  "octet_zero =
     \<lparr>maxMessageLength = DefaultMaxSize,
      scanner = \<lparr>s_r = \<lparr>rd_rest = [], rd_size = 0, rd_last = None\<rparr>, s_msglen = 0, s_ready = False,
        s_maxlen = 0\<rparr>,
      bestEffort = False, internal = NewMachine [], internalOpts = [],
      last_tok = \<lparr>tok_typ = ILLEGAL, tok_lit = []\<rparr>, stepback = False, emitted = [],
      stripTrailingNL = False, rfc3164Opts = [], rfc5424Opts = [], noFallback = False\<rparr>"

definition octet_NewParser :: "(octet_parser \<Rightarrow> octet_parser) list \<Rightarrow> octet_parser" where
  "octet_NewParser opts =
     (let p = fold (\<lambda>opt p. opt p) opts octet_zero;
          p = (if bestEffort p
               then p\<lparr>internalOpts := internalOpts p @ [RFC5424_Parser.WithBestEffort]\<rparr> else p)
      in p\<lparr>internal := NewMachine (internalOpts p)\<rparr>)"

section \<open>Results\<close>

interpretation octet5424: octet_answers machine_methods "\<lambda>_. True"
  by unfold_locales


text \<open>
  C7: Octet counting around the RFC 5424 machine never panics and always ends, whatever bytes the
  stream holds. It emits at least one result; each is a message or an error. Outside best-effort
  mode no result has both, and an error is the last result.
\<close>

theorem octet_any_stream:
  "\<exists>p' rs. OctetCounting.Parse machine_methods pool input p = Some p' \<and> emitted p' = emitted p @ rs \<and>
    rs \<noteq> [] \<and> (\<forall>r\<in>set rs. res_Message r \<noteq> None \<or> res_Error r \<noteq> None) \<and>
    (\<not> machine_HasBestEffort (internal p) \<longrightarrow>
      (\<forall>r\<in>set rs. res_Message r = None \<or> res_Error r = None) \<and>
      (\<forall>r\<in>set (butlast rs). res_Error r = None))"
  using octet5424.Parse_results [OF TrueI octet5424.stable_answers, where p = p and pool = pool and input = input]
  by (fastforce simp: result_ok_def)

lemma octet_messages:
  assumes "\<not> stepback p" "unat (effective_max p) \<le> 9223372036854775787" "\<not> stripTrailingNL p"
    and "sms \<noteq> []" "\<forall>sm\<in>set sms. message_wf sm \<and> (m_compliantMsg (internal p) \<longrightarrow> message_compliant sm)"
    and "\<forall>sm\<in>set sms. length (message_text sm) \<le> unat (effective_max p)"
  shows "\<exists>p'. OctetCounting.Parse machine_methods pool (frames (map (\<lambda>sm. (message_text sm, False)) sms)) p =
      Some p' \<and>
    emitted p' = emitted p @ map (\<lambda>sm. \<lparr>res_Message = Some sm, res_Error = None\<rparr>) sms"
proof -
  let ?xs = "map (\<lambda>sm. (message_text sm, False)) sms"
  let ?R = "\<lambda>sm. octet_result machine_methods False (internal p) (message_text sm)"
  have ans: "?R sm = \<lparr>res_Message = Some sm, res_Error = None\<rparr>" if "sm \<in> set sms" for sm
    using message_text_answer(1) [of sm "internal p"] assms(5) that by (simp add: octet_result_def)
  have "\<forall>(x, nl)\<in>set ?xs. carried (effective_max p) x"
    using assms(5,6) message_text_answer(2,3) [of _ "internal p"] by (auto simp: carried_def)
  from octet5424.Parse_frames [OF assms(1,2) this TrueI, of pool] obtain p' where
    "OctetCounting.Parse machine_methods pool (frames ?xs) p = Some p'"
    "emitted p' = emitted p @ octet_spec (m_bestEffort (internal p)) (map (\<lambda>r. (r, False)) (map ?R sms))"
    using assms(3) by (auto simp: comp_def machine_HasBestEffort_def)
  moreover have "octet_spec (m_bestEffort (internal p)) (map (\<lambda>r. (r, False)) (map ?R sms)) = map ?R sms"
    using assms(4) ans by (intro octet_spec_ok) auto
  moreover have "map ?R sms = map (\<lambda>sm. \<lparr>res_Message = Some sm, res_Error = None\<rparr>) sms"
    using ans by simp
  ultimately show ?thesis by auto
qed

text \<open>
  C4: From message to message over octet counting. A stream is one or more well-formed messages, their
  texts framed and concatenated; no text is longer than the limit in force, the one that is set or
  8192 octets. Then a parser between two frames, which keeps line ends at the end of a frame (as the
  constructor for RFC 5424 makes it), emits exactly these messages, in order and without an error. If the machine
  wants compliant messages, the messages are compliant. The limit is at most 2^63 - 21, so that
  the size of the reader does not overflow.
\<close>

theorem octet_roundtrip:
  assumes "\<not> stepback p" "unat (effective_max p) \<le> 9223372036854775787" "\<not> stripTrailingNL p"
    and "sms \<noteq> []" "\<forall>sm\<in>set sms. message_wf sm \<and> (m_compliantMsg (internal p) \<longrightarrow> message_compliant sm)"
    and "\<forall>sm\<in>set sms. length (message_text sm) \<le> unat (effective_max p)"
  shows "\<exists>p'. OctetCounting.Parse machine_methods pool (frames (map (\<lambda>sm. (message_text sm, False)) sms)) p =
      Some p' \<and>
    emitted p' = emitted p @ map (\<lambda>sm. \<lparr>res_Message = Some sm, res_Error = None\<rparr>) sms"
  using assms by (rule octet_messages)

text \<open>Two messages through a new parser with a limit of 200 octets and compliant messages.\<close>

definition sample_octet :: octet_parser where
  "sample_octet =
     octet_NewParser [OctetCounting.WithMaxMessageLength 200, OctetCounting.WithMachineOptions [WithCompliantMsg]]"

lemma sample_octet_fields:
  "\<not> stepback sample_octet" "effective_max sample_octet = 200" "\<not> stripTrailingNL sample_octet"
  "emitted sample_octet = []"
  by (simp_all add: sample_octet_def octet_NewParser_def octet_zero_def effective_max_def Let_def
      OctetCounting.WithMaxMessageLength_def OctetCounting.WithMachineOptions_def)

theorem octet_roundtrip_witness:
  "\<exists>p'. OctetCounting.Parse machine_methods None
      (frames [(message_text sample_message, False), (message_text sample_message, False)]) sample_octet = Some p' \<and>
    emitted p' = [\<lparr>res_Message = Some sample_message, res_Error = None\<rparr>,
      \<lparr>res_Message = Some sample_message, res_Error = None\<rparr>]"
proof -
  have "message_compliant sample_message"
    by (simp add: message_compliant_def sample_message_def)
  then show ?thesis
    using octet_roundtrip [of sample_octet "[sample_message, sample_message]" None]
      sample_octet_fields sample_message_wf sample_message_text by simp
qed

lemma sample_octet_strict: "\<not> machine_HasBestEffort (internal sample_octet)"
  by (simp add: sample_octet_def octet_NewParser_def octet_zero_def Let_def machine_HasBestEffort_def
      OctetCounting.WithMaxMessageLength_def OctetCounting.WithMachineOptions_def NewMachine_def
      machine_zero_def WithCompliantMsg_def)


text \<open>A stream that is no frame at all: the listener gets an error, and no message.\<close>

theorem octet_any_stream_witness:
  "\<exists>p' rs. OctetCounting.Parse machine_methods None (lit ''7 <1>'') sample_octet = Some p' \<and>
    emitted p' = rs \<and> rs \<noteq> [] \<and> list_all (\<lambda>r. res_Message r = None \<or> res_Error r = None) rs \<and>
    list_all (\<lambda>r. res_Error r = None) (butlast rs)"
  using octet_any_stream [of None "lit ''7 <1>''" sample_octet] sample_octet_fields sample_octet_strict
  by (auto simp: list_all_iff)

end
