(* ===== verification/RFC3164_Message.thy ===== *)
theory RFC3164_Message
  imports Syslog
begin

text \<open>
  rfc3164/syslog_message.go: the parser's working message (\<open>syslogMessage\<close>), the exported message
  (\<open>SyslogMessage\<close> is \<open>syslog.Base\<close> with another \<open>Valid\<close>), and the functions between them.
\<close>

record syslogMessage =
  prioritySet :: bool
  timestampSet :: bool
  msgcountSet :: bool
  sequenceSet :: bool
  priorityOptional :: bool
  priority :: "8 word"
  msgcount :: "32 word"
  sequence :: "32 word"
  timestamp :: "gotime option" \<comment> \<open>\<open>None\<close> is the zero time\<close>
  hostname :: bytes
  tag :: bytes
  content :: bytes
  message :: bytes

definition syslogMessage_init :: "bool \<Rightarrow> syslogMessage" where
  "syslogMessage_init opt =
     \<lparr>prioritySet = False, timestampSet = False, msgcountSet = False, sequenceSet = False,
      priorityOptional = opt, priority = 0, msgcount = 0, sequence = 0, timestamp = None,
      hostname = [], tag = [], content = [], message = []\<rparr>"

definition minimal :: "syslogMessage \<Rightarrow> bool" where
  "minimal sm =
     (if prioritySet sm then ValidPriority (priority sm)
      else priorityOptional sm \<and> timestampSet sm \<and> message sm \<noteq> [])"

type_synonym SyslogMessage = Base

text \<open>A text field is exported unless it is empty or the nil value.\<close>

definition export_text :: "bytes \<Rightarrow> bytes option" where
  "export_text t = (if t \<noteq> [45] \<and> t \<noteq> [] then Some t else None)"

definition export :: "syslogMessage \<Rightarrow> SyslogMessage" where
  "export sm =
     (let out = Base_zero;
          out = (if prioritySet sm then ComputeFromPriority (priority sm) out else out);
          out = (if msgcountSet sm then out\<lparr>MessageCounter := Some (msgcount sm)\<rparr> else out);
          out = (if sequenceSet sm then out\<lparr>Sequence := Some (sequence sm)\<rparr> else out);
          out = (if timestampSet sm then out\<lparr>Timestamp := timestamp sm\<rparr> else out);
          out = (if export_text (hostname sm) \<noteq> None then out\<lparr>Hostname := export_text (hostname sm)\<rparr> else out);
          out = (if export_text (tag sm) \<noteq> None then out\<lparr>Appname := export_text (tag sm)\<rparr> else out);
          out = (if export_text (content sm) \<noteq> None then out\<lparr>ProcID := export_text (content sm)\<rparr> else out)
      in if message sm \<noteq> [] then out\<lparr>Message := Some (message sm)\<rparr> else out)"

definition SyslogMessage_Valid :: "SyslogMessage \<Rightarrow> bool" where
  "SyslogMessage_Valid sm =
     (case Priority sm of
        Some pr \<Rightarrow> ValidPriority pr
      | None \<Rightarrow> Timestamp sm \<noteq> None \<and> Message sm \<noteq> None)"

section \<open>Facts\<close>

lemma base_export_fields [simp]:
  "Priority (export sm) = (if prioritySet sm then Some (priority sm) else None)"
  "Facility (export sm) = (if prioritySet sm then Some (priority sm div 8) else None)"
  "Severity (export sm) = (if prioritySet sm then Some (priority sm mod 8) else None)"
  "MessageCounter (export sm) = (if msgcountSet sm then Some (msgcount sm) else None)"
  "Sequence (export sm) = (if sequenceSet sm then Some (sequence sm) else None)"
  "Timestamp (export sm) = (if timestampSet sm then timestamp sm else None)"
  "Hostname (export sm) = export_text (hostname sm)"
  "Appname (export sm) = export_text (tag sm)"
  "ProcID (export sm) = export_text (content sm)"
  "MsgID (export sm) = None"
  "Message (export sm) = (if message sm = [] then None else Some (message sm))"
  by (simp_all add: export_def ComputeFromPriority_def Base_zero_def Let_def)

lemma minimal_message_Valid:
  "minimal sm \<Longrightarrow> (timestampSet sm \<longrightarrow> timestamp sm \<noteq> None) \<Longrightarrow> SyslogMessage_Valid (export sm)"
  by (simp add: minimal_def SyslogMessage_Valid_def split: if_splits)

end
