(* ===== verification/GoStamp.thy ===== *)
theory GoStamp
  imports GoTime
begin

text \<open>
  What the RFC 3164 machine uses of package \<open>time\<close>: \<open>time.Parse\<close> at the layouts
  \<open>time.Stamp = "Jan _2 15:04:05"\<close> and \<open>time.RFC3339\<close>, \<open>time.Date\<close> in a location, and the methods
  \<open>AddDate\<close> (of years) and \<open>In\<close>. Years are integers; the model leaves out the wrap-around of times
  that are billions of years away.
\<close>

section \<open>The calendar\<close>

text \<open>Days since 1970-01-01 in the proleptic Gregorian calendar, and back.\<close>

definition days_of :: "int \<Rightarrow> nat \<Rightarrow> nat \<Rightarrow> int" where
  "days_of y mo d =
     (let y' = (if mo \<le> 2 then y - 1 else y);
          doy = (153 * ((int mo + 9) mod 12) + 2) div 5 + int d - 1;
          yoe = y' mod 400
      in y' div 400 * 146097 + (yoe * 365 + yoe div 4 - yoe div 100 + doy) - 719468)"

definition date_of :: "int \<Rightarrow> int \<times> nat \<times> nat" where
  "date_of days =
     (let z = days + 719468;
          doe = z mod 146097;
          yoe = (doe - doe div 1460 + doe div 36524 - doe div 146096) div 365;
          doy = doe - (365 * yoe + yoe div 4 - yoe div 100);
          mp = (5 * doy + 2) div 153;
          mo = (if mp < 10 then mp + 3 else mp - 9)
      in (yoe + z div 146097 * 400 + (if mo \<le> 2 then 1 else 0), nat mo,
          nat (doy - (153 * mp + 2) div 5 + 1)))"

text \<open>Seconds of the civil time, read as UTC.\<close>

definition civil_seconds :: "gotime \<Rightarrow> int" where
  "civil_seconds t =
     days_of (t_year t) (t_month t) (t_day t) * 86400 +
     int (t_hour t * 3600 + t_min t * 60 + t_sec t)"

definition t_unix :: "gotime \<Rightarrow> int" where
  "t_unix t = civil_seconds t - zone_offset (t_zone t)"

text \<open>The instant \<open>u\<close> as a location shows it.\<close>

definition time_at :: "location \<Rightarrow> int \<Rightarrow> nat \<Rightarrow> gotime" where
  "time_at loc u ns =
     (let off = loc u; s = u + off; sod = nat (s mod 86400) in
      case date_of (s div 86400) of
        (y, mo, d) \<Rightarrow>
          \<lparr>t_year = y, t_month = mo, t_day = d, t_hour = sod div 3600, t_min = sod div 60 mod 60,
           t_sec = sod mod 60, t_nsec = ns, t_zone = Located loc off\<rparr>)"

section \<open>Date, In and AddDate\<close>

text \<open>
  \<open>Date\<close> for a month in 1..12, a day in 1..31 and a clock in range: a day beyond the end of its
  month runs over into the next month.
\<close>

definition next_month_day :: "gotime \<Rightarrow> gotime" where
  "next_month_day t =
     (let n = daysIn (t_month t) (t_year t) in
      if t_day t > n then t\<lparr>t_month := t_month t + 1, t_day := t_day t - n\<rparr> else t)"

text \<open>
  In a location the offset is looked up at the instant that the civil time would be in UTC, and
  once more at the instant that this offset gives.
\<close>

definition date_in :: "location \<Rightarrow> gotime \<Rightarrow> gotime" where
  "date_in loc t =
     (let u = civil_seconds t; off = loc u in
      time_at loc (if off = 0 then u else u - loc (u - off)) (t_nsec t))"

definition time_Date :: "gotime \<Rightarrow> gotime" where
  "time_Date t =
     (case t_zone t of Located loc _ \<Rightarrow> date_in loc (next_month_day t) | _ \<Rightarrow> next_month_day t)"

definition time_In :: "location \<Rightarrow> gotime \<Rightarrow> gotime" where
  "time_In loc t = time_at loc (t_unix t) (t_nsec t)"

text \<open>\<open>AddDate(years, 0, 0)\<close>\<close>

definition time_AddYears :: "int \<Rightarrow> gotime \<Rightarrow> gotime" where
  "time_AddYears years t = time_Date (t\<lparr>t_year := t_year t + years\<rparr>)"

text \<open>The zero value of \<open>time.Time\<close>.\<close>

definition time_zero :: gotime where
  "time_zero = \<lparr>t_year = 1, t_month = 1, t_day = 1, t_hour = 0, t_min = 0, t_sec = 0, t_nsec = 0,
     t_zone = UTC\<rparr>"

section \<open>time.Parse at Stamp\<close>

definition month_names :: "bytes list" where
  "month_names = map lit [''Jan'', ''Feb'', ''Mar'', ''Apr'', ''May'', ''Jun'', ''Jul'', ''Aug'',
     ''Sep'', ''Oct'', ''Nov'', ''Dec'']"

text \<open>\<open>match\<close> and \<open>lookup\<close>: the names are compared without regard to case.\<close>

definition match_byte :: "byte \<Rightarrow> byte \<Rightarrow> bool" where
  "match_byte c1 c2 \<longleftrightarrow>
     c1 = c2 \<or> (or c1 32 = or c2 32 \<and> 97 \<le> or c1 32 \<and> or c1 32 \<le> 122)"

definition match_name :: "bytes \<Rightarrow> bytes \<Rightarrow> bool" where
  "match_name v name \<longleftrightarrow>
     length name \<le> length v \<and> list_all2 match_byte (take (length name) v) name"

fun lookup_name :: "bytes list \<Rightarrow> bytes \<Rightarrow> nat \<Rightarrow> (nat \<times> bytes) option" where
  "lookup_name [] v i = None"
| "lookup_name (n # ns) v i =
     (if match_name v n then Some (i, drop (length n) v) else lookup_name ns v (i + 1))"

text \<open>A space of the layout matches any number of spaces, but at least one before other text.\<close>

definition skip_space :: "bytes \<Rightarrow> bytes option" where
  "skip_space v =
     (if v \<noteq> [] \<and> hd v \<noteq> 32 then None else Some (dropWhile (\<lambda>b. b = 32) v))"

text \<open>The layout has no year, which leaves the year 0, and the fraction is optional.\<close>

definition time_Parse_Stamp :: "bytes \<Rightarrow> time_error + gotime" where
  "time_Parse_Stamp v0 =
     need (lookup_name month_names v0 1) (\<lambda>(mo, v1).
     need (skip_space v1) (\<lambda>v2.
     need (getnum (if v2 \<noteq> [] \<and> hd v2 = 32 then tl v2 else v2) False) (\<lambda>(d, v3).
     need (skip_space v3) (\<lambda>v4.
     need (getnum v4 False) (\<lambda>(h, v5).
     check (h < 24) ''hour'' (
     need (skip_byte 58 v5) (\<lambda>v6.
     need (getnum v6 True) (\<lambda>(mi, v7).
     check (mi < 60) ''minute'' (
     need (skip_byte 58 v7) (\<lambda>v8.
     need (getnum v8 True) (\<lambda>(s, v9).
     check (s < 60) ''second'' (
       (case get_frac v9 of (ns, v10) \<Rightarrow>
          if v10 \<noteq> [] then Inl ExtraText
          else if d < 1 \<or> d > daysIn mo 0 then Inl (OutOfRange ''day'')
          else Inr \<lparr>t_year = 0, t_month = mo, t_day = d, t_hour = h, t_min = mi, t_sec = s,
                    t_nsec = ns, t_zone = UTC\<rparr>)))))))))))))"

text \<open>\<open>ParseInLocation\<close> reads the same text as a civil time of the location.\<close>

definition time_ParseInLocation_Stamp :: "bytes \<Rightarrow> location \<Rightarrow> time_error + gotime" where
  "time_ParseInLocation_Stamp v loc = map_sum id (date_in loc) (time_Parse_Stamp v)"

text \<open>
  \<open>time.RFC3339\<close> has no fraction, but a fraction after the seconds is read all the same, by the
  rules of the layout RFC3339MICRO: on the texts the machine passes the two layouts agree.
\<close>

definition time_Parse_RFC3339 :: "bytes \<Rightarrow> time_error + gotime" where
  "time_Parse_RFC3339 v = time_Parse_RFC3339MICRO v"

end
