(* ===== verification/RFC3164_Machine.thy ===== *)
theory RFC3164_Machine
  imports RFC3164_Message GoStamp
begin

text \<open>
  rfc3164/machine.go, rfc3164/year.go, rfc3164/options.go and ciscoios/flags.go: the errors, the
  state and the options of the RFC 3164 machine, and the actions of its grammar. The transitions are
  in RFC3164_Header and RFC3164_Body, the run is in RFC3164_Run.
\<close>

section \<open>Errors\<close>

datatype err_kind =
    ErrPrival | ErrPri | ErrTimestamp | ErrRFC3339 | ErrMsgCount | ErrSequence | ErrHostname
  | ErrTag | ErrContentStart | ErrContent | ErrParse
  | ErrTime time_error \<comment> \<open>the error of \<open>time.Parse\<close>\<close>

text \<open>An error is its kind and the column.\<close>

type_synonym perror = "err_kind \<times> nat"

fun err_template :: "err_kind \<Rightarrow> string" where
  "err_template ErrPrival = ''expecting a priority value in the range 1-191 or equal to 0''"
| "err_template ErrPri = ''expecting a priority value within angle brackets''"
| "err_template ErrTimestamp = ''expecting a Stamp timestamp''"
| "err_template ErrRFC3339 = ''expecting a Stamp or a RFC3339 timestamp''"
| "err_template ErrMsgCount = ''expecting a message counter (from 1 to max 255 digits)''"
| "err_template ErrSequence = ''expecting a sequence number (from 1 to max 255 digits)''"
| "err_template ErrHostname = ''expecting an hostname (from 1 to max 255 US-ASCII characters)''"
| "err_template ErrTag = ''expecting an alphanumeric tag (max 32 characters)''"
| "err_template ErrContentStart =
     ''expecting a content part starting with a non-alphanumeric character''"
| "err_template ErrContent = ''expecting a content part composed by visible characters only''"
| "err_template ErrParse = ''parsing error''"
| "err_template (ErrTime e) =
     (case e of BadFormat \<Rightarrow> ''cannot parse'' | OutOfRange w \<Rightarrow> w @ '' out of range''
      | ExtraText \<Rightarrow> ''extra text'')"

section \<open>State\<close>

definition start :: nat where "start = 1"
definition firstFinal :: nat where "firstFinal = 522"
definition enFail :: nat where "enFail = 1487"
definition enMainMessageBody :: nat where "enMainMessageBody = 521"

record machine =
  m_data :: bytes
  m_cs :: nat
  m_p :: nat
  m_pe :: nat
  m_eof :: nat
  m_pb :: nat
  m_err :: "perror option"
  m_bestEffort :: bool
  m_yyyy :: int
  m_rfc3339 :: bool
  m_secfrac :: bool
  m_msgcount :: bool
  m_sequence :: bool
  m_ciscoHostname :: bool
  m_lenientDay :: bool
  m_newline :: bool
  m_optionalPriority :: bool
  m_loc :: "location option"
  m_timezone :: "location option"

definition machine_zero :: machine where
  "machine_zero =
     \<lparr>m_data = [], m_cs = 0, m_p = 0, m_pe = 0, m_eof = 0, m_pb = 0, m_err = None,
      m_bestEffort = False, m_yyyy = 0, m_rfc3339 = False, m_secfrac = False, m_msgcount = False,
      m_sequence = False, m_ciscoHostname = False, m_lenientDay = False, m_newline = False,
      m_optionalPriority = False, m_loc = None, m_timezone = None\<rparr>"

definition NewMachine :: "(machine \<Rightarrow> machine) list \<Rightarrow> machine" where
  "NewMachine options = fold (\<lambda>opt m. opt m) options machine_zero"

section \<open>Years\<close>

text \<open>The operators of year.go; \<open>now\<close> is the year of \<open>time.Now\<close> at the call.\<close>

datatype YearOperator = CurrentYear | Year int

fun YearOperator_Apply :: "int \<Rightarrow> YearOperator \<Rightarrow> int" where
  "YearOperator_Apply now CurrentYear = now"
| "YearOperator_Apply now (Year yyyy) = yyyy"

record YearOperation =
  Operator :: YearOperator

definition Operate :: "int \<Rightarrow> YearOperation \<Rightarrow> int" where
  "Operate now y = YearOperator_Apply now (Operator y)"

section \<open>Methods and options\<close>

definition machine_WithBestEffort :: "machine \<Rightarrow> machine" where
  "machine_WithBestEffort m = m\<lparr>m_bestEffort := True\<rparr>"

definition machine_WithOptionalPriority :: "machine \<Rightarrow> machine" where
  "machine_WithOptionalPriority m = m\<lparr>m_optionalPriority := True\<rparr>"

definition machine_HasBestEffort :: "machine \<Rightarrow> bool" where
  "machine_HasBestEffort m = m_bestEffort m"

definition machine_WithYear :: "int \<Rightarrow> YearOperator \<Rightarrow> machine \<Rightarrow> machine" where
  "machine_WithYear now op m = m\<lparr>m_yyyy := Operate now \<lparr>Operator = op\<rparr>\<rparr>"

definition machine_WithTimezone :: "location option \<Rightarrow> machine \<Rightarrow> machine" where
  "machine_WithTimezone loc m = m\<lparr>m_loc := loc\<rparr>"

definition machine_WithLocaleTimezone :: "location option \<Rightarrow> machine \<Rightarrow> machine" where
  "machine_WithLocaleTimezone loc m = m\<lparr>m_timezone := loc\<rparr>"

definition machine_WithRFC3339 :: "machine \<Rightarrow> machine" where
  "machine_WithRFC3339 m = m\<lparr>m_rfc3339 := True\<rparr>"

definition machine_WithSecondFractions :: "machine \<Rightarrow> machine" where
  "machine_WithSecondFractions m = m\<lparr>m_secfrac := True\<rparr>"

definition machine_WithMessageCounter :: "machine \<Rightarrow> machine" where
  "machine_WithMessageCounter m = m\<lparr>m_msgcount := True\<rparr>"

definition machine_WithSequenceNumber :: "machine \<Rightarrow> machine" where
  "machine_WithSequenceNumber m = m\<lparr>m_sequence := True\<rparr>"

definition machine_WithCiscoHostname :: "machine \<Rightarrow> machine" where
  "machine_WithCiscoHostname m = m\<lparr>m_ciscoHostname := True\<rparr>"

definition machine_WithLenientDay :: "machine \<Rightarrow> machine" where
  "machine_WithLenientDay m = m\<lparr>m_lenientDay := True\<rparr>"

definition machine_WithEmbeddedNewlines :: "machine \<Rightarrow> machine" where
  "machine_WithEmbeddedNewlines m = m\<lparr>m_newline := True\<rparr>"

definition machine_Err :: "machine \<Rightarrow> perror option" where
  "machine_Err m = m_err m"

text \<open>options.go: an option applied to a machine of this package.\<close>

definition WithBestEffort :: "machine \<Rightarrow> machine" where
  "WithBestEffort m = machine_WithBestEffort m"

definition WithYear :: "int \<Rightarrow> YearOperator \<Rightarrow> machine \<Rightarrow> machine" where
  "WithYear now op m = machine_WithYear now op m"

definition WithTimezone :: "location option \<Rightarrow> machine \<Rightarrow> machine" where
  "WithTimezone loc m = machine_WithTimezone loc m"

definition WithLocaleTimezone :: "location option \<Rightarrow> machine \<Rightarrow> machine" where
  "WithLocaleTimezone loc m = machine_WithLocaleTimezone loc m"

definition WithLenientDay :: "machine \<Rightarrow> machine" where
  "WithLenientDay m = machine_WithLenientDay m"

definition WithEmbeddedNewlines :: "machine \<Rightarrow> machine" where
  "WithEmbeddedNewlines m = machine_WithEmbeddedNewlines m"

definition WithRFC3339 :: "machine \<Rightarrow> machine" where
  "WithRFC3339 m = machine_WithRFC3339 m"

definition WithSecondFractions :: "machine \<Rightarrow> machine" where
  "WithSecondFractions m = machine_WithSecondFractions m"

definition WithMessageCounter :: "machine \<Rightarrow> machine" where
  "WithMessageCounter m = machine_WithMessageCounter m"

definition WithSequenceNumber :: "machine \<Rightarrow> machine" where
  "WithSequenceNumber m = machine_WithSequenceNumber m"

definition WithCiscoHostname :: "machine \<Rightarrow> machine" where
  "WithCiscoHostname m = machine_WithCiscoHostname m"

definition WithOptionalPriority :: "machine \<Rightarrow> machine" where
  "WithOptionalPriority m = machine_WithOptionalPriority m"

text \<open>ciscoios.Component: a clear bit enables its component.\<close>

definition DisableMessageCounter :: int where "DisableMessageCounter = 1"
definition DisableSequenceNumber :: int where "DisableSequenceNumber = 2"
definition DisableHostname :: int where "DisableHostname = 4"
definition DisableSecondFractions :: int where "DisableSecondFractions = 8"
definition All :: int where "All = 0"

definition WithCiscoIOSComponents :: "int \<Rightarrow> machine \<Rightarrow> machine" where
  "WithCiscoIOSComponents flags m =
     (let m = (if and flags DisableMessageCounter = 0 then machine_WithMessageCounter m else m);
          m = (if and flags DisableSequenceNumber = 0 then machine_WithSequenceNumber m else m);
          m = (if and flags DisableHostname = 0 then machine_WithCiscoHostname m else m)
      in if and flags DisableSecondFractions = 0 then machine_WithSecondFractions m else m)"

section \<open>Actions\<close>

definition m_text :: "machine \<Rightarrow> bytes option" where
  "m_text m = gslice (m_data m) (m_pb m) (m_p m)"

text \<open>
  How a piece of the machine ends: in a run-time panic, in \<open>goto _out\<close>, or at the test for the end
  of the input.
\<close>

datatype outcome =
    Panic
  | Out machine syslogMessage
  | Next machine syslogMessage

definition goto_st :: "nat \<Rightarrow> machine \<Rightarrow> machine" where
  "goto_st n m = m\<lparr>m_cs := n, m_p := m_p m + 1\<rparr>"

text \<open>\<open>m.err = ...; (m.p)--; goto st1487\<close>, and \<open>st1487\<close> begins with \<open>(m.p)++\<close>.\<close>

definition fail_with :: "err_kind \<Rightarrow> machine \<Rightarrow> syslogMessage \<Rightarrow> outcome" where
  "fail_with k m out = Next (m\<lparr>m_err := Some (k, m_p m), m_cs := enFail\<rparr>) out"

definition with_text :: "machine \<Rightarrow> (bytes \<Rightarrow> outcome) \<Rightarrow> outcome" where
  "with_text m k = (case m_text m of None \<Rightarrow> Panic | Some t \<Rightarrow> k t)"

definition set_prival :: "bytes \<Rightarrow> syslogMessage \<Rightarrow> syslogMessage" where
  "set_prival t out =
     out\<lparr>priority := ucast (UnsafeUTF8DecimalCodePointsToInt t), prioritySet := True\<rparr>"

definition stamp_time :: "machine \<Rightarrow> bytes \<Rightarrow> time_error + gotime" where
  "stamp_time m t =
     (case time_Parse_Stamp t of
        Inl e \<Rightarrow> Inl e
      | Inr ts \<Rightarrow>
          let ts = (case m_timezone m of
                      None \<Rightarrow> ts
                    | Some loc \<Rightarrow> (case time_ParseInLocation_Stamp t loc of Inl e \<Rightarrow> time_zero | Inr ts \<Rightarrow> ts));
              ts = time_AddYears (m_yyyy m) ts
          in Inr (case m_loc m of None \<Rightarrow> ts | Some loc \<Rightarrow> time_In loc ts))"

datatype action =
    Mark | Set_timestamp | Set_rfc3339 | Set_msgcount | Set_sequence | Set_hostname | Set_tag
  | Set_content | Set_message

text \<open>The actions of a transition one after the other, then \<open>goto stN\<close>.\<close>

fun perform :: "action list \<Rightarrow> nat \<Rightarrow> machine \<Rightarrow> syslogMessage \<Rightarrow> outcome" where
  "perform [] n m out = Next (goto_st n m) out"
| "perform (Mark # as) n m out = perform as n (m\<lparr>m_pb := m_p m\<rparr>) out"
| "perform (Set_timestamp # as) n m out =
     with_text m (\<lambda>t. case stamp_time m t of
         Inl e \<Rightarrow> fail_with (ErrTime e) m out
       | Inr ts \<Rightarrow> perform as n m (out\<lparr>timestamp := Some ts, timestampSet := True\<rparr>))"
| "perform (Set_rfc3339 # as) n m out =
     with_text m (\<lambda>t. case time_Parse_RFC3339 t of
         Inl e \<Rightarrow> fail_with (ErrTime e) m out
       | Inr ts \<Rightarrow> perform as n m (out\<lparr>timestamp := Some ts, timestampSet := True\<rparr>))"
| "perform (Set_msgcount # as) n m out =
     with_text m (\<lambda>t. perform as n m
       (out\<lparr>msgcount := ucast (UnsafeUTF8DecimalCodePointsToInt t), msgcountSet := True\<rparr>))"
| "perform (Set_sequence # as) n m out =
     with_text m (\<lambda>t. perform as n m
       (out\<lparr>sequence := ucast (UnsafeUTF8DecimalCodePointsToInt t), sequenceSet := True\<rparr>))"
| "perform (Set_hostname # as) n m out =
     with_text m (\<lambda>t. perform as n m (out\<lparr>hostname := t\<rparr>))"
| "perform (Set_tag # as) n m out =
     with_text m (\<lambda>t. perform as n m (out\<lparr>tag := t\<rparr>))"
| "perform (Set_content # as) n m out =
     with_text m (\<lambda>t. perform as n m (out\<lparr>content := t\<rparr>))"
| "perform (Set_message # as) n m out =
     with_text m (\<lambda>t. perform as n m (out\<lparr>message := t\<rparr>))"

end
