(* ===== verification/RFC3164_Header.thy ===== *)
theory RFC3164_Header
  imports RFC3164_Machine
begin

text \<open>
  rfc3164/machine.go, the states 1 to 521: PRI, the Cisco extras and the timestamp. The states keep
  their numbers. A transition is the list of its actions and the state it goes to, an error action,
  or \<open>goto st0\<close>. The conditions of the grammar (\<open>_widec\<close>) are tests of the options.

  The grammar reads a Cisco hostname and a timestamp in parallel, so the generated states repeat the
  month names six times and the RFC 3339 layout three times: \<open>month_next\<close> and \<open>rfc3339_next\<close> are the
  common pattern, over the offset of a state within its block.
\<close>

datatype trans =
    To "action list" nat
  | Fail err_kind
  | Leave nat \<comment> \<open>\<open>m.cs = n; goto _out\<close>\<close>

abbreviation st :: "nat \<Rightarrow> trans" where
  "st n \<equiv> To [] n"

abbreviation Stop :: trans where
  "Stop \<equiv> Leave 0"

section \<open>PRI\<close>

definition next_pri :: "nat \<Rightarrow> byte \<Rightarrow> trans" where
  "next_pri cs b =
     (if cs = 1 then (if b = 60 then st 2 else Fail ErrPri)
      else if cs = 2 then
        (if b = 48 then To [Mark] 3 else if b = 49 then To [Mark] 518
         else if in_range 50 57 b then To [Mark] 519 else Fail ErrPrival)
      else if b = 62 then st 4
      else if cs = 518 \<and> in_range 48 56 b then st 519
      else if cs = 518 \<and> b = 57 then st 520
      else if cs = 519 \<and> is_digit b \<or> cs = 520 \<and> in_range 48 49 b then st 3
      else Fail ErrPrival)"

section \<open>Month names\<close>

text \<open>The block of a month: its first state, for each initial letter.\<close>

definition month_initial :: "byte \<Rightarrow> nat option" where
  "month_initial b =
     (if b = 65 then Some 0 else if b = 68 then Some 4 else if b = 70 then Some 6
      else if b = 74 then Some 8 else if b = 77 then Some 11 else if b = 78 then Some 13
      else if b = 79 then Some 15 else if b = 83 then Some 17 else None)"

text \<open>The letters after the first; 2 is the state after the name.\<close>

definition month_next :: "nat \<Rightarrow> byte \<Rightarrow> nat option" where
  "month_next k b =
     (if k = 0 then (if b = 112 then Some 1 else if b = 117 then Some 3 else None)
      else if k = 1 then (if b = 114 then Some 2 else None)
      else if k = 3 then (if b = 103 then Some 2 else None)
      else if k = 4 then (if b = 101 then Some 5 else None)
      else if k = 5 then (if b = 99 then Some 2 else None)
      else if k = 6 then (if b = 101 then Some 7 else None)
      else if k = 7 then (if b = 98 then Some 2 else None)
      else if k = 8 then (if b = 97 then Some 9 else if b = 117 then Some 10 else None)
      else if k = 9 then (if b = 110 then Some 2 else None)
      else if k = 10 then (if b = 108 \<or> b = 110 then Some 2 else None)
      else if k = 11 then (if b = 97 then Some 12 else None)
      else if k = 12 then (if b = 114 \<or> b = 121 then Some 2 else None)
      else if k = 13 then (if b = 111 then Some 14 else None)
      else if k = 14 then (if b = 118 then Some 2 else None)
      else if k = 15 then (if b = 99 then Some 16 else None)
      else if k = 16 then (if b = 116 then Some 2 else None)
      else if k = 17 then (if b = 101 then Some 18 else None)
      else if k = 18 then (if b = 112 then Some 2 else None)
      else None)"

text \<open>The blocks without a hostname: 263 to 265 and 290 to 305, and 306 to 308 and 348 to 363.\<close>

definition plain_month :: "nat \<Rightarrow> nat" where
  "plain_month k = (if k \<le> 2 then 263 + k else 287 + k)"

definition lenient_month :: "nat \<Rightarrow> nat" where
  "lenient_month k = (if k \<le> 2 then 306 + k else 345 + k)"

definition a_month :: "machine \<Rightarrow> nat \<Rightarrow> nat" where
  "a_month m k = (if m_lenientDay m then lenient_month k else plain_month k)"

definition next_month :: "machine \<Rightarrow> nat \<Rightarrow> byte \<Rightarrow> trans" where
  "next_month m cs b =
     (if cs = 265 then (if b = 32 then st 266 else Fail ErrTimestamp)
      else if cs = 308 then (if b = 32 then st (if m_lenientDay m then 309 else 266) else Fail ErrTimestamp)
      else if cs \<le> 305 then
        (case month_next (if cs \<le> 264 then cs - 263 else cs - 287) b of
           None \<Rightarrow> Fail ErrTimestamp
         | Some k \<Rightarrow> st (plain_month k))
      else
        (case month_next (if cs \<le> 307 then cs - 306 else cs - 345) b of
           None \<Rightarrow> Fail ErrTimestamp
         | Some k \<Rightarrow> st (a_month m k)))"

text \<open>A character of a Cisco hostname: the colon after it, or the next state that counts one.\<close>

definition host_char :: "machine \<Rightarrow> nat \<Rightarrow> byte \<Rightarrow> trans" where
  "host_char m n b =
     (if m_ciscoHostname m \<and> b = 58 then To [Set_hostname] 261
      else if m_ciscoHostname m \<and> is_graph b then st n
      else Fail ErrHostname)"

text \<open>
  A month name that may still be a hostname, of which \<open>h\<close> counts the length: the blocks 402 and
  460, and 421 and 479 with lenient days.
\<close>

definition month_depth :: "nat \<Rightarrow> nat" where
  "month_depth k = (if k = 2 then 2 else if k \<in> {0, 4, 6, 8, 11, 13, 15, 17} then 0 else 1)"

definition next_host_month :: "machine \<Rightarrow> nat \<Rightarrow> nat \<Rightarrow> nat \<Rightarrow> byte \<Rightarrow> trans" where
  "next_host_month m base h k b =
     (case month_next k b of
        Some k' \<Rightarrow> st (if m_ciscoHostname m then base + k' else plain_month k')
      | None \<Rightarrow> if k = 2 \<and> b = 32 then st 266 else host_char m (h + month_depth k) b)"

definition next_host_lenient :: "machine \<Rightarrow> nat \<Rightarrow> nat \<Rightarrow> nat \<Rightarrow> byte \<Rightarrow> trans" where
  "next_host_lenient m base h k b =
     (case month_next k b of
        Some k' \<Rightarrow>
          st (if m_ciscoHostname m then (if m_lenientDay m then base + 19 + k' else base + k') else a_month m k')
      | None \<Rightarrow>
          if k = 2 \<and> b = 32 then st (if m_lenientDay m then 309 else 266)
          else host_char m (h + month_depth k) b)"

definition next_cisco_month :: "machine \<Rightarrow> nat \<Rightarrow> byte \<Rightarrow> trans" where
  "next_cisco_month m cs b =
     (if cs \<le> 420 then next_host_month m 402 8 (cs - 402) b
      else if cs \<le> 439 then next_host_lenient m 402 8 (cs - 421) b
      else if cs \<le> 478 then next_host_month m 460 7 (cs - 460) b
      else next_host_lenient m 460 7 (cs - 479) b)"

section \<open>Where a timestamp may start\<close>

text \<open>The states 4, 5, 499 and 521: after PRI, a counter or a sequence number, or at the start.\<close>

definition next_body :: "machine \<Rightarrow> nat \<Rightarrow> byte \<Rightarrow> trans" where
  "next_body m cs b =
     (let e = Fail (if cs = 499 then ErrHostname else ErrSequence);
          letter = (case month_initial b of
             None \<Rightarrow> None
           | Some k \<Rightarrow>
               Some (To [Mark] (if m_ciscoHostname m then (if m_lenientDay m then 479 + k else 460 + k)
                                else a_month m k)))
      in if cs = 4 \<and> b = 32 \<or> cs = 5 \<and> b = 32 \<and> m_msgcount m \<or> cs = 499 \<and> b = 32 \<and> m_sequence m then st cs
         else if letter \<noteq> None then the letter
         else if b = 42 then
           (if m_ciscoHostname m then To [Mark] 401 else if m_msgcount m \<or> m_sequence m then st 262 else e)
         else if is_digit b \<and> m_msgcount m \<and> (cs = 4 \<or> cs = 521) then To [Mark] 517
         else if is_digit b \<and> m_sequence m \<and> cs \<noteq> 499 then To [Mark] 498
         else if is_digit b \<and> m_rfc3339 m then To [Mark] (if m_ciscoHostname m then 500 else 364)
         else if b = 58 then (if m_msgcount m \<and> (cs = 4 \<or> cs = 521) then To [Mark, Set_msgcount] 5 else e)
         else if is_graph b \<and> m_ciscoHostname m then To [Mark] 6
         else e)"

text \<open>The states 261, 262 and 453: after a Cisco hostname or a star.\<close>

definition next_after_cisco :: "machine \<Rightarrow> nat \<Rightarrow> byte \<Rightarrow> trans" where
  "next_after_cisco m cs b =
     (case month_initial b of
        Some k \<Rightarrow> To [Mark] (a_month m k)
      | None \<Rightarrow>
          if cs \<noteq> 262 \<and> b = 32 \<and> m_ciscoHostname m then st 261
          else if cs \<noteq> 262 \<and> b = 42 \<and> (m_msgcount m \<or> m_sequence m \<or> m_ciscoHostname m) then st 262
          else if is_digit b \<and> m_rfc3339 m then To [Mark] (if cs = 453 \<and> in_range 48 53 b then 454 else 364)
          else Fail ErrTimestamp)"

text \<open>The state 401: after a star that may be the first character of a hostname.\<close>

definition next_star :: "machine \<Rightarrow> byte \<Rightarrow> trans" where
  "next_star m b =
     (case month_initial b of
        Some k \<Rightarrow>
          To [Mark] (if m_ciscoHostname m then (if m_lenientDay m then 421 + k else 402 + k) else a_month m k)
      | None \<Rightarrow>
          if is_digit b \<and> m_rfc3339 m then To [Mark] (if m_ciscoHostname m then 440 else 364)
          else host_char m 7 b)"

text \<open>The message counter, the sequence number and the Cisco hostname.\<close>

definition next_cisco :: "machine \<Rightarrow> nat \<Rightarrow> byte \<Rightarrow> trans" where
  "next_cisco m cs b =
     (if cs = 517 then
        (if is_digit b \<and> m_msgcount m then st 517
         else if b = 58 \<and> m_msgcount m then To [Set_msgcount] 5 else Stop)
      else if cs = 498 then
        (if is_digit b \<and> m_sequence m then st 498
         else if b = 58 \<and> m_sequence m then To [Set_sequence] 499 else Stop)
      else if cs = 260 then
        (if m_ciscoHostname m \<and> b = 58 then To [Set_hostname] 261 else Fail ErrHostname)
      else host_char m (cs + 1) b)"

section \<open>Stamp timestamps\<close>

text \<open>The space, and the colon that Cisco puts there, after a timestamp.\<close>

definition after_stamp :: "machine \<Rightarrow> byte \<Rightarrow> trans" where
  "after_stamp m b =
     (if b = 32 then To [Set_timestamp] 278
      else if b = 58 \<and> (m_msgcount m \<or> m_sequence m \<or> m_ciscoHostname m) then To [Set_timestamp] 286
      else Stop)"

abbreviation stamp_if :: "bool \<Rightarrow> nat \<Rightarrow> trans" where
  "stamp_if ok n \<equiv> (if ok then st n else Fail ErrTimestamp)"

text \<open>Day and clock: the states 266 to 277 and 287 to 289.\<close>

definition next_stamp :: "machine \<Rightarrow> nat \<Rightarrow> byte \<Rightarrow> trans" where
  "next_stamp m cs b =
     (if cs = 266 then
        (if b = 32 then st 267 else if in_range 49 50 b then st 288 else stamp_if (b = 51) 289)
      else if cs = 267 then stamp_if (is_nonzero_digit b) 268
      else if cs = 268 then stamp_if (b = 32) 269
      else if cs = 269 then (if in_range 48 49 b then st 270 else stamp_if (b = 50) 287)
      else if cs = 270 then stamp_if (is_digit b) 271
      else if cs = 271 then stamp_if (b = 58) 272
      else if cs = 272 then stamp_if (in_range 48 53 b) 273
      else if cs = 273 then stamp_if (is_digit b) 274
      else if cs = 274 then stamp_if (b = 58) 275
      else if cs = 275 then stamp_if (in_range 48 53 b) 276
      else if cs = 276 then stamp_if (is_digit b) 277
      else if cs = 277 then (if b = 46 \<and> m_secfrac m then st 279 else after_stamp m b)
      else if cs = 287 then stamp_if (in_range 48 51 b) 271
      else if cs = 288 then stamp_if (is_digit b) 268
      else stamp_if (in_range 48 49 b) 268)"

text \<open>The fraction: one to six digits, in the states 279 to 285.\<close>

definition next_fraction :: "machine \<Rightarrow> nat \<Rightarrow> byte \<Rightarrow> trans" where
  "next_fraction m cs b =
     (if cs = 279 then stamp_if (is_digit b \<and> m_secfrac m) 280
      else if cs \<le> 284 \<and> is_digit b \<and> m_secfrac m then st (cs + 1)
      else after_stamp m b)"

text \<open>With lenient days: the states 309 to 327, 346 and 347, and 328 to 345 after a zero.\<close>

abbreviation len :: "machine \<Rightarrow> nat \<Rightarrow> nat \<Rightarrow> nat" where
  "len m n n' \<equiv> (if m_lenientDay m then n else n')"

definition next_lenient :: "machine \<Rightarrow> nat \<Rightarrow> byte \<Rightarrow> trans" where
  "next_lenient m cs b =
     (if cs = 309 then
        (if b = 32 then st (len m 310 267) else if b = 48 then stamp_if (m_lenientDay m) 328
         else if in_range 49 50 b then st (len m 346 288) else stamp_if (b = 51) (len m 347 289))
      else if cs = 310 then stamp_if (is_nonzero_digit b) (len m 311 268)
      else if cs = 311 then stamp_if (b = 32) (len m 312 269)
      else if cs = 312 then
        (if in_range 48 49 b then st (len m 313 270) else stamp_if (b = 50) (len m 327 287))
      else if cs = 313 then stamp_if (is_digit b) (len m 314 271)
      else if cs = 314 then stamp_if (b = 58) (len m 315 272)
      else if cs = 315 then stamp_if (in_range 48 53 b) (len m 316 273)
      else if cs = 316 then stamp_if (is_digit b) (len m 317 274)
      else if cs = 317 then stamp_if (b = 58) (len m 318 275)
      else if cs = 318 then stamp_if (in_range 48 53 b) (len m 319 276)
      else if cs = 319 then stamp_if (is_digit b) (len m 320 277)
      else if cs = 320 then (if b = 46 \<and> m_secfrac m then st (len m 321 279) else after_stamp m b)
      else if cs = 321 then stamp_if (is_digit b \<and> m_secfrac m) (len m 322 280)
      else if cs \<le> 325 then
        (if is_digit b \<and> m_secfrac m then st (len m (cs + 1) (cs - 41)) else after_stamp m b)
      else if cs = 326 then (if is_digit b \<and> m_secfrac m then st 285 else after_stamp m b)
      else if cs = 327 then stamp_if (in_range 48 51 b) (len m 314 271)
      else if cs = 346 then stamp_if (is_digit b) (len m 311 268)
      else stamp_if (in_range 48 49 b) (len m 311 268))"

definition next_zero_day :: "machine \<Rightarrow> nat \<Rightarrow> byte \<Rightarrow> trans" where
  "next_zero_day m cs b =
     (let ok = (\<lambda>c. stamp_if (c \<and> m_lenientDay m)) in
      if cs = 328 then ok (is_nonzero_digit b) 329
      else if cs = 329 then ok (b = 32) 330
      else if cs = 330 then (if b = 50 then ok True 345 else ok (in_range 48 49 b) 331)
      else if cs = 331 then ok (is_digit b) 332
      else if cs = 332 then ok (b = 58) 333
      else if cs = 333 then ok (in_range 48 53 b) 334
      else if cs = 334 then ok (is_digit b) 335
      else if cs = 335 then ok (b = 58) 336
      else if cs = 336 then ok (in_range 48 53 b) 337
      else if cs = 337 then ok (is_digit b) 338
      else if cs = 338 then
        (if b = 46 \<and> m_lenientDay m \<and> m_secfrac m then st 339 else after_stamp m b)
      else if cs = 339 then ok (is_digit b \<and> m_secfrac m) 340
      else if cs \<le> 344 then
        (if is_digit b \<and> m_lenientDay m \<and> m_secfrac m then st (if cs = 344 then 285 else cs + 1)
         else after_stamp m b)
      else ok (in_range 48 51 b) 332)"

section \<open>RFC 3339 timestamps\<close>

text \<open>The states 364 to 387 and 389 to 400, as offsets from 364.\<close>

definition rfc3339_next :: "nat \<Rightarrow> byte \<Rightarrow> nat option" where
  "rfc3339_next k b =
     (let to = (\<lambda>c n. if c then Some n else None) in
      if k \<le> 2 then to (is_digit b) (k + 1)
      else if k = 3 then to (b = 45) 4
      else if k = 4 then (if b = 48 then Some 5 else to (b = 49) 36)
      else if k = 5 then to (is_nonzero_digit b) 6
      else if k = 6 then to (b = 45) 7
      else if k = 7 then
        (if b = 48 then Some 8 else if in_range 49 50 b then Some 34 else to (b = 51) 35)
      else if k = 8 then to (is_nonzero_digit b) 9
      else if k = 9 then to (b = 84) 10
      else if k = 10 then (if in_range 48 49 b then Some 11 else to (b = 50) 33)
      else if k = 11 then to (is_digit b) 12
      else if k = 12 then to (b = 58) 13
      else if k = 13 then to (in_range 48 53 b) 14
      else if k = 14 then to (is_digit b) 15
      else if k = 15 then to (b = 58) 16
      else if k = 16 then to (in_range 48 53 b) 17
      else if k = 17 then to (is_digit b) 18
      else if k = 18 then
        (if b = 43 \<or> b = 45 then Some 19 else if b = 46 then Some 26 else to (b = 90) 24)
      else if k = 19 then (if in_range 48 49 b then Some 20 else to (b = 50) 25)
      else if k = 20 then to (is_digit b) 21
      else if k = 21 then to (b = 58) 22
      else if k = 22 then to (in_range 48 53 b) 23
      else if k = 23 then to (is_digit b) 24
      else if k = 25 then to (in_range 48 51 b) 21
      else if k = 26 then to (is_digit b) 27
      else if k \<le> 31 then
        (if is_digit b then Some (k + 1) else if b = 43 \<or> b = 45 then Some 19 else to (b = 90) 24)
      else if k = 32 then (if b = 43 \<or> b = 45 then Some 19 else to (b = 90) 24)
      else if k = 33 then to (in_range 48 51 b) 12
      else if k = 34 then to (is_digit b) 9
      else if k = 35 then to (in_range 48 49 b) 9
      else if k = 36 then to (in_range 48 50 b) 6
      else None)"

definition next_rfc3339 :: "machine \<Rightarrow> nat \<Rightarrow> byte \<Rightarrow> trans" where
  "next_rfc3339 m cs b =
     (if cs = 388 then
        (if b = 32 then To [Set_rfc3339] 278
         else if b = 58 \<and> (m_msgcount m \<or> m_sequence m \<or> m_ciscoHostname m) then To [Set_rfc3339] 286
         else Stop)
      else if cs = 454 then (if is_digit b \<and> m_rfc3339 m then st 455 else Fail ErrRFC3339)
      else if cs = 455 then
        (if is_digit b \<and> m_rfc3339 m then st 366
         else if b = 58 \<and> m_rfc3339 m then st 380 else Fail ErrRFC3339)
      else
        (case rfc3339_next (cs - 364) b of
           Some k \<Rightarrow> if m_rfc3339 m then st (364 + k)
             else if cs \<le> 373 \<or> 398 \<le> cs then Stop else Fail ErrRFC3339
         | None \<Rightarrow> if cs \<le> 373 \<or> 398 \<le> cs then Stop else Fail ErrRFC3339))"

text \<open>
  The same layout as far as its first colon, where the text may still be a Cisco hostname of
  \<open>h\<close> characters more or less: the blocks 440 to 452 with 456 to 459, and 500 to 516.
\<close>

definition host_rfc3339 :: "nat \<Rightarrow> nat \<Rightarrow> nat \<Rightarrow> nat" where
  "host_rfc3339 base tail k = (if k \<le> 12 then base + k else tail + (k - 33))"

definition rfc3339_depth :: "nat \<Rightarrow> nat" where
  "rfc3339_depth k = (if k \<le> 12 then k else if k = 33 then 11 else if k = 36 then 5 else 8)"

definition next_host_rfc3339 :: "machine \<Rightarrow> nat \<Rightarrow> nat \<Rightarrow> nat \<Rightarrow> nat \<Rightarrow> byte \<Rightarrow> trans" where
  "next_host_rfc3339 m base tail h k b =
     (case rfc3339_next k b of
        Some k' \<Rightarrow>
          if m_rfc3339 m then
            (if \<not> m_ciscoHostname m then st (364 + k')
             else if k = 12 then To [Set_hostname] 453 else st (host_rfc3339 base tail k'))
          else host_char m (h + rfc3339_depth k) b
      | None \<Rightarrow> host_char m (h + rfc3339_depth k) b)"

definition next_cisco_rfc3339 :: "machine \<Rightarrow> nat \<Rightarrow> byte \<Rightarrow> trans" where
  "next_cisco_rfc3339 m cs b =
     (if cs \<le> 452 then next_host_rfc3339 m 440 456 8 (cs - 440) b
      else if cs \<le> 459 then next_host_rfc3339 m 440 456 8 (33 + (cs - 456)) b
      else if cs \<le> 512 then next_host_rfc3339 m 500 513 7 (cs - 500) b
      else next_host_rfc3339 m 500 513 7 (33 + (cs - 513)) b)"

section \<open>All header states\<close>

definition next_header :: "machine \<Rightarrow> nat \<Rightarrow> byte \<Rightarrow> trans" where
  "next_header m cs b =
     (if cs \<le> 3 \<or> 518 \<le> cs \<and> cs \<le> 520 then next_pri cs b
      else if cs = 4 \<or> cs = 5 \<or> cs = 499 \<or> cs = 521 then next_body m cs b
      else if cs \<le> 260 \<or> cs = 498 \<or> cs = 517 then next_cisco m cs b
      else if cs = 261 \<or> cs = 262 \<or> cs = 453 then next_after_cisco m cs b
      else if cs \<le> 265 \<or> 290 \<le> cs \<and> cs \<le> 308 \<or> 348 \<le> cs \<and> cs \<le> 363 then next_month m cs b
      else if cs \<le> 277 \<or> 287 \<le> cs \<and> cs \<le> 289 then next_stamp m cs b
      else if cs \<le> 285 then next_fraction m cs b
      else if cs = 286 then (if b = 32 then st 278 else Stop)
      else if cs \<le> 327 \<or> cs = 346 \<or> cs = 347 then next_lenient m cs b
      else if cs \<le> 345 then next_zero_day m cs b
      else if cs \<le> 400 \<or> cs = 454 \<or> cs = 455 then next_rfc3339 m cs b
      else if cs = 401 then next_star m b
      else if cs \<le> 439 \<or> 460 \<le> cs \<and> cs \<le> 497 then next_cisco_month m cs b
      else next_cisco_rfc3339 m cs b)"

end
