(* ===== verification/RFC3164_Body.thy ===== *)
theory RFC3164_Body
  imports RFC3164_Header
begin

text \<open>
  rfc3164/machine.go, the states 278 and 522 to 1487: hostname, tag, content and message. The
  grammar reads the first word as a hostname, as a tag and as the message at the same time, so the
  states count both lengths; the states 1298 to 1484 are a word whose tag was followed by a bracket
  that a hostname may contain, in groups of four.
\<close>

text \<open>The characters that are not visible: the control characters but TAB, LF and CR.\<close>

definition is_control :: "byte \<Rightarrow> bool" where
  "is_control b \<longleftrightarrow> b \<le> 8 \<or> b = 11 \<or> b = 12 \<or> in_range 14 31 b \<or> b = 127"

text \<open>
  What every state of the message does with a character that it does not treat apart: a control
  character is \<open>e\<close>; a newline sets the message and goes on with it (at \<open>n\<close>), if newlines are
  embedded, or ends it; any other character goes on with the message. \<open>mk\<close> marks its start.
\<close>

definition msg_else :: "machine \<Rightarrow> action list \<Rightarrow> nat \<Rightarrow> trans \<Rightarrow> byte \<Rightarrow> trans" where
  "msg_else m mk n e b =
     (if is_control b then e
      else if b = 10 then (if m_newline m then To (mk @ [Set_message]) n else To [Set_message] 523)
      else To mk n)"

text \<open>A visible character that can be part of a tag.\<close>

definition is_tag :: "byte \<Rightarrow> bool" where
  "is_tag b \<longleftrightarrow> is_graph b \<and> b \<noteq> 58 \<and> b \<noteq> 91"

text \<open>A visible character that can be part of a hostname and of a content.\<close>

definition is_inner :: "byte \<Rightarrow> bool" where
  "is_inner b \<longleftrightarrow> is_tag b \<and> b \<noteq> 93"

section \<open>Message and tag\<close>

definition next_message :: "machine \<Rightarrow> nat \<Rightarrow> byte \<Rightarrow> trans" where
  "next_message m cs b =
     (if cs = 278 then
        (if b = 32 then To [Mark] 524 else if is_tag b then To [Mark] 525
         else if b = 91 then To [Mark] 1485 else if is_control b then Fail ErrHostname
         else To [Mark] 522)
      else if cs = 522 then msg_else m [] 522 Stop b
      else if cs = 523 then Stop
      else if cs = 524 then
        (if b = 32 then To [Mark] 524 else if is_tag b then To [Mark] 525
         else if b = 91 then To [Mark] 1485 else msg_else m [Mark] 522 (Fail ErrHostname) b)
      else if cs = 525 then
        (if b = 32 then To [Set_hostname] 526 else if b = 58 then To [Set_tag] 575
         else if b = 91 then To [Set_tag] 1481 else if is_tag b then st 580
         else msg_else m [] 522 (Fail ErrHostname) b)
      else
        (if b = 32 then To [Mark] 526 else if is_tag b then To [Mark] 527
         else msg_else m [Mark] 522 (Fail ErrTag) b))"

text \<open>After the hostname: the tag in 527 to 574, and what follows it.\<close>

definition next_tag :: "machine \<Rightarrow> nat \<Rightarrow> byte \<Rightarrow> trans" where
  "next_tag m cs b =
     (if cs \<le> 574 then
        (if cs \<noteq> 574 \<and> is_tag b then st (cs + 1) else if b = 58 then To [Set_tag] 575
         else if b = 91 then To [Set_tag] 577 else msg_else m [] 522 Stop b)
      else if cs = 575 then (if b = 32 then st 576 else msg_else m [] 522 Stop b)
      else if cs = 576 then msg_else m [Mark] 522 Stop b
      else if cs = 577 then
        (if b = 91 then st 522 else if b = 93 then To [Mark, Set_content] 579
         else msg_else m [Mark] 578 (Fail ErrContentStart) b)
      else if cs = 578 then
        (if b = 91 then st 522 else if b = 93 then To [Set_content] 579
         else msg_else m [] 578 (Fail ErrContentStart) b)
      else if b = 58 then st 575 else msg_else m [] 522 Stop b)"

section \<open>A first word\<close>

text \<open>
  The states 580 to 833: a word that may be a hostname and, up to its 48th character, a tag. A
  bracket after a tag goes to the group of states for the length of the hostname so far.
\<close>

definition bracket_state :: "nat \<Rightarrow> nat" where
  "bracket_state cs =
     (if cs \<le> 624 then 1477 - 4 * (cs - 580) else if cs = 625 then 1298 else 834)"

definition next_word :: "machine \<Rightarrow> nat \<Rightarrow> byte \<Rightarrow> trans" where
  "next_word m cs b =
     (if b = 32 then To [Set_hostname] 526
      else if cs \<le> 626 \<and> b = 58 then To [Set_tag] 575
      else if cs \<le> 626 \<and> b = 91 then To [Set_tag] (bracket_state cs)
      else if cs \<noteq> 833 \<and> is_graph b \<and> b \<noteq> 58 then st (cs + 1)
      else msg_else m [] 522 (Fail ErrHostname) b)"

text \<open>The content of a first word with a bracket, when the word may still be a hostname.\<close>

definition next_host_content :: "machine \<Rightarrow> nat \<Rightarrow> byte \<Rightarrow> trans" where
  "next_host_content m cs b =
     (if b = 32 then To [Set_hostname] 835
      else if cs = 1091 then
        (if b = 91 then st 522 else if b = 93 then To [Set_content] 579
         else msg_else m [] 578 (Fail ErrHostname) b)
      else if is_inner b then st (cs + 1)
      else if b = 91 then st (cs - 257)
      else if b = 93 then To [Set_content] (1296 - (cs - 886))
      else msg_else m [] 578 (Fail ErrHostname) b)"

text \<open>After that content: the rest of a hostname, or the colon of the tag.\<close>

definition next_closed :: "machine \<Rightarrow> nat \<Rightarrow> byte \<Rightarrow> trans" where
  "next_closed m cs b =
     (if b = 32 then To [Set_hostname] 526
      else if b = 58 then st 575
      else if cs \<noteq> 1092 \<and> is_graph b then st (833 - (cs - 1093))
      else msg_else m [] 522 (Fail ErrHostname) b)"

text \<open>The states 835 to 885: the tag of a message that began with such a hostname.\<close>

definition next_second_tag :: "machine \<Rightarrow> nat \<Rightarrow> byte \<Rightarrow> trans" where
  "next_second_tag m cs b =
     (if cs = 835 then
        (if b = 32 then To [Mark] 835 else if is_inner b then To [Mark] 836
         else if b = 91 then To [Mark] 522 else if b = 93 then To [Mark, Set_content] 527
         else msg_else m [Mark] 578 (Fail ErrTag) b)
      else if cs \<le> 883 then
        (if cs \<noteq> 883 \<and> is_inner b then st (cs + 1) else if b = 58 then To [Set_tag] 884
         else if b = 91 then To [Set_tag] 577
         else if b = 93 then To [Set_content] (if cs = 883 then 579 else cs - 308)
         else msg_else m [] 578 (Fail ErrContentStart) b)
      else if cs = 884 then
        (if b = 32 then st 885 else if b = 91 then st 522 else if b = 93 then To [Set_content] 579
         else msg_else m [] 578 (Fail ErrContentStart) b)
      else
        (if b = 91 then To [Mark] 522 else if b = 93 then To [Set_content, Mark] 579
         else msg_else m [Mark] 578 (Fail ErrContentStart) b))"

section \<open>Brackets in a first word\<close>

text \<open>
  A state right after the bracket (\<open>open\<close>), one within the content, one after a second bracket and
  one after the closing bracket; each goes on to the group for a hostname that is one longer.
\<close>

definition next_open :: "machine \<Rightarrow> nat \<Rightarrow> nat \<Rightarrow> nat \<Rightarrow> byte \<Rightarrow> trans" where
  "next_open m inner again closed b =
     (if b = 32 then To [Set_hostname, Mark] 835
      else if is_inner b then To [Mark] inner
      else if b = 91 then st again
      else if b = 93 then To [Mark, Set_content] closed
      else msg_else m [Mark] 578 (Fail ErrHostname) b)"

definition next_inner :: "machine \<Rightarrow> nat \<Rightarrow> nat \<Rightarrow> nat \<Rightarrow> byte \<Rightarrow> trans" where
  "next_inner m inner again closed b =
     (if b = 32 then To [Set_hostname] 835
      else if is_inner b then st inner
      else if b = 91 then st again
      else if b = 93 then To [Set_content] closed
      else msg_else m [] 578 (Fail ErrHostname) b)"

definition next_again :: "machine \<Rightarrow> nat \<Rightarrow> byte \<Rightarrow> trans" where
  "next_again m n b =
     (if b = 32 then To [Set_hostname] 526
      else if is_graph b \<and> b \<noteq> 58 then st n
      else msg_else m [] 522 (Fail ErrHostname) b)"

definition next_after :: "machine \<Rightarrow> nat \<Rightarrow> byte \<Rightarrow> trans" where
  "next_after m n b = (if b = 58 then st 575 else next_again m n b)"

text \<open>The group \<open>1301 + 4 * i\<close>, whose successor is the group before it.\<close>

definition next_group :: "machine \<Rightarrow> nat \<Rightarrow> byte \<Rightarrow> trans" where
  "next_group m cs b =
     (let first = cs \<le> 1304; k = (cs - 1301) mod 4 in
      if k = 0 then next_open m (cs + 1) (cs + 2) (cs + 3) b
      else if k = 1 then
        next_inner m (if first then 1299 else cs - 4) (if first then 627 else cs - 3)
          (if first then 1300 else cs - 2) b
      else if k = 2 then next_again m (if first then 627 else cs - 4) b
      else next_after m (if first then 627 else cs - 5) b)"

definition next_bracket :: "machine \<Rightarrow> nat \<Rightarrow> byte \<Rightarrow> trans" where
  "next_bracket m cs b =
     (if cs = 834 then next_open m 886 628 1297 b
      else if cs = 1298 then next_open m 1299 627 1300 b
      else if cs = 1299 then next_inner m 886 628 1297 b
      else if cs = 1300 then next_after m 628 b
      else if cs \<le> 1484 then next_group m cs b
      else if cs = 1485 then next_again m 1486 b
      else next_again m 1483 b)"

section \<open>All states\<close>

text \<open>The machine that skips the rest of a line after an error.\<close>

definition next_fail :: "machine \<Rightarrow> byte \<Rightarrow> trans" where
  "next_fail m b = (if (b = 10 \<or> b = 13) \<and> \<not> m_newline m then Stop else st 1487)"

definition next_trans :: "machine \<Rightarrow> nat \<Rightarrow> byte \<Rightarrow> trans" where
  "next_trans m cs b =
     (if cs = 0 then Stop
      else if cs = 278 \<or> 522 \<le> cs \<and> cs \<le> 526 then next_message m cs b
      else if cs \<le> 521 then next_header m cs b
      else if cs \<le> 579 then next_tag m cs b
      else if cs \<le> 833 then next_word m cs b
      else if cs = 834 \<or> 1298 \<le> cs \<and> cs \<le> 1486 then next_bracket m cs b
      else if cs \<le> 885 then next_second_tag m cs b
      else if cs \<le> 1091 then next_host_content m cs b
      else if cs \<le> 1297 then next_closed m cs b
      else if cs = 1487 then next_fail m b
      else Leave 2)"

section \<open>End of input\<close>

text \<open>The first error action of a state; the ones after it are not reached.\<close>

definition eof_error :: "nat \<Rightarrow> err_kind option" where
  "eof_error cs =
     (if cs = 1 then Some ErrPri
      else if cs = 2 \<or> cs = 3 \<or> 518 \<le> cs \<and> cs \<le> 520 then Some ErrPrival
      else if cs = 4 \<or> cs = 5 \<or> cs = 521 then Some ErrSequence
      else if 6 \<le> cs \<and> cs \<le> 260 \<or> cs = 278 \<or> 401 \<le> cs \<and> cs \<le> 452 \<or> 456 \<le> cs \<and> cs \<le> 497 \<or>
        499 \<le> cs \<and> cs \<le> 516 then Some ErrHostname
      else if 261 \<le> cs \<and> cs \<le> 276 \<or> cs = 279 \<or> 287 \<le> cs \<and> cs \<le> 319 \<or> cs = 321 \<or>
        327 \<le> cs \<and> cs \<le> 337 \<or> cs = 339 \<or> 345 \<le> cs \<and> cs \<le> 363 \<or> cs = 453 then Some ErrTimestamp
      else if 374 \<le> cs \<and> cs \<le> 387 \<or> 389 \<le> cs \<and> cs \<le> 397 \<or> cs = 454 \<or> cs = 455 then Some ErrRFC3339
      else None)"

definition eof_actions :: "machine \<Rightarrow> syslogMessage \<Rightarrow> outcome" where
  "eof_actions m out =
     (if m_cs m = 522 \<or> 524 \<le> m_cs m \<and> m_cs m \<le> 1486 then with_text m (\<lambda>t. Out m (out\<lparr>message := t\<rparr>))
      else (case eof_error (m_cs m) of Some k \<Rightarrow> fail_with k m out | None \<Rightarrow> Out m out))"

end
