(* ===== verification/RFC3164_Run.thy ===== *)
theory RFC3164_Run
  imports RFC3164_Body
begin

text \<open>
  rfc3164/machine.go: one step of the machine, the run over an input, and \<open>Parse\<close>.
\<close>

section \<open>Steps\<close>

definition take_trans :: "trans \<Rightarrow> machine \<Rightarrow> syslogMessage \<Rightarrow> outcome" where
  "take_trans t m out =
     (case t of
        To as n \<Rightarrow> perform as n m out
      | Fail k \<Rightarrow> fail_with k m out
      | Leave n \<Rightarrow> Out (m\<lparr>m_cs := n\<rparr>) out)"

text \<open>The states 3, 518, 519 and 520 set the priority before they look at the character.\<close>

definition in_prival :: "nat \<Rightarrow> bool" where
  "in_prival cs \<longleftrightarrow> cs = 3 \<or> cs = 518 \<or> cs = 519 \<or> cs = 520"

definition step :: "byte \<Rightarrow> machine \<Rightarrow> syslogMessage \<Rightarrow> outcome" where
  "step b m out =
     (let t = next_trans m (m_cs m) b in
      if in_prival (m_cs m) then with_text m (\<lambda>p. take_trans t m (set_prival p out))
      else take_trans t m out)"

definition finish :: "outcome \<Rightarrow> (machine \<times> syslogMessage) option" where
  "finish r = (case r of Panic \<Rightarrow> None | Out m out \<Rightarrow> Some (m, out) | Next m out \<Rightarrow> Some (m, out))"

section \<open>Progress\<close>

text \<open>A step advances \<open>p\<close>, or holds it and enters the state 1487, which always advances.\<close>

fun progress :: "machine \<Rightarrow> outcome \<Rightarrow> bool" where
  "progress m (Next m' out) \<longleftrightarrow>
     m_data m' = m_data m \<and> m_pe m' = m_pe m \<and>
     (m_p m' = m_p m + 1 \<or> m_p m' = m_p m \<and> m_cs m \<noteq> enFail \<and> m_cs m' = enFail)"
| "progress m Panic = True"
| "progress m (Out m' out) = True"

lemma goto_st_simps [simp]:
  "m_data (goto_st n m) = m_data m" "m_p (goto_st n m) = m_p m + 1" "m_pe (goto_st n m) = m_pe m"
  "m_eof (goto_st n m) = m_eof m" "m_cs (goto_st n m) = n" "m_pb (goto_st n m) = m_pb m"
  "m_err (goto_st n m) = m_err m"
  by (simp_all add: goto_st_def)

lemma progress_fail_with:
  "m_cs m \<noteq> enFail \<Longrightarrow> m_data m1 = m_data m \<Longrightarrow> m_p m1 = m_p m \<Longrightarrow> m_pe m1 = m_pe m \<Longrightarrow>
    progress m (fail_with k m1 out)"
  by (simp add: fail_with_def)

lemma progress_perform:
  "m_cs m \<noteq> enFail \<Longrightarrow> m_data m1 = m_data m \<Longrightarrow> m_p m1 = m_p m \<Longrightarrow> m_pe m1 = m_pe m \<Longrightarrow>
    progress m (perform as n m1 out)"
  by (induction as n m1 out rule: perform.induct)
    (simp_all add: with_text_def progress_fail_with split: option.split sum.split)

lemma step_makes_progress: "progress m (step b m out)"
proof (cases "m_cs m = enFail")
  case True
  then show ?thesis
    by (simp add: step_def in_prival_def enFail_def next_trans_def next_fail_def take_trans_def)
next
  case False
  then have "progress m (take_trans t m out)" for t out
    by (cases t) (simp_all add: take_trans_def progress_perform progress_fail_with)
  then show ?thesis
    by (simp add: step_def Let_def with_text_def split: option.split)
qed

section \<open>The run\<close>

definition run_measure :: "machine \<Rightarrow> nat" where
  "run_measure m = 2 * (length (m_data m) - m_p m) + (if m_cs m = enFail then 0 else 1)"

function run :: "machine \<Rightarrow> syslogMessage \<Rightarrow> (machine \<times> syslogMessage) option" where
  "run m out =
     (if m_p m = m_pe m then
        (if m_p m = m_eof m then finish (eof_actions m out) else Some (m, out))
      else (case gindex (m_data m) (m_p m) of
              None \<Rightarrow> None
            | Some b \<Rightarrow>
                (case step b m out of
                   Panic \<Rightarrow> None
                 | Out m' out' \<Rightarrow> Some (m', out')
                 | Next m' out' \<Rightarrow> run m' out')))"
  by pat_completeness auto
termination
proof (relation "measure (\<lambda>(m, out). run_measure m)", goal_cases)
  case (2 m out b m' out')
  from 2(2) have "m_p m < length (m_data m)"
    by (auto simp: gindex_def split: if_splits)
  with step_makes_progress [of m b out] 2(3) show ?case
    by (auto simp: run_measure_def)
qed simp

declare run.simps [simp del]

section \<open>Parse\<close>

definition hasPriority :: "bytes \<Rightarrow> bool" where
  "hasPriority input \<longleftrightarrow> input \<noteq> [] \<and> input ! 0 = 60"

definition init_parse :: "bytes \<Rightarrow> machine \<Rightarrow> machine" where
  "init_parse input m =
     m\<lparr>m_data := input, m_p := 0, m_pb := 0, m_pe := length input, m_eof := length input,
       m_err := None, m_cs := (if hasPriority input then start else enMainMessageBody)\<rparr>"

definition parse_result ::
    "machine \<Rightarrow> syslogMessage \<Rightarrow> SyslogMessage option \<times> perror option" where
  "parse_result m out =
     (if m_cs m < firstFinal \<or> m_cs m = enFail then
        (if m_bestEffort m \<and> minimal out then (Some (export out), m_err m) else (None, m_err m))
      else (Some (export out), None))"

text \<open>Without a PRI the Cisco extras are switched off for the call and restored at its return.\<close>

definition without_cisco :: "machine \<Rightarrow> machine" where
  "without_cisco m = m\<lparr>m_msgcount := False, m_sequence := False, m_ciscoHostname := False\<rparr>"

definition restore_cisco :: "machine \<Rightarrow> machine \<Rightarrow> machine" where
  "restore_cisco old m =
     m\<lparr>m_msgcount := m_msgcount old, m_sequence := m_sequence old,
       m_ciscoHostname := m_ciscoHostname old\<rparr>"

text \<open>\<open>None\<close> is a panic; otherwise the machine after the call, the message and the error.\<close>

definition Parse ::
    "machine \<Rightarrow> bytes \<Rightarrow> (machine \<times> SyslogMessage option \<times> perror option) option" where
  "Parse m input =
     (if \<not> hasPriority input \<and> \<not> m_optionalPriority m then
        (let m = m\<lparr>m_err := Some (ErrPri, 0)\<rparr> in Some (m, None, m_err m))
      else
        (case run (init_parse input (if hasPriority input then m else without_cisco m))
               (syslogMessage_init (m_optionalPriority m)) of
           None \<Rightarrow> None
         | Some (m', out) \<Rightarrow>
             Some (if hasPriority input then m' else restore_cisco m m', parse_result m' out)))"

end
