(* ===== verification/RFC3164_Safety.thy ===== *)
theory RFC3164_Safety
  imports RFC3164_Run
begin

text \<open>
  The invariant of the RFC 3164 machine: where its transitions lead, what each state says about the
  pointers, the text marked so far and the message. From it: no call panics, and every message that
  is returned is valid.
\<close>

section \<open>Where the transitions lead\<close>

text \<open>A conditional is taken apart as a rule, so that each leaf is one goal with its guards.\<close>

fun leads :: "(action list \<Rightarrow> nat \<Rightarrow> bool) \<Rightarrow> trans \<Rightarrow> bool" where
  "leads P (To as n) = P as n"
| "leads P (Fail k) = True"
| "leads P (Leave n) = (n \<le> 2)"

lemma leads_if:
  "(c \<Longrightarrow> leads P x) \<Longrightarrow> (\<not> c \<Longrightarrow> leads P y) \<Longrightarrow> leads P (if c then x else y)"
  by simp

lemma leads_option:
  "(x = None \<Longrightarrow> leads P y) \<Longrightarrow> (\<And>v. x = Some v \<Longrightarrow> leads P (f v)) \<Longrightarrow>
    leads P (case x of None \<Rightarrow> y | Some v \<Rightarrow> f v)"
  by (cases x) simp_all

lemma leads_mono: "leads P t \<Longrightarrow> (\<And>as n. P as n \<Longrightarrow> Q as n) \<Longrightarrow> leads Q t"
  by (cases t) simp_all

text \<open>The states after PRI and before the message; 278 and 286 come after a timestamp.\<close>

definition to_header :: "action list \<Rightarrow> nat \<Rightarrow> bool" where
  "to_header as n \<longleftrightarrow>
     4 \<le> n \<and> n \<le> 517 \<and> (n = 278 \<or> n = 286 \<longrightarrow> Set_timestamp \<in> set as \<or> Set_rfc3339 \<in> set as)"

lemma leads_header:
  "4 \<le> n \<Longrightarrow> n \<le> 517 \<Longrightarrow> n \<noteq> 278 \<Longrightarrow> n \<noteq> 286 \<Longrightarrow> leads to_header (To as n)"
  by (simp add: to_header_def)

lemma leads_stamp:
  "Set_timestamp \<in> set as \<or> Set_rfc3339 \<in> set as \<Longrightarrow> 4 \<le> n \<Longrightarrow> n \<le> 517 \<Longrightarrow> leads to_header (To as n)"
  by (simp add: to_header_def)

lemma leads_leaf [simp]: "leads P (Fail k)" "leads P (Leave 0)"
  by simp_all

lemma month_initial_range: "month_initial b = Some k \<Longrightarrow> k \<le> 18"
  by (auto simp: month_initial_def split: if_splits)

lemma month_next_range: "month_next k b = Some k' \<Longrightarrow> k' \<le> 18"
  by (auto simp: month_next_def split: if_splits)

lemma leads_plain_month: "k \<le> 18 \<Longrightarrow> leads to_header (To as (plain_month k))"
  by (rule leads_header) (auto simp: plain_month_def)

lemma leads_a_month: "k \<le> 18 \<Longrightarrow> leads to_header (To as (a_month m k))"
  by (rule leads_header) (auto simp: a_month_def lenient_month_def plain_month_def)

lemma leads_host_char:
  assumes "6 \<le> n" "n \<le> 260"
  shows "leads to_header (host_char m n b)"
  unfolding host_char_def using assms
  by (intro leads_if leads_leaf leads_header) auto

lemma month_depth_le: "month_depth k \<le> 2"
  by (simp add: month_depth_def)

lemma leads_month_char:
  assumes "h \<le> 8" "6 \<le> h"
  shows "leads to_header (host_char m (h + month_depth k) b)"
  using assms month_depth_le [of k] by (intro leads_host_char) auto

lemma leads_month: "leads to_header (next_month m cs b)"
  unfolding next_month_def
  by (intro leads_if leads_option leads_leaf leads_plain_month leads_a_month leads_header)
    (auto dest: month_next_range)

lemma leads_letter:
  assumes "month_next k b = Some k'" "402 \<le> base" "base \<le> 460"
  shows "leads to_header (st (if c then base + k' else plain_month k'))"
    "leads to_header (st (if c then if d then base + 19 + k' else base + k' else a_month m k'))"
  using assms month_next_range [OF assms(1)] leads_plain_month [of k' "[]"] leads_a_month [of k' "[]" m]
  by (auto simp: to_header_def)

lemma leads_host_month:
  assumes "402 \<le> base" "base \<le> 460" "h \<le> 8" "6 \<le> h"
  shows "leads to_header (next_host_month m base h k b)"
    "leads to_header (next_host_lenient m base h k b)"
  unfolding next_host_month_def next_host_lenient_def using assms
  by (intro leads_if leads_option leads_letter leads_month_char leads_header; simp)+

lemma leads_cisco_month: "leads to_header (next_cisco_month m cs b)"
  unfolding next_cisco_month_def by (intro leads_if leads_host_month) simp_all

lemma leads_initial:
  assumes "month_initial b = Some k"
  shows "leads to_header (To as (a_month m k))"
    "leads to_header (To as (if c then if d then 421 + k else 402 + k else a_month m k))"
    "leads to_header (To as (if c then if d then 479 + k else 460 + k else a_month m k))"
  using month_initial_range [OF assms] leads_a_month [of k as m] by (auto simp: to_header_def)

lemma leads_body: "leads to_header (next_body m cs b)"
proof -
  have self: "cs = 4 \<and> b = 32 \<or> cs = 5 \<and> b = 32 \<and> m_msgcount m \<or>
      cs = 499 \<and> b = 32 \<and> m_sequence m \<Longrightarrow> leads to_header (st cs)"
    by (auto simp: to_header_def)
  show ?thesis
  proof (cases "month_initial b")
    case None
    show ?thesis
      unfolding next_body_def Let_def None option.case simp_thms if_False
      by (intro leads_if leads_leaf self leads_header; (assumption | simp (no_asm)))
  next
    case (Some k)
    show ?thesis
      unfolding next_body_def Let_def Some option.case option.sel
      by (intro leads_if leads_leaf self leads_initial(3) [OF Some] leads_header;
          (assumption | simp (no_asm)))
  qed
qed

lemma leads_after_cisco: "leads to_header (next_after_cisco m cs b)"
  unfolding next_after_cisco_def
  by (intro leads_if leads_option leads_leaf leads_a_month leads_header)
    (auto dest: month_initial_range)

lemma leads_star: "leads to_header (next_star m b)"
  unfolding next_star_def
  by (intro leads_if leads_option leads_leaf leads_initial(2) leads_header leads_host_char;
      (simp (no_asm))?)

lemma leads_cisco:
  "cs = 498 \<or> cs = 517 \<or> 6 \<le> cs \<and> cs \<le> 260 \<Longrightarrow> leads to_header (next_cisco m cs b)"
  unfolding next_cisco_def by (intro leads_if leads_leaf leads_header leads_host_char) auto

lemma leads_after_stamp: "leads to_header (after_stamp m b)"
  unfolding after_stamp_def by (intro leads_if leads_leaf leads_stamp) simp_all

lemma leads_clock: "cs \<noteq> 278 \<Longrightarrow> leads to_header (next_stamp m cs b)"
  unfolding next_stamp_def
  by (intro leads_if leads_leaf leads_header leads_after_stamp) simp_all

lemma leads_fraction: "279 \<le> cs \<Longrightarrow> cs \<le> 285 \<Longrightarrow> leads to_header (next_fraction m cs b)"
  unfolding next_fraction_def
  by (intro leads_if leads_leaf leads_header leads_after_stamp) simp_all

lemma sub_41:
  fixes cs :: nat
  shows "cs \<le> 325 \<Longrightarrow> cs - 41 \<noteq> 286" "cs \<le> 325 \<Longrightarrow> cs - 41 \<le> 517" "309 \<le> cs \<Longrightarrow> 4 \<le> cs - 41"
    "309 \<le> cs \<Longrightarrow> cs \<noteq> 319 \<Longrightarrow> cs - 41 \<noteq> 278"
  by simp_all

lemma leads_lenient:
  "309 \<le> cs \<Longrightarrow> leads to_header (next_lenient m cs b)"
  unfolding next_lenient_def
  by (intro leads_if leads_leaf leads_header leads_after_stamp) (simp_all add: sub_41)

lemma leads_zero_day: "328 \<le> cs \<Longrightarrow> leads to_header (next_zero_day m cs b)"
  unfolding next_zero_day_def Let_def
  by (intro leads_if leads_leaf leads_header leads_after_stamp) simp_all

lemma rfc3339_next_range: "rfc3339_next k b = Some k' \<Longrightarrow> k' \<le> 36"
  by (auto simp: rfc3339_next_def Let_def split: if_splits)

lemma leads_rfc3339: "leads to_header (next_rfc3339 m cs b)"
  unfolding next_rfc3339_def
  by (intro leads_if leads_option leads_leaf leads_header leads_stamp) (auto dest: rfc3339_next_range)

lemma host_rfc3339_range:
  assumes "440 \<le> base" "base \<le> 500" "440 \<le> tail" "tail \<le> 513" "rfc3339_next k b = Some k'"
  shows "440 \<le> host_rfc3339 base tail k'" "host_rfc3339 base tail k' \<le> 516"
  using assms rfc3339_next_range [of k b k'] by (auto simp: host_rfc3339_def)

lemma leads_host_rfc3339:
  assumes "440 \<le> base" "base \<le> 500" "440 \<le> tail" "tail \<le> 513" "h \<le> 8" "6 \<le> h"
  shows "leads to_header (next_host_rfc3339 m base tail h k b)"
proof -
  have "rfc3339_depth k \<le> 12"
    by (simp add: rfc3339_depth_def)
  moreover have "leads to_header (st (host_rfc3339 base tail k'))" if "rfc3339_next k b = Some k'" for k'
    using host_rfc3339_range [OF assms(1-4) that] by (intro leads_header) auto
  ultimately show ?thesis
    unfolding next_host_rfc3339_def using assms
    by (intro leads_if leads_option leads_host_char) (auto dest: rfc3339_next_range simp: to_header_def)
qed

lemma leads_cisco_rfc3339: "leads to_header (next_cisco_rfc3339 m cs b)"
  unfolding next_cisco_rfc3339_def by (intro leads_if leads_host_rfc3339) simp_all

lemma leads_after_pri:
  assumes "4 \<le> cs" "cs \<le> 517 \<or> cs = 521" "cs \<noteq> 278" "cs \<noteq> 286"
  shows "leads to_header (next_header m cs b)"
  unfolding next_header_def
  by (intro leads_if leads_body leads_cisco leads_after_cisco leads_month leads_clock leads_fraction
      leads_lenient leads_zero_day leads_rfc3339 leads_star leads_cisco_month leads_cisco_rfc3339)
    (use assms in auto)

text \<open>
  The states of the message. 523, after a newline, is entered with the message set and nothing else.
\<close>

definition to_body :: "nat \<Rightarrow> action list \<Rightarrow> nat \<Rightarrow> bool" where
  "to_body cs as n \<longleftrightarrow>
     522 \<le> n \<and> n \<le> 1486 \<and> Set_timestamp \<notin> set as \<and> Set_rfc3339 \<notin> set as \<and>
     (n = 523 \<longrightarrow> cs \<noteq> 278 \<and> as = [Set_message])"

abbreviation plain_acts :: "action list \<Rightarrow> bool" where
  "plain_acts as \<equiv> Set_timestamp \<notin> set as \<and> Set_rfc3339 \<notin> set as"

lemma leads_message:
  "plain_acts as \<Longrightarrow> 522 \<le> n \<Longrightarrow> n \<le> 1486 \<Longrightarrow> n \<noteq> 523 \<Longrightarrow>
    leads (to_body cs) (To as n)"
  by (simp add: to_body_def)

lemma leads_newline: "cs \<noteq> 278 \<Longrightarrow> leads (to_body cs) (To [Set_message] 523)"
  by (simp add: to_body_def)

lemma leads_msg_else:
  assumes "cs \<noteq> 278" "plain_acts mk" "522 \<le> n" "n \<le> 1486" "n \<noteq> 523" "leads (to_body cs) e"
  shows "leads (to_body cs) (msg_else m mk n e b)"
  unfolding msg_else_def using assms
  by (intro leads_if leads_newline leads_message; simp)

lemma leads_msg_else_leaf:
  assumes "cs \<noteq> 278" "plain_acts mk" "522 \<le> n" "n \<le> 1486" "n \<noteq> 523"
  shows "leads (to_body cs) (msg_else m mk n Stop b)" "leads (to_body cs) (msg_else m mk n (Fail k) b)"
  using assms by (simp_all add: leads_msg_else)

lemma leads_next_message:
  "cs = 278 \<or> 522 \<le> cs \<and> cs \<le> 526 \<Longrightarrow> leads (to_body cs) (next_message m cs b)"
  unfolding next_message_def
  by (intro leads_if leads_leaf leads_msg_else_leaf leads_message; simp)

lemma leads_tag: "527 \<le> cs \<Longrightarrow> leads (to_body cs) (next_tag m cs b)"
  unfolding next_tag_def
  by (intro leads_if leads_leaf leads_msg_else_leaf leads_message; simp)

lemma bracket_state_range: "bracket_state cs \<le> 1477" "834 \<le> bracket_state cs"
proof -
  have "cs \<le> 624 \<Longrightarrow> 4 * (cs - 580) \<le> 4 * 44"
    by simp
  then show "bracket_state cs \<le> 1477" "834 \<le> bracket_state cs"
    by (auto simp: bracket_state_def)
qed

lemma leads_word: "580 \<le> cs \<Longrightarrow> cs \<le> 833 \<Longrightarrow> leads (to_body cs) (next_word m cs b)"
  unfolding next_word_def using bracket_state_range [of cs]
  by (intro leads_if leads_leaf leads_msg_else_leaf leads_message; simp)

lemma leads_host_content:
  "886 \<le> cs \<Longrightarrow> cs \<le> 1091 \<Longrightarrow> leads (to_body cs) (next_host_content m cs b)"
  unfolding next_host_content_def
  by (intro leads_if leads_leaf leads_msg_else_leaf leads_message; simp)

lemma leads_closed: "1092 \<le> cs \<Longrightarrow> cs \<le> 1297 \<Longrightarrow> leads (to_body cs) (next_closed m cs b)"
  unfolding next_closed_def
  by (intro leads_if leads_leaf leads_msg_else_leaf leads_message; simp)

lemma sub_308:
  fixes cs :: nat
  shows "cs \<le> 883 \<Longrightarrow> 835 \<le> cs \<Longrightarrow> cs \<noteq> 835 \<Longrightarrow> 522 \<le> cs - 308 \<and> cs - 308 \<noteq> 523 \<and> cs - 308 \<le> 1486"
  by arith

lemma leads_second_tag: "835 \<le> cs \<Longrightarrow> leads (to_body cs) (next_second_tag m cs b)"
  unfolding next_second_tag_def
  by (intro leads_if leads_leaf leads_msg_else_leaf leads_message; simp add: sub_308)

definition body_state :: "nat \<Rightarrow> bool" where
  "body_state n \<longleftrightarrow> 522 \<le> n \<and> n \<le> 1486 \<and> n \<noteq> 523"

lemma body_stateD: "body_state n \<Longrightarrow> 522 \<le> n" "body_state n \<Longrightarrow> n \<le> 1486" "body_state n \<Longrightarrow> n \<noteq> 523"
  by (simp_all add: body_state_def)

lemma leads_closing:
  assumes "cs \<noteq> 278" "body_state i"
  shows "leads (to_body cs) (next_again m i b)" "leads (to_body cs) (next_after m i b)"
  using assms(1) body_stateD [OF assms(2)]
  by (auto simp: next_again_def next_after_def leads_msg_else_leaf simp del: leads.simps(1)
      intro!: leads_message)

lemma leads_opening:
  assumes "cs \<noteq> 278" "body_state i" "body_state a" "body_state c"
  shows "leads (to_body cs) (next_open m i a c b)" "leads (to_body cs) (next_inner m i a c b)"
  using assms(1) body_stateD [OF assms(2)] body_stateD [OF assms(3)] body_stateD [OF assms(4)]
  by (auto simp: next_open_def next_inner_def leads_msg_else_leaf simp del: leads.simps(1)
      intro!: leads_message)

lemmas leads_brackets = leads_opening leads_closing

lemma leads_group: "1301 \<le> cs \<Longrightarrow> cs \<le> 1484 \<Longrightarrow> leads (to_body cs) (next_group m cs b)"
  unfolding next_group_def Let_def
  by (intro leads_if leads_brackets) (auto simp: body_state_def, presburger+)

lemma leads_bracket:
  "cs = 834 \<or> 1298 \<le> cs \<and> cs \<le> 1486 \<Longrightarrow> leads (to_body cs) (next_bracket m cs b)"
  unfolding next_bracket_def
  by (intro leads_if leads_brackets leads_group) (auto simp: body_state_def)

lemma leads_to_body:
  assumes "cs = 278 \<or> 522 \<le> cs \<and> cs \<le> 1486"
  shows "leads (to_body cs) (next_trans m cs b)"
  unfolding next_trans_def
  by (intro leads_if leads_leaf leads_next_message leads_tag leads_word leads_bracket leads_second_tag
      leads_host_content leads_closed)
    (use assms in auto)

section \<open>The invariant\<close>

definition wf_ptr :: "machine \<Rightarrow> bool" where
  "wf_ptr m \<longleftrightarrow>
     m_pe m = length (m_data m) \<and> m_eof m = length (m_data m) \<and> m_p m \<le> length (m_data m) \<and>
     m_pb m \<le> m_p m \<and> (\<forall>k c. m_err m = Some (k, c) \<longrightarrow> c \<le> m_p m) \<and>
     (m_cs m = enFail \<longrightarrow> m_err m \<noteq> None)"

text \<open>The digits of PRI so far, in the four states that read them.\<close>

definition pri_text :: "nat \<Rightarrow> bytes \<Rightarrow> bool" where
  "pri_text cs t \<longleftrightarrow> list_all is_digit t \<and>
     dec_value t 0 \<le> (if cs = 518 then 1 else if cs = 519 then 18 else if cs = 520 then 19 else 191)"

definition before_pri :: "nat \<Rightarrow> bool" where
  "before_pri cs \<longleftrightarrow> cs \<le> 2 \<or> in_prival cs \<or> cs = enFail"

definition timed :: "nat \<Rightarrow> bool" where
  "timed cs \<longleftrightarrow> cs = 278 \<or> cs = 286 \<or> 522 \<le> cs \<and> cs \<le> 1486"

definition out_ok :: "syslogMessage \<Rightarrow> bool" where
  "out_ok out \<longleftrightarrow> (prioritySet out \<longrightarrow> ValidPriority (priority out)) \<and>
     (timestampSet out \<longrightarrow> timestamp out \<noteq> None)"

definition machine_inv :: "bool \<Rightarrow> machine \<Rightarrow> syslogMessage \<Rightarrow> bool" where
  "machine_inv opt m out \<longleftrightarrow> out_ok out \<and>
     (before_pri (m_cs m) \<or> prioritySet out \<or> opt) \<and>
     (in_prival (m_cs m) \<longrightarrow> (\<exists>t. m_text m = Some t \<and> pri_text (m_cs m) t)) \<and>
     (timed (m_cs m) \<longrightarrow> timestampSet out) \<and>
     (body_state (m_cs m) \<longrightarrow> m_pb m < m_p m) \<and>
     (m_cs m = 523 \<longrightarrow> message out \<noteq> []) \<and> m_cs m \<le> enFail"

text \<open>What is left of it when the run ends.\<close>

definition final_inv :: "bool \<Rightarrow> machine \<Rightarrow> syslogMessage \<Rightarrow> bool" where
  "final_inv opt m out \<longleftrightarrow> wf_ptr m \<and> out_ok out \<and>
     (before_pri (m_cs m) \<or> prioritySet out \<or> opt) \<and>
     (timed (m_cs m) \<longrightarrow> timestampSet out) \<and>
     (522 \<le> m_cs m \<and> m_cs m \<le> 1486 \<longrightarrow> message out \<noteq> []) \<and> m_cs m \<le> enFail"

fun holds :: "bool \<Rightarrow> outcome \<Rightarrow> bool" where
  "holds opt Panic = False"
| "holds opt (Out m out) = final_inv opt m out"
| "holds opt (Next m out) = (wf_ptr m \<and> machine_inv opt m out)"

lemma text_defined: "wf_ptr m \<Longrightarrow> \<exists>t. m_text m = Some t"
  by (simp add: m_text_def wf_ptr_def gslice_def)

lemma holds_fail: "wf_ptr m \<Longrightarrow> out_ok out \<Longrightarrow> holds opt (fail_with k m out)"
  by (simp add: fail_with_def wf_ptr_def machine_inv_def before_pri_def in_prival_def timed_def
      body_state_def enFail_def)

lemma holds_leave: "n \<le> 2 \<Longrightarrow> wf_ptr m \<Longrightarrow> out_ok out \<Longrightarrow> holds opt (Out (m\<lparr>m_cs := n\<rparr>) out)"
  by (auto simp: final_inv_def wf_ptr_def before_pri_def timed_def enFail_def)

text \<open>What the actions of a transition do to the message.\<close>

definition keeps :: "syslogMessage \<Rightarrow> syslogMessage \<Rightarrow> bool" where
  "keeps out out' \<longleftrightarrow> (out_ok out \<longrightarrow> out_ok out') \<and> prioritySet out' = prioritySet out \<and>
     (timestampSet out \<longrightarrow> timestampSet out')"

abbreviation marked :: "machine \<Rightarrow> machine" where
  "marked m \<equiv> m\<lparr>m_pb := m_p m\<rparr>"

lemma keeps_refl [simp]: "keeps out out"
  by (simp add: keeps_def)

lemma keeps_trans: "keeps o1 o2 \<Longrightarrow> keeps o2 o3 \<Longrightarrow> keeps o1 o3"
  by (auto simp: keeps_def)

lemma keeps_fields [simp]:
  "keeps out (out\<lparr>msgcount := v, msgcountSet := True\<rparr>)"
  "keeps out (out\<lparr>sequence := v, sequenceSet := True\<rparr>)" "keeps out (out\<lparr>hostname := t\<rparr>)"
  "keeps out (out\<lparr>tag := t\<rparr>)" "keeps out (out\<lparr>content := t\<rparr>)" "keeps out (out\<lparr>message := t\<rparr>)"
  "keeps out (out\<lparr>timestamp := Some ts, timestampSet := True\<rparr>)"
  by (simp_all add: keeps_def out_ok_def)

definition performed :: "action list \<Rightarrow> nat \<Rightarrow> machine \<Rightarrow> syslogMessage \<Rightarrow> outcome \<Rightarrow> bool" where
  "performed as n m out r \<longleftrightarrow> (\<exists>out'. keeps out out' \<and>
     ((\<exists>k m'. r = fail_with k m' out' \<and> (m' = m \<or> m' = marked m)) \<and> \<not> plain_acts as \<or>
      r = Next (goto_st n (if Mark \<in> set as then marked m else m)) out' \<and>
        (plain_acts as \<or> timestampSet out')))"

lemma performed_cons:
  assumes "performed as n m out' r" "keeps out out'" "plain_acts [a]" "a \<noteq> Mark"
  shows "performed (a # as) n m out r"
  using assms by (auto simp: performed_def intro: keeps_trans)

lemma performed_mark:
  assumes "performed as n (marked m) out r"
  shows "performed (Mark # as) n m out r"
  using assms by (auto simp: performed_def split: if_splits)

lemma performed_time:
  assumes "performed as n m out' r" "keeps out out'" "timestampSet out'" "a = Set_timestamp \<or> a = Set_rfc3339"
  shows "performed (a # as) n m out r"
  using assms by (auto simp: performed_def keeps_def)

lemma performed_error:
  "a = Set_timestamp \<or> a = Set_rfc3339 \<Longrightarrow> performed (a # as) n m out (fail_with k m out)"
  unfolding performed_def by (rule exI [of _ out]) auto

lemma perform_performed: "wf_ptr m \<Longrightarrow> performed as n m out (perform as n m out)"
proof (induction as arbitrary: m out)
  case Nil
  then show ?case
    by (simp add: performed_def)
next
  case (Cons a as)
  from Cons.prems obtain t where t: "m_text m = Some t"
    using text_defined by blast
  from Cons.prems have "wf_ptr (marked m)"
    by (simp add: wf_ptr_def)
  then show ?case
    using t Cons.IH
    by (cases a)
      (auto simp: with_text_def split: sum.split intro: performed_mark performed_error
        performed_cons [OF Cons.IH [OF Cons.prems]] performed_time [OF Cons.IH [OF Cons.prems]])
qed

lemma step_leave [simp]: "take_trans (Leave n) m out = Out (m\<lparr>m_cs := n\<rparr>) out"
  "take_trans (Fail k) m out = fail_with k m out" "take_trans (To as n) m out = perform as n m out"
  by (simp_all add: take_trans_def)

lemma wf_ptr_goto_st: "wf_ptr m \<Longrightarrow> m_p m < length (m_data m) \<Longrightarrow> n \<noteq> enFail \<Longrightarrow> wf_ptr (goto_st n m)"
  by (auto simp: wf_ptr_def goto_st_def)

lemma wf_ptr_marked: "wf_ptr m \<Longrightarrow> wf_ptr (marked m)"
  by (simp add: wf_ptr_def)

text \<open>A transition keeps the invariant when the state it goes to asks nothing new.\<close>

lemma holds_perform:
  assumes wf: "wf_ptr m" "m_p m < length (m_data m)" and out: "out_ok out"
    and pri: "prioritySet out \<or> opt"
    and n: "4 \<le> n" "n \<noteq> 1487" "n \<le> 1487" "\<not> in_prival n"
    and time: "timed n \<Longrightarrow> timestampSet out \<or> \<not> plain_acts as"
    and msg: "n = 523 \<Longrightarrow> as = [Set_message] \<and> m_pb m < m_p m"
  shows "holds opt (perform as n m out)"
proof (cases "n = 523")
  case True
  then have as: "as = [Set_message]" and lt: "m_pb m < m_p m"
    using msg by auto
  obtain t where t: "m_text m = Some t"
    using text_defined [OF wf(1)] by blast
  then have "t \<noteq> []"
    using lt slice_length [of "m_data m" "m_pb m" "m_p m" t] by (auto simp: m_text_def)
  then show ?thesis
    using True as t wf wf_ptr_goto_st [OF wf, of 523] pri out time
    by (simp add: with_text_def machine_inv_def out_ok_def body_state_def in_prival_def before_pri_def
        timed_def enFail_def)
next
  case False
  from perform_performed [OF wf(1), of as n out] obtain out' where k: "keeps out out'"
    and r: "(\<exists>k m'. perform as n m out = fail_with k m' out' \<and> (m' = m \<or> m' = marked m)) \<or>
      perform as n m out = Next (goto_st n (if Mark \<in> set as then marked m else m)) out' \<and>
        (plain_acts as \<or> timestampSet out')"
    unfolding performed_def by blast
  have ok: "out_ok out'" "prioritySet out' \<or> opt"
    using k out pri by (auto simp: keeps_def)
  from r consider
      (fail) ka m' where "perform as n m out = fail_with ka m' out'" "m' = m \<or> m' = marked m"
    | (go) "perform as n m out = Next (goto_st n (if Mark \<in> set as then marked m else m)) out'"
        "plain_acts as \<or> timestampSet out'"
    by blast
  then show ?thesis
  proof cases
    case fail
    then show ?thesis
      using ok wf wf_ptr_marked by (auto intro: holds_fail)
  next
    case go
    then have "timed n \<Longrightarrow> timestampSet out'"
      using time k by (auto simp: keeps_def)
    moreover have "wf_ptr (goto_st n (if Mark \<in> set as then marked m else m))"
      using wf n wf_ptr_goto_st [of m n] wf_ptr_goto_st [of "marked m" n] wf_ptr_marked
      by (simp add: enFail_def)
    moreover have "m_pb m \<le> m_p m"
      using wf by (simp add: wf_ptr_def)
    ultimately show ?thesis
      using ok n False by (simp add: go machine_inv_def before_pri_def enFail_def)
  qed
qed

lemma holds_header:
  assumes "leads to_header t" "wf_ptr m" "m_p m < length (m_data m)" "out_ok out" "prioritySet out \<or> opt"
  shows "holds opt (take_trans t m out)"
  using assms
  by (cases t) (auto simp: to_header_def in_prival_def timed_def simp del: holds.simps
      intro!: holds_perform holds_fail holds_leave)

lemma holds_body:
  assumes "leads (to_body cs) t" "wf_ptr m" "m_p m < length (m_data m)" "out_ok out"
    "prioritySet out \<or> opt" "timestampSet out" "cs \<noteq> 278 \<Longrightarrow> m_pb m < m_p m"
  shows "holds opt (take_trans t m out)"
  using assms
  by (cases t) (auto simp: to_body_def in_prival_def simp del: holds.simps
      intro!: holds_perform holds_fail holds_leave)

section \<open>Every step keeps the invariant\<close>

lemma text_snoc:
  assumes "m_text m = Some t" "m_p m < length (m_data m)" "m_pb m \<le> m_p m"
  shows "m_text (goto_st n m) = Some (t @ [m_data m ! m_p m])"
proof -
  have "m_p m - m_pb m < length (drop (m_pb m) (m_data m))"
    using assms by simp
  from take_Suc_conv_app_nth [OF this] show ?thesis
    using assms by (simp add: m_text_def gslice_def Suc_diff_le)
qed

lemma text_marked:
  assumes "m_p m < length (m_data m)"
  shows "m_text (goto_st n (marked m)) = Some [m_data m ! m_p m]"
  using text_snoc [of "marked m" "[]" n] assms by (simp add: m_text_def gslice_def)

lemma pri_text_snoc:
  assumes "pri_text cs t" "is_digit b"
    and "dec_value t 0 \<le> k \<Longrightarrow> 10 * k + (unat b - 48) \<le> k'"
    and "k = (if cs = 518 then 1 else if cs = 519 then 18 else if cs = 520 then 19 else 191)"
    and "k' = (if n = 518 then 1 else if n = 519 then 18 else if n = 520 then 19 else 191)"
  shows "pri_text n (t @ [b])"
proof -
  have "dec_value t 0 \<le> k"
    using assms(1,4) by (simp add: pri_text_def)
  then have "10 * dec_value t 0 + (unat b - 48) \<le> k'"
    using assms(3) by linarith
  then show ?thesis
    using assms by (simp add: pri_text_def dec_value_append)
qed

lemma prival_set_value:
  "list_all is_digit t \<Longrightarrow> dec_value t 0 \<le> 191 \<Longrightarrow>
    unat (priority (set_prival t out)) = dec_value t 0"
  by (simp add: set_prival_def decimal_of_digits unsigned_ucast_eq unsigned_of_nat take_bit_nat_eq_self)

lemma prival_valid:
  assumes "pri_text cs t"
  shows "ValidPriority (priority (set_prival t out))"
proof -
  have "list_all is_digit t" "dec_value t 0 \<le> 191"
    using assms by (auto simp: pri_text_def split: if_splits)
  then show ?thesis
    by (simp add: ValidPriority_iff prival_set_value)
qed

lemma holds_digit:
  assumes "wf_ptr m" "m_p m < length (m_data m)" "out_ok out" "in_prival n"
    and "m_text (goto_st n m) = Some t" "pri_text n t"
  shows "holds opt (Next (goto_st n m) out)"
  using assms wf_ptr_goto_st [of m n]
  by (auto simp: machine_inv_def before_pri_def in_prival_def timed_def body_state_def enFail_def)

lemma byte_bounds:
  "in_range lo hi b \<longleftrightarrow> unat lo \<le> unat b \<and> unat b \<le> unat hi" "is_digit b \<longleftrightarrow> 48 \<le> unat b \<and> unat b \<le> 57"
  by (simp_all add: in_range_def is_digit_def word_le_nat_alt)

lemma holds_pri_start:
  assumes "wf_ptr m" "m_p m < length (m_data m)" "out_ok out" "m_cs m = 1 \<or> m_cs m = 2"
  shows "holds opt (take_trans (next_pri (m_cs m) (m_data m ! m_p m)) m out)"
proof (cases "m_cs m = 1")
  case True
  then show ?thesis
    using assms wf_ptr_goto_st [of m 2]
    by (auto simp: next_pri_def machine_inv_def before_pri_def in_prival_def timed_def body_state_def
        enFail_def intro: holds_fail)
next
  case False
  let ?b = "m_data m ! m_p m"
  have digit: "holds opt (Next (goto_st n (marked m)) out)" if "in_prival n" "pri_text n [?b]" for n
    using assms that text_marked [of m n] wf_ptr_marked by (intro holds_digit) auto
  show ?thesis
    using False assms(4)
    by (auto simp: next_pri_def byte_bounds in_prival_def pri_text_def simp del: holds.simps
        intro!: digit holds_fail assms(1,3))
qed

lemma holds_prival:
  assumes wf: "wf_ptr m" "m_p m < length (m_data m)" and inv: "machine_inv opt m out"
    and pri: "in_prival (m_cs m)" and t: "m_text m = Some t"
  shows "holds opt (take_trans (next_pri (m_cs m) (m_data m ! m_p m)) m (set_prival t out))"
proof -
  let ?b = "m_data m ! m_p m" and ?out = "set_prival t out"
  have p: "pri_text (m_cs m) t"
    using inv pri t by (simp add: machine_inv_def)
  then have ok: "out_ok ?out" "prioritySet ?out"
    using inv prival_valid [OF p] by (auto simp: machine_inv_def out_ok_def set_prival_def)
  have digit: "holds opt (Next (goto_st n m) ?out)" if "in_prival n" "pri_text n (t @ [?b])" for n
    using wf that ok text_snoc [OF t wf(2), of n]
    by (intro holds_digit) (auto simp: wf_ptr_def)
  have close: "holds opt (perform [] 4 m ?out)"
    using wf ok by (intro holds_perform) (auto simp: in_prival_def timed_def)
  have fail: "holds opt (fail_with ErrPrival m ?out)"
    using wf(1) ok(1) by (rule holds_fail)
  have next_digit: "holds opt (Next (goto_st n m) ?out)"
    if "in_prival n" "m_cs m = cs" "is_digit ?b"
      "dec_value t 0 \<le> k \<Longrightarrow> 10 * k + (unat ?b - 48) \<le> k'"
      "k = (if cs = 518 then 1 else if cs = 519 then 18 else if cs = 520 then 19 else 191)"
      "k' = (if n = 518 then 1 else if n = 519 then 18 else if n = 520 then 19 else 191)"
    for n cs k k'
    using that p by (intro digit pri_text_snoc [where k = k and k' = k']) auto
  consider "m_cs m = 3" | "m_cs m = 518" | "m_cs m = 519" | "m_cs m = 520"
    using pri by (auto simp: in_prival_def)
  then show ?thesis
  proof cases
    case 1
    then show ?thesis
      using close fail by (simp add: next_pri_def)
  next
    case 2
    then show ?thesis
      using close fail next_digit [of 519 518 1 18] next_digit [of 520 518 1 19]
      by (auto simp: next_pri_def byte_bounds in_prival_def)
  next
    case 3
    then show ?thesis
      using close fail next_digit [of 3 519 18 191] by (auto simp: next_pri_def byte_bounds in_prival_def)
  next
    case 4
    then show ?thesis
      using close fail next_digit [of 3 520 19 191] by (auto simp: next_pri_def byte_bounds in_prival_def)
  qed
qed

lemma next_trans_pri:
  assumes "cs = 1 \<or> cs = 2 \<or> in_prival cs"
  shows "next_trans m cs b = next_pri cs b"
proof -
  from assms have "cs \<noteq> 0" "\<not> (cs = 278 \<or> 522 \<le> cs \<and> cs \<le> 526)" "cs \<le> 521"
    "cs \<le> 3 \<or> 518 \<le> cs \<and> cs \<le> 520"
    by (auto simp: in_prival_def)
  then show ?thesis
    by (simp only: next_trans_def next_header_def if_True if_False)
qed

lemma next_trans_header:
  assumes "4 \<le> cs" "cs \<le> 517 \<or> cs = 521" "cs \<noteq> 278"
  shows "next_trans m cs b = next_header m cs b"
proof -
  from assms have "cs \<noteq> 0" "\<not> (cs = 278 \<or> 522 \<le> cs \<and> cs \<le> 526)" "cs \<le> 521"
    by auto
  then show ?thesis
    by (simp only: next_trans_def if_True if_False)
qed

lemma state_cases:
  assumes "cs \<le> enFail"
  obtains "cs = 0" | "cs = 1 \<or> cs = 2" | "in_prival cs"
    | "4 \<le> cs" "cs \<le> 517 \<or> cs = 521" "cs \<noteq> 278" "cs \<noteq> 286" "\<not> before_pri cs"
    | "cs = 286" | "cs = 278 \<or> 522 \<le> cs \<and> cs \<le> 1486" | "cs = enFail"
proof -
  have "cs = 0 \<or> cs = 1 \<or> cs = 2 \<or> in_prival cs \<or> cs = 278 \<or> cs = 286 \<or> 522 \<le> cs \<or>
      4 \<le> cs \<and> (cs \<le> 517 \<or> cs = 521) \<and> cs \<noteq> 278 \<and> cs \<noteq> 286"
    unfolding in_prival_def by presburger
  moreover have "cs \<noteq> enFail \<Longrightarrow> cs \<le> 1486"
    using assms by (simp add: enFail_def)
  moreover have "4 \<le> cs \<Longrightarrow> cs \<le> 517 \<or> cs = 521 \<Longrightarrow> \<not> before_pri cs"
    by (auto simp: before_pri_def in_prival_def enFail_def)
  ultimately show ?thesis
    using that by blast
qed

lemma step_holds:
  assumes wf: "wf_ptr m" "m_p m < length (m_data m)" and inv: "machine_inv opt m out"
  shows "holds opt (step (m_data m ! m_p m) m out)"
proof -
  let ?b = "m_data m ! m_p m" and ?cs = "m_cs m"
  have ok: "out_ok out" "before_pri ?cs \<or> prioritySet out \<or> opt" "?cs \<le> enFail"
    using inv by (auto simp: machine_inv_def)
  have plain: "\<not> in_prival ?cs \<Longrightarrow> step ?b m out = take_trans (next_trans m ?cs ?b) m out"
    by (simp add: step_def)
  from ok(3) show ?thesis
  proof (cases rule: state_cases)
    case 1
    then show ?thesis
      using wf ok by (simp add: plain in_prival_def next_trans_def holds_leave del: holds.simps)
  next
    case 2
    then show ?thesis
      using wf ok plain holds_pri_start [OF wf] by (auto simp: next_trans_pri in_prival_def)
  next
    case 3
    then obtain t where t: "m_text m = Some t"
      using inv by (auto simp: machine_inv_def)
    then show ?thesis
      using 3 holds_prival [OF wf inv 3 t]
      by (simp add: step_def with_text_def next_trans_pri del: holds.simps)
  next
    case 4
    then show ?thesis
      using wf ok plain leads_after_pri [of ?cs m ?b]
      by (auto simp: before_pri_def in_prival_def enFail_def next_trans_header simp del: holds.simps
          intro!: holds_header)
  next
    case 5
    then have "timestampSet out"
      using inv by (simp add: machine_inv_def timed_def)
    then show ?thesis
      using 5 wf ok plain
      by (auto simp: next_trans_def next_header_def before_pri_def in_prival_def enFail_def
          simp del: holds.simps perform.simps intro!: holds_perform holds_leave)
  next
    case 6
    then have "timed ?cs" "\<not> before_pri ?cs"
      unfolding timed_def before_pri_def in_prival_def enFail_def by presburger+
    then have np: "\<not> in_prival ?cs" "prioritySet out \<or> opt" "timestampSet out"
      using inv ok(2) by (simp_all add: machine_inv_def before_pri_def)
    show ?thesis
    proof (cases "?cs = 523")
      case True
      have "next_trans m 523 ?b = Stop"
        by (simp add: next_trans_def next_message_def)
      then show ?thesis
        unfolding plain [OF np(1)] True by (simp only: step_leave holds_leave [OF _ wf(1) ok(1)])
    next
      case False
      then have "?cs \<noteq> 278 \<Longrightarrow> m_pb m < m_p m"
        using 6 inv by (auto simp: machine_inv_def body_state_def)
      then show ?thesis
        unfolding plain [OF np(1)] by (rule holds_body [OF leads_to_body [OF 6] wf ok(1) np(2,3)])
    qed
  next
    case 7
    have "holds opt (Next (goto_st 1487 m) out)"
      using wf ok 7 inv
      by (auto simp: machine_inv_def before_pri_def in_prival_def timed_def body_state_def enFail_def
          wf_ptr_def)
    then show ?thesis
      using 7 wf ok
      by (auto simp: plain in_prival_def enFail_def next_trans_def next_fail_def simp del: holds.simps
          intro!: holds_leave)
  qed
qed

section \<open>The run\<close>

lemma eof_holds:
  assumes "wf_ptr m" "machine_inv opt m out"
  shows "\<exists>m' out'. finish (eof_actions m out) = Some (m', out') \<and> final_inv opt m' out'"
proof (cases "m_cs m = 522 \<or> 524 \<le> m_cs m \<and> m_cs m \<le> 1486")
  case True
  obtain t where t: "m_text m = Some t"
    using text_defined [OF assms(1)] by blast
  have "body_state (m_cs m)"
    using True by (auto simp: body_state_def)
  then have "t \<noteq> []"
    using t assms(2) slice_length [of "m_data m" "m_pb m" "m_p m" t]
    by (auto simp: m_text_def machine_inv_def)
  moreover have "eof_actions m out = Out m (out\<lparr>message := t\<rparr>)"
    using True t by (simp add: eof_actions_def with_text_def)
  ultimately show ?thesis
    using assms by (simp add: finish_def machine_inv_def final_inv_def out_ok_def)
next
  case False
  then have e: "eof_actions m out =
      (case eof_error (m_cs m) of Some k \<Rightarrow> fail_with k m out | None \<Rightarrow> Out m out)"
    unfolding eof_actions_def by (rule if_not_P)
  have "522 \<le> m_cs m \<and> m_cs m \<le> 1486 \<longrightarrow> m_cs m = 523"
    using False by presburger
  then have o: "final_inv opt m out"
    using assms by (auto simp: machine_inv_def final_inv_def)
  have "holds opt (fail_with k m out)" for k
    using assms by (intro holds_fail) (simp_all add: machine_inv_def)
  then show ?thesis
    using o by (auto simp: e finish_def fail_with_def machine_inv_def final_inv_def before_pri_def
        timed_def enFail_def split: option.split)
qed

lemma run_holds:
  "wf_ptr m \<Longrightarrow> machine_inv opt m out \<Longrightarrow>
    \<exists>m' out'. run m out = Some (m', out') \<and> final_inv opt m' out'"
proof (induction m out rule: run.induct)
  case (1 m out)
  show ?case
  proof (cases "m_p m = m_pe m")
    case True
    then show ?thesis
      using eof_holds [OF 1(2,3)] 1(2) by (simp add: run.simps [of m out] wf_ptr_def)
  next
    case False
    then have p: "m_p m < length (m_data m)"
      using 1(2) by (auto simp: wf_ptr_def)
    let ?b = "m_data m ! m_p m"
    have i: "gindex (m_data m) (m_p m) = Some ?b"
      using p by (simp add: gindex_def)
    have s: "holds opt (step ?b m out)"
      using step_holds [OF 1(2) p 1(3)] .
    show ?thesis
    proof (cases "step ?b m out")
      case Panic
      then show ?thesis
        using s by simp
    next
      case (Out m' out')
      then show ?thesis
        using s False i by (simp add: run.simps [of m out])
    next
      case (Next m' out')
      then have "run m out = run m' out'"
        using False i by (simp add: run.simps [of m out])
      then show ?thesis
        using s Next 1(1) [OF False i Next] by simp
    qed
  qed
qed

end
