(* ===== verification/RFC3164_Parse.thy ===== *)
theory RFC3164_Parse
  imports RFC3164_Safety
begin

text \<open>
  \<open>Parse\<close> of the RFC 3164 machine: it never panics, keeps the options, gives only valid messages,
  and its answer does not depend on earlier calls.
\<close>

section \<open>What a run leaves alone\<close>

text \<open>The options of a machine: everything that \<open>Parse\<close> does not set at its start.\<close>

definition options :: "machine \<Rightarrow> machine" where
  "options m =
     m\<lparr>m_data := [], m_cs := 0, m_p := 0, m_pe := 0, m_eof := 0, m_pb := 0, m_err := None\<rparr>"

lemma options_update [simp]:
  "options (m\<lparr>m_cs := n\<rparr>) = options m" "options (m\<lparr>m_p := k\<rparr>) = options m"
  "options (m\<lparr>m_pb := k\<rparr>) = options m" "options (m\<lparr>m_err := e\<rparr>) = options m"
  "options (goto_st n m) = options m" "options (init_parse input m) = options m"
  by (simp_all add: options_def goto_st_def init_parse_def)

lemma options_eqD:
  assumes "options m = options m'"
  shows "m_bestEffort m = m_bestEffort m'" "m_optionalPriority m = m_optionalPriority m'"
    "m_newline m = m_newline m'"
  using assms by (cases m; cases m'; simp add: options_def)+

lemma init_parse_options: "options m = options m' \<Longrightarrow> init_parse input m = init_parse input m'"
  by (cases m; cases m') (simp add: options_def init_parse_def)

lemma options_without: "options m = options m' \<Longrightarrow> options (without_cisco m) = options (without_cisco m')"
  by (cases m; cases m') (simp add: options_def without_cisco_def)

lemma options_restore: "options m' = options (without_cisco m) \<Longrightarrow> options (restore_cisco m m') = options m"
  by (cases m; cases m') (simp add: options_def without_cisco_def restore_cisco_def)

lemma without_simps [simp]:
  "m_bestEffort (without_cisco m) = m_bestEffort m"
  "m_optionalPriority (without_cisco m) = m_optionalPriority m"
  "m_newline (without_cisco m) = m_newline m"
  by (simp_all add: without_cisco_def)

fun frame :: "machine \<Rightarrow> syslogMessage \<Rightarrow> outcome \<Rightarrow> bool" where
  "frame m out (Next m' out') \<longleftrightarrow>
     options m' = options m \<and> m_data m' = m_data m \<and> priorityOptional out' = priorityOptional out"
| "frame m out (Out m' out') \<longleftrightarrow>
     options m' = options m \<and> m_data m' = m_data m \<and> priorityOptional out' = priorityOptional out"
| "frame m out Panic \<longleftrightarrow> True"

lemma frame_fail: "frame m out (fail_with k m out)"
  by (simp add: fail_with_def)

lemma frame_perform: "frame m out (perform as n m out)"
proof (induction as arbitrary: m out)
  case Nil
  then show ?case by simp
next
  case (Cons a as)
  have "frame m out r" if "frame m' out' r" "options m' = options m" "m_data m' = m_data m"
    "priorityOptional out' = priorityOptional out" for m' out' r
    using that by (cases r) simp_all
  note lift = this [OF Cons.IH]
  show ?case
    by (cases a) (auto simp: with_text_def frame_fail split: option.split sum.split intro!: lift)
qed

lemma frame_step: "frame m out (step b m out)"
proof -
  have "frame m out (take_trans t m out)" for t out
    by (cases t) (simp_all add: frame_perform frame_fail)
  moreover have "frame m out r" if "frame m (set_prival p out) r" for p r
    using that by (cases r) (simp_all add: set_prival_def)
  ultimately have "frame m out (take_trans t m out)" "frame m out (take_trans t m (set_prival p out))" for t p
    by blast+
  then show ?thesis
    by (simp add: step_def Let_def with_text_def split: option.split)
qed

lemma frame_eof:
  "finish (eof_actions m out) = Some (m', out') \<Longrightarrow>
    options m' = options m \<and> m_data m' = m_data m \<and> priorityOptional out' = priorityOptional out"
  by (auto simp: eof_actions_def finish_def with_text_def fail_with_def
      split: if_splits option.splits)

lemma run_keeps_frame:
  "run m out = Some (m', out') \<Longrightarrow>
    options m' = options m \<and> m_data m' = m_data m \<and> priorityOptional out' = priorityOptional out"
proof (induction m out rule: run.induct)
  case (1 m out)
  show ?case
  proof (cases "m_p m = m_pe m")
    case True
    then show ?thesis
      using 1(2) frame_eof [of m out] by (auto simp: run.simps [of m out] split: if_splits)
  next
    case False
    then obtain b where b: "gindex (m_data m) (m_p m) = Some b"
      using 1(2) by (auto simp: run.simps [of m out] split: option.splits)
    show ?thesis
      using 1(1) [OF False b] 1(2) False b frame_step [of m out b]
      by (cases "step b m out") (auto simp: run.simps [of m out])
  qed
qed

section \<open>Every call\<close>

definition outcome_ok :: "machine \<Rightarrow> bytes \<Rightarrow> SyslogMessage option \<times> perror option \<Rightarrow> bool" where
  "outcome_ok m input r =
     (case r of (msg, err) \<Rightarrow>
        (case msg of
           None \<Rightarrow> True
         | Some x \<Rightarrow> SyslogMessage_Valid x \<and> (Priority x = None \<longrightarrow> m_optionalPriority m) \<and>
             (err \<noteq> None \<longrightarrow> m_bestEffort m)) \<and>
        (case err of None \<Rightarrow> True | Some (k, col) \<Rightarrow> col \<le> length input))"

lemma result_ok:
  assumes inv: "final_inv (m_optionalPriority m) m' out"
    and opt: "options m' = options m1" "m_bestEffort m1 = m_bestEffort m"
    and "m_data m' = input" "priorityOptional out = m_optionalPriority m"
  shows "outcome_ok m input (parse_result m' out)"
proof -
  have be: "m_bestEffort m' = m_bestEffort m"
    using options_eqD(1) [OF opt(1)] opt(2) by simp
  have col: "m_err m' = Some (k, c) \<Longrightarrow> c \<le> length input" for k c
    using inv assms(4) by (auto simp: final_inv_def wf_ptr_def)
  have "SyslogMessage_Valid (export out)" if "\<not> (m_cs m' < firstFinal \<or> m_cs m' = enFail)"
  proof -
    have "522 \<le> m_cs m' \<and> m_cs m' \<le> 1486"
      using that inv by (auto simp: final_inv_def firstFinal_def enFail_def)
    then show ?thesis
      using inv by (auto simp: final_inv_def timed_def out_ok_def SyslogMessage_Valid_def)
  qed
  moreover have "SyslogMessage_Valid (export out)" if "minimal out"
    using that inv minimal_message_Valid by (simp add: final_inv_def out_ok_def)
  moreover have "m_optionalPriority m" if "minimal out" "\<not> prioritySet out"
    using that assms(5) by (simp add: minimal_def)
  moreover have "m_optionalPriority m" if "\<not> (m_cs m' < firstFinal \<or> m_cs m' = enFail)" "\<not> prioritySet out"
    using that inv by (auto simp: final_inv_def before_pri_def in_prival_def firstFinal_def enFail_def)
  ultimately show ?thesis
    using be col by (auto simp: parse_result_def outcome_ok_def split: option.split)
qed

lemma init_holds:
  "wf_ptr (init_parse input m)"
  "out_ok (syslogMessage_init opt)"
  "hasPriority input \<or> opt \<Longrightarrow> machine_inv opt (init_parse input m) (syslogMessage_init opt)"
  by (auto simp: wf_ptr_def init_parse_def start_def enMainMessageBody_def enFail_def out_ok_def
      syslogMessage_init_def machine_inv_def before_pri_def in_prival_def timed_def body_state_def)

lemma Parse_total:
  "\<exists>m' r. Parse m input = Some (m', r) \<and> options m' = options m \<and> outcome_ok m input r"
proof (cases "hasPriority input \<or> m_optionalPriority m")
  case False
  then show ?thesis
    by (simp add: Parse_def outcome_ok_def)
next
  case True
  let ?opt = "m_optionalPriority m" and ?m1 = "if hasPriority input then m else without_cisco m"
  obtain m' out' where r: "run (init_parse input ?m1) (syslogMessage_init ?opt) = Some (m', out')"
    and inv: "final_inv ?opt m' out'"
    using run_holds [OF init_holds(1) init_holds(3) [OF True]] by blast
  have f: "options m' = options ?m1" "m_data m' = input" "priorityOptional out' = ?opt"
    using run_keeps_frame [OF r] by (simp_all add: init_parse_def options_def syslogMessage_init_def)
  have "outcome_ok m input (parse_result m' out')"
    using result_ok [OF inv f(1) _ f(2,3)] by simp
  moreover have "options (if hasPriority input then m' else restore_cisco m m') = options m"
    using f(1) options_restore by simp
  ultimately show ?thesis
    using True r by (cases "parse_result m' out'") (auto simp: Parse_def)
qed

lemma Parse_answer:
  "map_option snd (Parse m input) =
    (if \<not> hasPriority input \<and> \<not> m_optionalPriority m then Some (None, Some (ErrPri, 0))
     else map_option (\<lambda>(m', out). parse_result m' out)
       (run (init_parse input (if hasPriority input then m else without_cisco m))
         (syslogMessage_init (m_optionalPriority m))))"
  by (simp add: Parse_def option.map_comp comp_def case_prod_unfold split: option.split)

lemma Parse_answer_options:
  assumes "options m = options m'"
  shows "map_option snd (Parse m input) = map_option snd (Parse m' input)"
proof -
  have "init_parse input (if hasPriority input then m else without_cisco m) =
      init_parse input (if hasPriority input then m' else without_cisco m')"
    using assms options_without [OF assms] by (auto intro: init_parse_options)
  then show ?thesis
    unfolding Parse_answer by (simp only: options_eqD(2) [OF assms])
qed

text \<open>
  C12: A call of the RFC 3164 machine never panics and always returns, whatever the machine was used
  for before. It keeps the options. A message that it returns is valid, has a priority unless
  priorities are optional, and comes with an error in best-effort mode only; the column of an error is
  within the input.
\<close>

theorem Parse3164_outcome:
  "\<exists>m' r. Parse m input = Some (m', r) \<and> options m' = options m \<and> outcome_ok m input r"
  by (rule Parse_total)

text \<open>
  C13: Using an RFC 3164 machine does not change its later answers: after any call the
  machine answers every input as it would have before.
\<close>

theorem Parse3164_reuse:
  "\<exists>m' r. Parse m earlier = Some (m', r) \<and>
    map_option snd (Parse m' input) = map_option snd (Parse m input)"
proof -
  obtain m' r where "Parse m earlier = Some (m', r)" "options m' = options m"
    using Parse_total [of m earlier] by blast
  then show ?thesis
    using Parse_answer_options [of m' m input] by blast
qed

end
