(* ===== verification/RFC3164_Parser.thy ===== *)
theory RFC3164_Parser
  imports RFC3164_Parse Interfaces
begin

text \<open>
  rfc3164/parser.go: the parser that wraps the machine with a mutex (a call holds the lock from its
  start to its return, so a call of the model is one step). Both types meet the contract of
  \<open>Machine\<close>. They are no \<open>answering_machine\<close>: a call may return neither a message nor an error.
\<close>

section \<open>The machine as a \<open>syslog.Machine\<close>\<close>

definition machine_methods :: "(machine, SyslogMessage, perror) Machine" where
  "machine_methods =
     \<lparr>Parse_method = Parse, WithBestEffort_method = machine_WithBestEffort,
      HasBestEffort_method = machine_HasBestEffort\<rparr>"

lemma methods3164_simps [simp]:
  "Parse_method machine_methods = Parse"
  "WithBestEffort_method machine_methods = machine_WithBestEffort"
  "HasBestEffort_method machine_methods = machine_HasBestEffort"
  by (simp_all add: machine_methods_def)

lemma Parse_keeps_options: "Parse m input = Some (m', r) \<Longrightarrow> options m' = options m"
  using Parse_total [of m input] by auto

lemma Parse_outcome_ok: "Parse m input = Some (m', r) \<Longrightarrow> outcome_ok m input r"
  using Parse_total [of m input] by auto

lemma Parse_keeps_mode: "Parse m input = Some (m', r) \<Longrightarrow> m_bestEffort m' = m_bestEffort m"
  by (rule options_eqD(1) [OF Parse_keeps_options])

lemma answer_of_options: "options m' = options m \<Longrightarrow> answer machine_methods m' = answer machine_methods m"
  by (rule ext) (simp add: answer_def Parse_answer_options [of m' m])

interpretation machine3164: syslog_machine machine_methods "\<lambda>_. True"
proof
  fix m m' input r msg err
  show "Parse_method machine_methods m input \<noteq> None"
    using Parse_total [of m input] by auto
  show "True \<and> HasBestEffort_method machine_methods (WithBestEffort_method machine_methods m)"
    by (simp add: machine_HasBestEffort_def machine_WithBestEffort_def)
  show "Parse_method machine_methods m input = Some (m', r) \<Longrightarrow>
      HasBestEffort_method machine_methods m' = HasBestEffort_method machine_methods m"
    by (simp add: machine_HasBestEffort_def Parse_keeps_mode)
  show "Parse_method machine_methods m input = Some (m', r) \<Longrightarrow>
      answer machine_methods m' = answer machine_methods m"
    by (auto intro: answer_of_options Parse_keeps_options)
  show "Parse_method machine_methods m input = Some (m', msg, err) \<Longrightarrow>
      \<not> HasBestEffort_method machine_methods m \<Longrightarrow> msg = None \<or> err = None"
    using Parse_outcome_ok [of m input m' "(msg, err)"]
    by (auto simp: outcome_ok_def machine_HasBestEffort_def split: option.splits)
qed simp

section \<open>The parser\<close>

record parser =
  p_machine :: machine

definition NewParser :: "(machine \<Rightarrow> machine) list \<Rightarrow> parser" where
  "NewParser opts = \<lparr>p_machine = NewMachine opts\<rparr>"

definition parser_HasBestEffort :: "parser \<Rightarrow> bool" where
  "parser_HasBestEffort p = m_bestEffort (p_machine p)"

text \<open>\<open>WithBestEffort\<close> is the promoted method of the embedded machine.\<close>

definition parser_WithBestEffort :: "parser \<Rightarrow> parser" where
  "parser_WithBestEffort p = p\<lparr>p_machine := machine_WithBestEffort (p_machine p)\<rparr>"

definition parser_Parse ::
    "parser \<Rightarrow> bytes \<Rightarrow> (parser \<times> SyslogMessage option \<times> perror option) option" where
  "parser_Parse p input =
     (case Parse (p_machine p) input of
        None \<Rightarrow> None
      | Some (m, msg, err) \<Rightarrow>
          let p' = p\<lparr>p_machine := m\<rparr> in
          if err \<noteq> None then
            (if m_bestEffort (p_machine p') then Some (p', msg, err) else Some (p', None, err))
          else Some (p', msg, None))"

definition parser_methods :: "(parser, SyslogMessage, perror) Machine" where
  "parser_methods =
     \<lparr>Parse_method = parser_Parse, WithBestEffort_method = parser_WithBestEffort,
      HasBestEffort_method = parser_HasBestEffort\<rparr>"

lemma parser_methods3164_simps [simp]:
  "Parse_method parser_methods = parser_Parse"
  "WithBestEffort_method parser_methods = parser_WithBestEffort"
  "HasBestEffort_method parser_methods = parser_HasBestEffort"
  by (simp_all add: parser_methods_def)

lemma parser_Parse_eq:
  "parser_Parse p input = map_option (\<lambda>(m, r). (p\<lparr>p_machine := m\<rparr>, r)) (Parse (p_machine p) input)"
proof -
  obtain m msg err where P: "Parse (p_machine p) input = Some (m, msg, err)"
    using Parse_total [of "p_machine p" input] by auto
  have "m_bestEffort m = m_bestEffort (p_machine p)"
    using options_eqD(1) [OF Parse_keeps_options [OF P]] .
  then show ?thesis
    using Parse_outcome_ok [OF P]
    by (cases msg; cases err) (auto simp: parser_Parse_def P outcome_ok_def)
qed

lemma parser_Parse_cases:
  assumes "parser_Parse p input = Some (p', r)"
  obtains m where "Parse (p_machine p) input = Some (m, r)" "p' = p\<lparr>p_machine := m\<rparr>"
  using assms by (auto simp: parser_Parse_eq)

lemma parser_answer_eq: "answer parser_methods p = answer machine_methods (p_machine p)"
  by (rule ext) (simp add: answer_def parser_Parse_eq option.map_comp comp_def case_prod_unfold)

interpretation parser3164: syslog_machine parser_methods "\<lambda>_. True"
proof
  fix p p' input r msg err
  show "Parse_method parser_methods p input \<noteq> None"
    using machine3164.total [of "p_machine p" input] by (simp add: parser_Parse_eq)
  show "True \<and> HasBestEffort_method parser_methods (WithBestEffort_method parser_methods p)"
    by (simp add: parser_HasBestEffort_def parser_WithBestEffort_def machine_WithBestEffort_def)
  show "HasBestEffort_method parser_methods p' = HasBestEffort_method parser_methods p"
    if "Parse_method parser_methods p input = Some (p', r)"
    using that by (auto simp: parser_HasBestEffort_def Parse_keeps_mode elim!: parser_Parse_cases)
  show "answer parser_methods p' = answer parser_methods p"
    if "Parse_method parser_methods p input = Some (p', r)"
    using that by (auto simp: parser_answer_eq machine3164.keeps_answer elim!: parser_Parse_cases)
  show "msg = None \<or> err = None"
    if "Parse_method parser_methods p input = Some (p', msg, err)"
      "\<not> HasBestEffort_method parser_methods p"
    using that machine3164.strict
    by (fastforce simp: parser_HasBestEffort_def machine_HasBestEffort_def elim!: parser_Parse_cases)
qed simp

text \<open>
  The RFC 3164 parser with a mutex answers every input exactly as the machine it wraps.
\<close>

theorem parser3164_refines_machine:
  "map_option snd (parser_Parse p input) = map_option snd (Parse (p_machine p) input)"
  by (simp add: parser_Parse_eq option.map_comp comp_def case_prod_unfold)

end
