(* ===== verification/RFC3164_Conf.thy ===== *)
theory RFC3164_Conf
  imports RFC3164_Parse
begin

text \<open>
  A view of the running RFC 3164 machine for proofs about inputs of a known form: the input is what
  was read before the mark, the marked text, and the rest.
\<close>

section \<open>The view\<close>

definition conf :: "machine \<Rightarrow> nat \<Rightarrow> bytes \<Rightarrow> bytes \<Rightarrow> machine" where
  "conf M cs pre mk = M\<lparr>m_cs := cs, m_pb := length pre, m_p := length pre + length mk\<rparr>"

text \<open>A machine at the start of a run on \<open>input\<close>.\<close>

definition ready :: "bytes \<Rightarrow> machine \<Rightarrow> bool" where
  "ready input M \<longleftrightarrow> m_data M = input \<and> m_pe M = length input \<and> m_eof M = length input"

lemma conf_simps [simp]:
  "m_cs (conf M cs pre mk) = cs" "m_data (conf M cs pre mk) = m_data M"
  "m_p (conf M cs pre mk) = length pre + length mk" "m_pe (conf M cs pre mk) = m_pe M"
  "m_eof (conf M cs pre mk) = m_eof M" "m_err (conf M cs pre mk) = m_err M"
  by (simp_all add: conf_def)

lemma conf_text:
  "ready (pre @ mk @ r) M \<Longrightarrow> m_text (conf M cs pre mk) = Some mk"
  by (simp add: m_text_def conf_def ready_def gslice_def)

lemma conf_goto: "goto_st n (conf M cs pre mk) = conf M n pre (mk @ [b])"
  by (simp add: goto_st_def conf_def)

lemma conf_mark: "goto_st n (conf M cs pre mk\<lparr>m_pb := length pre + length mk\<rparr>) = conf M n (pre @ mk) [b]"
  by (simp add: goto_st_def conf_def)

text \<open>The transitions depend on the options only.\<close>

lemma next_trans_conf [simp]: "next_trans (conf M cs' pre mk) cs b = next_trans M cs b"
  by (cases M)
    (simp only: conf_def machine.update_convs machine.select_convs next_trans_def next_message_def
      next_header_def next_pri_def next_body_def next_cisco_def next_after_cisco_def next_month_def
      next_stamp_def next_fraction_def next_lenient_def next_zero_day_def next_rfc3339_def next_star_def
      next_cisco_month_def next_host_month_def next_host_lenient_def next_cisco_rfc3339_def
      next_host_rfc3339_def host_char_def after_stamp_def a_month_def next_tag_def next_word_def
      next_bracket_def next_group_def next_open_def next_inner_def next_again_def next_after_def
      next_second_tag_def next_host_content_def next_closed_def next_fail_def msg_else_def)

section \<open>Steps\<close>

lemma run_Next:
  assumes "ready (pre @ mk @ b # r) M" "step b (conf M cs pre mk) out = Next m' out'"
  shows "run (conf M cs pre mk) out = run m' out'"
proof -
  have "gindex (m_data M) (length pre + length mk) = Some b"
    using assms(1) by (simp add: ready_def gindex_def nth_append)
  then show ?thesis
    using assms by (simp add: run.simps [of "conf M cs pre mk"] ready_def)
qed

lemma run_perform:
  assumes "ready (pre @ mk @ b # r) M" "\<not> in_prival cs" "next_trans M cs b = To as n"
    and "perform as n (conf M cs pre mk) out = Next m' out'"
  shows "run (conf M cs pre mk) out = run m' out'"
  using assms by (intro run_Next [OF assms(1)]) (simp add: step_def)

lemma run_mark:
  assumes "ready (pre @ mk @ b # r) M" "\<not> in_prival cs" "next_trans M cs b = To [Mark] n"
  shows "run (conf M cs pre mk) out = run (conf M n (pre @ mk) [b]) out"
  by (rule run_perform [OF assms]) (simp add: conf_mark)

lemma run_set:
  assumes "ready (pre @ mk @ b # r) M" "\<not> in_prival cs" "next_trans M cs b = To [a] n"
  shows "a = Set_hostname \<Longrightarrow> run (conf M cs pre mk) out = run (conf M n pre (mk @ [b])) (out\<lparr>hostname := mk\<rparr>)"
    "a = Set_tag \<Longrightarrow> run (conf M cs pre mk) out = run (conf M n pre (mk @ [b])) (out\<lparr>tag := mk\<rparr>)"
    "a = Set_content \<Longrightarrow> run (conf M cs pre mk) out = run (conf M n pre (mk @ [b])) (out\<lparr>content := mk\<rparr>)"
    "a = Set_timestamp \<Longrightarrow> stamp_time M mk = Inr ts \<Longrightarrow> run (conf M cs pre mk) out =
      run (conf M n pre (mk @ [b])) (out\<lparr>timestamp := Some ts, timestampSet := True\<rparr>)"
proof -
  have t: "m_text (conf M cs pre mk) = Some mk"
    using conf_text assms(1) by simp
  have s: "stamp_time (conf M cs pre mk) mk = stamp_time M mk"
    by (cases M) (simp only: stamp_time_def conf_def machine.select_convs machine.update_convs)
  show "a = Set_hostname \<Longrightarrow> run (conf M cs pre mk) out = run (conf M n pre (mk @ [b])) (out\<lparr>hostname := mk\<rparr>)"
    "a = Set_tag \<Longrightarrow> run (conf M cs pre mk) out = run (conf M n pre (mk @ [b])) (out\<lparr>tag := mk\<rparr>)"
    "a = Set_content \<Longrightarrow> run (conf M cs pre mk) out = run (conf M n pre (mk @ [b])) (out\<lparr>content := mk\<rparr>)"
    "a = Set_timestamp \<Longrightarrow> stamp_time M mk = Inr ts \<Longrightarrow> run (conf M cs pre mk) out =
      run (conf M n pre (mk @ [b])) (out\<lparr>timestamp := Some ts, timestampSet := True\<rparr>)"
    using t s by (auto intro!: run_perform [OF assms] simp: with_text_def conf_goto [of _ _ _ _ _ b])
qed

text \<open>A stretch of the input that only changes the state.\<close>

fun path :: "machine \<Rightarrow> nat \<Rightarrow> bytes \<Rightarrow> nat option" where
  "path M cs [] = Some cs"
| "path M cs (b # bs) =
     (if in_prival cs then None
      else case next_trans M cs b of To [] n \<Rightarrow> path M n bs | _ \<Rightarrow> None)"

lemma path_append: "path M cs xs = Some n \<Longrightarrow> path M n ys = r \<Longrightarrow> path M cs (xs @ ys) = r"
  by (induction xs arbitrary: cs) (auto split: if_splits trans.splits list.splits)

lemma run_path:
  "ready (pre @ mk @ bs @ r) M \<Longrightarrow> path M cs bs = Some n \<Longrightarrow>
    run (conf M cs pre mk) out = run (conf M n pre (mk @ bs)) out"
proof (induction bs arbitrary: cs mk)
  case Nil
  then show ?case by simp
next
  case (Cons b bs)
  then obtain n' where n: "\<not> in_prival cs" "next_trans M cs b = To [] n'" "path M n' bs = Some n"
    by (auto split: if_splits trans.splits list.splits)
  have "run (conf M cs pre mk) out = run (conf M n' pre (mk @ [b])) out"
    using Cons.prems(1) n by (intro run_perform [of pre mk b "bs @ r" M cs "[]" n']) (simp_all add: conf_goto [of _ _ _ _ _ b])
  then show ?case
    using Cons.IH [of "mk @ [b]" n'] Cons.prems(1) n by simp
qed

text \<open>A stretch of one state, and a chain of states that counts characters.\<close>

lemma path_loop:
  assumes "\<And>b. P b \<Longrightarrow> next_trans M cs b = To [] cs" "\<not> in_prival cs" "list_all P bs"
  shows "path M cs bs = Some cs"
  using assms(3) by (induction bs) (simp_all add: assms(1,2))

lemma path_count:
  assumes "\<And>b k. P b \<Longrightarrow> k < N \<Longrightarrow> next_trans M (cs + k) b = To [] (cs + k + 1)"
    and "\<And>k. k \<le> N \<Longrightarrow> \<not> in_prival (cs + k)" and "list_all P bs"
  shows "k + length bs \<le> N \<Longrightarrow> path M (cs + k) bs = Some (cs + k + length bs)"
  using assms(3)
proof (induction bs arbitrary: k)
  case Nil
  then show ?case by simp
next
  case (Cons b bs)
  then show ?case
    using assms(1) [of b k] assms(2) [of k] Cons.IH [of "Suc k"] by simp
qed

lemma run_finish:
  assumes "ready (pre @ mk) M" "m_cs m = 522 \<or> 524 \<le> m_cs m \<and> m_cs m \<le> 1486" "m = conf M cs pre mk"
  shows "run m out = Some (m, out\<lparr>message := mk\<rparr>)"
  using assms conf_text [of pre mk "[]" M cs]
  by (simp add: run.simps [of "conf M cs pre mk"] ready_def eof_actions_def with_text_def finish_def)

end
