(* ===== verification/RFC3164_Stamp.thy ===== *)
theory RFC3164_Stamp
  imports RFC3164_Conf GoDigits
begin

text \<open>
  Stamp timestamps of the RFC 3164 machine: the text of a time, what \<open>time.Parse\<close> makes of it, and
  the machine's way through it.
\<close>

section \<open>The text\<close>

text \<open>A one-digit day is padded with a space, or with a zero (\<open>z\<close>).\<close>

definition day_text :: "bool \<Rightarrow> nat \<Rightarrow> bytes" where
  "day_text z d = (if d < 10 \<and> \<not> z then [32, dig d] else pad2 d)"

definition stamp_text :: "bool \<Rightarrow> nat \<Rightarrow> nat \<Rightarrow> nat \<Rightarrow> nat \<Rightarrow> nat \<Rightarrow> bytes" where
  "stamp_text z mo d h mi s =
     (month_names ! (mo - 1)) @ [32] @ day_text z d @ [32] @ pad2 h @ [58] @ pad2 mi @ [58] @ pad2 s"

text \<open>A Stamp has no year; the year 0 of \<open>time.Parse\<close> is a leap year.\<close>

definition stamp_ok :: "nat \<Rightarrow> nat \<Rightarrow> nat \<Rightarrow> nat \<Rightarrow> nat \<Rightarrow> bool" where
  "stamp_ok mo d h mi s \<longleftrightarrow>
     1 \<le> mo \<and> mo \<le> 12 \<and> 1 \<le> d \<and> d \<le> daysIn mo 0 \<and> h < 24 \<and> mi < 60 \<and> s < 60"

definition stamp_civil :: "nat \<Rightarrow> nat \<Rightarrow> nat \<Rightarrow> nat \<Rightarrow> nat \<Rightarrow> gotime" where
  "stamp_civil mo d h mi s =
     \<lparr>t_year = 0, t_month = mo, t_day = d, t_hour = h, t_min = mi, t_sec = s, t_nsec = 0, t_zone = UTC\<rparr>"

section \<open>time.Parse reads it back\<close>

lemma month_cases:
  assumes "1 \<le> mo" "mo \<le> (12 :: nat)"
  obtains "mo = 1" | "mo = 2" | "mo = 3" | "mo = 4" | "mo = 5" | "mo = 6" | "mo = 7" | "mo = 8"
    | "mo = 9" | "mo = 10" | "mo = 11" | "mo = 12"
proof -
  have "mo = 1 \<or> mo = 2 \<or> mo = 3 \<or> mo = 4 \<or> mo = 5 \<or> mo = 6 \<or> mo = 7 \<or> mo = 8 \<or> mo = 9 \<or>
      mo = 10 \<or> mo = 11 \<or> mo = 12"
    using assms by arith
  then show ?thesis
    using that by blast
qed

lemma lookup_month:
  assumes "1 \<le> mo" "mo \<le> 12"
  shows "lookup_name month_names (month_names ! (mo - 1) @ r) 1 = Some (mo, r)"
  using assms
  by (cases rule: month_cases)
    (simp_all add: month_names_def match_name_def match_byte_def)

lemma dig_not_space: "n \<le> 9 \<Longrightarrow> dig n \<noteq> 32"
  using dig_simps(3) [of n] graph_not_space by blast

lemma getnum_day:
  assumes "1 \<le> d" "d \<le> 31"
  shows "skip_space (32 # day_text z d @ 32 # r) = Some (dropWhile (\<lambda>b. b = 32) (day_text z d) @ 32 # r)"
    "getnum (dropWhile (\<lambda>b. b = 32) (day_text z d) @ 32 # r) False = Some (d, 32 # r)"
    "hd (dropWhile (\<lambda>b. b = 32) (day_text z d) @ 32 # r) \<noteq> 32"
proof -
  have "d div 10 \<le> 9" "d mod 10 \<le> 9" "d div 10 mod 10 = d div 10" "\<not> is_digit 32"
    using assms by (auto simp: is_digit_def)
  then show "skip_space (32 # day_text z d @ 32 # r) = Some (dropWhile (\<lambda>b. b = 32) (day_text z d) @ 32 # r)"
    "getnum (dropWhile (\<lambda>b. b = 32) (day_text z d) @ 32 # r) False = Some (d, 32 # r)"
    "hd (dropWhile (\<lambda>b. b = 32) (day_text z d) @ 32 # r) \<noteq> 32"
    using assms by (auto simp: skip_space_def day_text_def pad2_def dig_not_space)
qed

lemma time_Parse_stamp_text:
  assumes "stamp_ok mo d h mi s"
  shows "time_Parse_Stamp (stamp_text z mo d h mi s) = Inr (stamp_civil mo d h mi s)"
proof -
  have d: "1 \<le> d" "d \<le> 31" "h \<le> 99" "mi \<le> 99" "s \<le> 99"
    using assms by (auto simp: stamp_ok_def daysIn_def split: if_splits)
  have clock: "skip_space (32 # pad2 h @ r) = Some (pad2 h @ r)" for r
    using d by (simp add: skip_space_def pad2_def dig_not_space)
  have "getnum (pad2 s) True = Some (s, [])"
    using getnum_pad2 [of s "[]" True] d by simp
  then show ?thesis
    using assms getnum_day [OF d(1,2), of z] lookup_month [of mo] getnum_pad2 [OF d(3)] getnum_pad2 [OF d(4)]
    by (simp add: stamp_text_def time_Parse_Stamp_def need_def check_def clock stamp_ok_def get_frac_def
        stamp_civil_def)
qed

section \<open>The machine's way through it\<close>

lemmas stamp_states = next_trans_def next_header_def next_stamp_def next_lenient_def next_zero_day_def

lemma path_month:
  assumes "1 \<le> mo" "mo \<le> 12" "\<not> m_ciscoHostname M"
  obtains b bs n where "month_names ! (mo - 1) = b # bs" "next_trans M 4 b = To [Mark] n"
    "path M n (bs @ [32]) = Some (if m_lenientDay M then 309 else 266)"
proof -
  let ?b = "hd (month_names ! (mo - 1))" and ?bs = "tl (month_names ! (mo - 1))"
  let ?n = "a_month M (the (month_initial ?b))"
  have "month_names ! (mo - 1) = ?b # ?bs"
    using assms(1,2) by (cases rule: month_cases) (simp_all add: month_names_def)
  moreover have "next_trans M 4 ?b = To [Mark] ?n"
    using assms(1,2)
    by (cases rule: month_cases)
      (simp_all add: month_names_def next_trans_def next_header_def next_body_def month_initial_def assms(3))
  moreover have "path M ?n (?bs @ [32]) = Some (if m_lenientDay M then 309 else 266)"
    using assms(1,2)
    by (cases rule: month_cases; cases "m_lenientDay M")
      (simp_all add: month_names_def in_prival_def next_trans_def next_header_def next_month_def
        month_initial_def month_next_def a_month_def lenient_month_def plain_month_def)
  ultimately show ?thesis
    using that by blast
qed

text \<open>The state before the hour, and the state after the seconds.\<close>

definition clock_state :: "machine \<Rightarrow> bool \<Rightarrow> nat \<Rightarrow> nat" where
  "clock_state M z d = (if z \<and> d < 10 then 330 else if m_lenientDay M then 312 else 269)"

definition stamp_state :: "machine \<Rightarrow> bool \<Rightarrow> nat \<Rightarrow> nat" where
  "stamp_state M z d = (if z \<and> d < 10 then 338 else if m_lenientDay M then 320 else 277)"

lemma path_day:
  assumes "1 \<le> d" "d \<le> 31" "z \<longrightarrow> m_lenientDay M"
  shows "path M (if m_lenientDay M then 309 else 266) (day_text z d @ [32]) = Some (clock_state M z d)"
proof -
  have t: "d div 10 \<le> 3" "d mod 10 \<le> 9" "d div 10 mod 10 = d div 10" "d div 10 \<le> 9"
    using assms by auto
  have three: "d div 10 = 3 \<Longrightarrow> d mod 10 \<le> 1"
    using assms(2) by presburger
  have nd: "d div 10 = 0 \<longleftrightarrow> d < 10" "d < 10 \<Longrightarrow> d mod 10 = d"
    by auto
  consider "d div 10 = 0" | "d div 10 = 1 \<or> d div 10 = 2" | "d div 10 = 3"
    using t(1) by linarith
  then show ?thesis
    using assms t three nd
    by cases (auto simp: day_text_def pad2_def dig_not_space in_prival_def stamp_states clock_state_def)
qed

lemma path_clock:
  assumes "h < 24" "mi < 60" "s < 60" "z \<longrightarrow> m_lenientDay M"
  shows "path M (clock_state M z d) (pad2 h @ [58] @ pad2 mi @ [58] @ pad2 s) = Some (stamp_state M z d)"
proof -
  have t: "h div 10 \<le> 2" "h mod 10 \<le> 9" "h div 10 mod 10 = h div 10" "h div 10 \<le> 9"
    "mi div 10 \<le> 5" "mi mod 10 \<le> 9" "mi div 10 mod 10 = mi div 10" "mi div 10 \<le> 9"
    "s div 10 \<le> 5" "s mod 10 \<le> 9" "s div 10 mod 10 = s div 10" "s div 10 \<le> 9"
    using assms by auto
  have two: "h div 10 = 2 \<Longrightarrow> h mod 10 \<le> 3"
    using assms(1) by presburger
  consider "h div 10 \<le> 1" | "h div 10 = 2"
    using t(1) by linarith
  then show ?thesis
    using t two assms(4)
    by cases (auto simp: pad2_def in_prival_def stamp_states clock_state_def stamp_state_def)
qed

lemma stamp_ok_ranges:
  assumes "stamp_ok mo d h mi s"
  shows "1 \<le> mo" "mo \<le> 12" "1 \<le> d" "d \<le> 31" "h < 24" "mi < 60" "s < 60"
  using assms by (auto simp: stamp_ok_def daysIn_def split: if_splits)

text \<open>The whole stamp after PRI, and the space after it, which sets the timestamp.\<close>

lemma run_stamp_text:
  assumes ok: "stamp_ok mo d h mi s" "z \<longrightarrow> m_lenientDay M" "\<not> m_ciscoHostname M"
    and M: "ready (pre @ mk @ stamp_text z mo d h mi s @ r) M"
  shows "run (conf M 4 pre mk) out =
    run (conf M (stamp_state M z d) (pre @ mk) (stamp_text z mo d h mi s)) out"
proof -
  note rg = stamp_ok_ranges [OF ok(1)]
  obtain b bs n where b: "month_names ! (mo - 1) = b # bs" "next_trans M 4 b = To [Mark] n"
    "path M n (bs @ [32]) = Some (if m_lenientDay M then 309 else 266)"
    using path_month [OF rg(1,2) ok(3)] by blast
  define rest where "rest = bs @ [32] @ day_text z d @ [32] @ pad2 h @ [58] @ pad2 mi @ [58] @ pad2 s"
  have shape: "stamp_text z mo d h mi s = b # rest"
    using b(1) by (simp add: stamp_text_def rest_def)
  have "path M n rest = Some (stamp_state M z d)"
    using path_append [OF b(3) path_append [OF path_day [OF rg(3,4) ok(2)] path_clock [OF rg(5-7) ok(2)]]]
    by (simp add: rest_def)
  then have "run (conf M n (pre @ mk) [b]) out = run (conf M (stamp_state M z d) (pre @ mk) (b # rest)) out"
    using run_path [of "pre @ mk" "[b]" rest r M n] M by (simp add: shape)
  moreover have "run (conf M 4 pre mk) out = run (conf M n (pre @ mk) [b]) out"
    using M by (intro run_mark [OF _ _ b(2)]) (simp_all add: shape in_prival_def)
  ultimately show ?thesis
    by (simp add: shape)
qed

lemma run_stamp:
  assumes ok: "stamp_ok mo d h mi s" "z \<longrightarrow> m_lenientDay M" "\<not> m_ciscoHostname M"
    and M: "ready (pre @ mk @ stamp_text z mo d h mi s @ 32 # r) M"
    and ts: "stamp_time M (stamp_text z mo d h mi s) = Inr ts"
  shows "run (conf M 4 pre mk) out =
    run (conf M 278 (pre @ mk) (stamp_text z mo d h mi s @ [32]))
      (out\<lparr>timestamp := Some ts, timestampSet := True\<rparr>)"
proof -
  have "next_trans M (stamp_state M z d) 32 = To [Set_timestamp] 278"
    by (simp add: stamp_state_def stamp_states after_stamp_def)
  then have "run (conf M (stamp_state M z d) (pre @ mk) (stamp_text z mo d h mi s)) out =
      run (conf M 278 (pre @ mk) (stamp_text z mo d h mi s @ [32])) (out\<lparr>timestamp := Some ts, timestampSet := True\<rparr>)"
    using M ts by (intro run_set(4)) (simp_all add: in_prival_def stamp_state_def)
  then show ?thesis
    using run_stamp_text [OF ok M] by simp
qed

end
