(* ===== verification/RFC3164_Correct.thy ===== *)
theory RFC3164_Correct
  imports RFC3164_Stamp
begin

text \<open>
  The RFC 3164 machine on well-formed messages: priority, stamp, hostname, tag, an optional content
  in brackets and the message come back as the fields of the result.
\<close>

section \<open>PRI\<close>

lemma step_pri:
  assumes "ready (pre @ mk @ b # r) M" "in_prival cs" "next_trans M cs b = To [] n"
  shows "run (conf M cs pre mk) out = run (conf M n pre (mk @ [b])) (set_prival mk out)"
proof -
  have "m_text (conf M cs pre mk) = Some mk"
    using conf_text assms(1) by simp
  then show ?thesis
    using assms by (intro run_Next [OF assms(1)])
      (simp add: step_def with_text_def conf_goto [of _ _ _ _ _ b])
qed

lemma set_prival_again [simp]: "set_prival t (set_prival t' out) = set_prival t out"
  by (simp add: set_prival_def)

lemma dig_pri:
  assumes "n \<le> 9"
  shows "in_range 48 56 (dig n) \<longleftrightarrow> n \<le> 8" "in_range 50 57 (dig n) \<longleftrightarrow> 2 \<le> n"
    "dig n = 57 \<longleftrightarrow> n = 9" "dig n \<noteq> 62"
  using assms unat_dig [OF assms]
  by (auto simp: in_range_def word_le_nat_alt word_unat_eq_iff)

lemma teens: "(q :: nat) < 20 \<Longrightarrow> 10 \<le> q \<Longrightarrow> q mod 10 = 9 \<Longrightarrow> q = 19"
  by presburger

lemma dec_string_cases:
  assumes "n \<le> 191"
  obtains "n < 10" "dec_string n = [dig n]"
    | a b where "1 \<le> a" "a \<le> 9" "b \<le> 9" "dec_string n = [dig a, dig b]"
    | b c where "b \<le> 9" "c \<le> 9" "b = 9 \<longrightarrow> c \<le> 1" "dec_string n = [49, dig b, dig c]"
proof -
  consider "n < 10" | "10 \<le> n" "n < 100" | "100 \<le> n"
    by linarith
  then show ?thesis
  proof cases
    case 1
    then show ?thesis
      using that(1) by (simp add: dec_string.simps)
  next
    case 2
    then show ?thesis
      using that(2) [of "n div 10" "n mod 10"] by (simp add: dec_string.simps)
  next
    case 3
    have "n div 10 < 20" "10 \<le> n div 10"
      using 3 assms by linarith+
    then have "n div 10 div 10 = 1" "\<not> n div 10 < 10"
      by linarith+
    moreover have "n div 10 mod 10 = 9 \<longrightarrow> n div 10 = 19"
      using \<open>n div 10 < 20\<close> \<open>10 \<le> n div 10\<close> by (intro impI teens)
    moreover have "n div 10 = 19 \<longrightarrow> n mod 10 \<le> 1"
      using assms by presburger
    moreover have "dec_string (Suc 0) = [49]"
      by (simp add: dec_string.simps)
    ultimately show ?thesis
      using 3 that(3) [of "n div 10 mod 10" "n mod 10"]
      by (simp add: dec_string.simps [of n] dec_string.simps [of "n div 10"])
  qed
qed

lemma run_pri:
  assumes "n \<le> 191" "ready (60 # dec_string n @ 62 # r) M"
  shows "run (conf M 1 [] []) out = run (conf M 4 [60] (dec_string n @ [62])) (set_prival (dec_string n) out)"
proof -
  let ?ds = "dec_string n"
  have start: "run (conf M 1 [] []) out = run (conf M 2 [] [60]) out"
    using assms(2) run_path [of "[]" "[]" "[60]" "?ds @ 62 # r" M 1 2]
    by (simp add: in_prival_def next_trans_pri next_pri_def)
  have mark: "run (conf M 2 [] [60]) out = run (conf M k [60] [d]) out"
    if "?ds = d # ds'" "next_pri 2 d = To [Mark] k" for d ds' k
    using assms(2) that run_mark [of "[]" "[60]" d "ds' @ 62 # r" M 2 k]
    by (simp add: in_prival_def next_trans_pri)
  have digit: "run (conf M cs [60] xs) out' = run (conf M k [60] (xs @ [d])) (set_prival xs out')"
    if "xs @ d # ys = ?ds @ [62]" "in_prival cs" "next_pri cs d = To [] k" for cs xs d ys k out'
  proof (rule step_pri)
    have "[60] @ xs @ d # ys @ r = 60 # ?ds @ 62 # r"
      using arg_cong [OF that(1), of "\<lambda>l. 60 # l @ r"] by simp
    then show "ready ([60] @ xs @ d # ys @ r) M"
      using assms(2) by (simp only:)
    show "in_prival cs" "next_trans M cs d = To [] k"
      using that by (simp_all add: next_trans_pri)
  qed
  note pri = next_pri_def dig_pri in_prival_def
  from assms(1) show ?thesis
  proof (cases rule: dec_string_cases)
    case 1
    have "run (conf M 2 [] [60]) out = run (conf M (if n = 0 then 3 else if n = 1 then 518 else 519) [60] [dig n]) out"
      using 1 by (intro mark) (auto simp: pri)
    also have "\<dots> = run (conf M 4 [60] [dig n, 62]) (set_prival [dig n] out)"
      using 1 digit [of "[dig n]" 62 "[]" _ 4] by (auto simp: pri)
    finally show ?thesis
      using start 1 by simp
  next
    case (2 a b)
    let ?k = "if a = 1 then (if b = 9 then 520 else 519) else 3"
    have "run (conf M 2 [] [60]) out = run (conf M (if a = 1 then 518 else 519) [60] [dig a]) out"
      using 2 by (intro mark) (auto simp: pri)
    also have "\<dots> = run (conf M ?k [60] [dig a, dig b]) (set_prival [dig a] out)"
      using 2 digit [of "[dig a]" "dig b" "[62]"] by (auto simp: pri)
    also have "\<dots> = run (conf M 4 [60] [dig a, dig b, 62]) (set_prival [dig a, dig b] out)"
      using 2 digit [of "[dig a, dig b]" 62 "[]" _ 4] by (auto simp: pri)
    finally show ?thesis
      using start 2 by simp
  next
    case (3 b c)
    let ?k = "if b = 9 then 520 else 519"
    have "run (conf M 2 [] [60]) out = run (conf M 518 [60] [49]) out"
      using 3 by (intro mark) (auto simp: pri)
    also have "\<dots> = run (conf M ?k [60] [49, dig b]) (set_prival [49] out)"
      using 3 digit [of "[49]" "dig b" "[dig c, 62]"] by (auto simp: pri)
    also have "\<dots> = run (conf M 3 [60] [49, dig b, dig c]) (set_prival [49, dig b] out)"
      using 3 digit [of "[49, dig b]" "dig c" "[62]" _ 3] by (auto simp: pri)
    also have "\<dots> = run (conf M 4 [60] [49, dig b, dig c, 62]) (set_prival [49, dig b, dig c] out)"
      using 3 digit [of "[49, dig b, dig c]" 62 "[]" 3 4] by (auto simp: pri)
    finally show ?thesis
      using start 3 by simp
  qed
qed

section \<open>Hostname, tag, content and message\<close>

definition host_ok :: "bytes \<Rightarrow> bool" where
  "host_ok h \<longleftrightarrow> h \<noteq> [] \<and> length h \<le> 255 \<and> list_all is_tag h"

definition tag_ok :: "bytes \<Rightarrow> bool" where
  "tag_ok t \<longleftrightarrow> t \<noteq> [] \<and> length t \<le> 48 \<and> list_all is_tag t"

definition is_msg :: "byte \<Rightarrow> bool" where
  "is_msg b \<longleftrightarrow> \<not> is_control b \<and> b \<noteq> 10"

definition content_ok :: "bytes \<Rightarrow> bool" where
  "content_ok x \<longleftrightarrow> x \<noteq> [] \<and> list_all (\<lambda>b. is_msg b \<and> b \<noteq> 91 \<and> b \<noteq> 93) x"

text \<open>A message has line feeds only where newlines are embedded.\<close>

definition msg_ok :: "bool \<Rightarrow> bytes \<Rightarrow> bool" where
  "msg_ok nl x \<longleftrightarrow> x \<noteq> [] \<and> list_all (\<lambda>b. is_msg b \<or> nl \<and> b = 10) x"

lemma is_tagD: "is_tag b \<Longrightarrow> is_graph b" "is_tag b \<Longrightarrow> b \<noteq> 58" "is_tag b \<Longrightarrow> b \<noteq> 91" "is_tag b \<Longrightarrow> b \<noteq> 32"
  by (auto simp: is_tag_def)

lemma ready_assoc: "ready (pre @ mk @ xs @ r) M \<longleftrightarrow> ready ((pre @ mk) @ xs @ r) M"
  by simp

lemma run_host:
  assumes "host_ok h" "ready (pre @ mk @ h @ 32 # r) M"
  shows "run (conf M 278 pre mk) out = run (conf M 526 (pre @ mk) (h @ [32])) (out\<lparr>hostname := h\<rparr>)"
proof -
  obtain b bs where h: "h = b # bs" "is_tag b" "list_all is_tag bs" "length bs \<le> 254"
    using assms(1) by (cases h) (auto simp: host_ok_def)
  define n where "n = (if bs = [] then 525 else 580 + length (tl bs))"
  have chain: "next_trans M (580 + k) c = To [] (580 + k + 1)" if "is_tag c" "k < 253" for c k
    using that is_tagD [OF that(1)] by (simp add: next_trans_def next_word_def)
  have "path M (580 + 0) (tl bs) = Some (580 + 0 + length (tl bs))"
  proof (rule path_count [where P = is_tag])
    show "list_all is_tag (tl bs)"
      using h(3) by (cases bs) simp_all
    show "0 + length (tl bs) \<le> 253"
      using h(4) by simp
  qed (use chain in \<open>auto simp: in_prival_def\<close>)
  then have "path M 525 bs = Some n"
    using h(3) is_tagD by (cases bs) (auto simp: n_def in_prival_def next_trans_def next_message_def)
  then have "run (conf M 525 (pre @ mk) [b]) out = run (conf M n (pre @ mk) h) out"
    using run_path [of "pre @ mk" "[b]" bs "32 # r" M 525] assms(2) h(1) by simp
  moreover have "run (conf M 278 pre mk) out = run (conf M 525 (pre @ mk) [b]) out"
    using assms(2) h is_tagD by (intro run_mark) (auto simp: in_prival_def next_trans_def next_message_def)
  moreover have "next_trans M n 32 = To [Set_hostname] 526"
  proof -
    have "length bs - Suc 0 \<le> 253"
      using h(4) by linarith
    then show ?thesis
      by (simp add: n_def next_trans_def next_message_def next_word_def)
  qed
  then have "run (conf M n (pre @ mk) h) out = run (conf M 526 (pre @ mk) (h @ [32])) (out\<lparr>hostname := h\<rparr>)"
    using assms(2) h(4) by (intro run_set(1)) (simp_all add: n_def in_prival_def)
  ultimately show ?thesis
    by simp
qed

lemma run_tag:
  assumes "tag_ok t" "b = 58 \<or> b = 91" "ready (pre @ mk @ t @ b # r) M"
  shows "run (conf M 526 pre mk) out =
    run (conf M (if b = 58 then 575 else 577) (pre @ mk) (t @ [b])) (out\<lparr>tag := t\<rparr>)"
proof -
  obtain c cs where t: "t = c # cs" "is_tag c" "list_all is_tag cs" "length cs \<le> 47"
    using assms(1) by (cases t) (auto simp: tag_ok_def)
  have chain: "next_trans M (527 + k) c = To [] (527 + k + 1)" if "is_tag c" "k < 47" for c k
    using that by (simp add: next_trans_def next_tag_def)
  have "path M (527 + 0) cs = Some (527 + 0 + length cs)"
    by (rule path_count [where P = is_tag]) (use t chain in \<open>auto simp: in_prival_def\<close>)
  then have "run (conf M 527 (pre @ mk) [c]) out = run (conf M (527 + length cs) (pre @ mk) t) out"
    using run_path [of "pre @ mk" "[c]" cs "b # r" M 527] assms(3) t(1) by simp
  moreover have "run (conf M 526 pre mk) out = run (conf M 527 (pre @ mk) [c]) out"
    using assms(3) t is_tagD by (intro run_mark) (auto simp: in_prival_def next_trans_def next_message_def)
  moreover have "\<not> is_tag b"
    using assms(2) by (auto simp: is_tag_def)
  then have "next_trans M (527 + length cs) b = To [Set_tag] (if b = 58 then 575 else 577)"
    using t(4) assms(2) by (auto simp: next_trans_def next_tag_def)
  then have "run (conf M (527 + length cs) (pre @ mk) t) out =
      run (conf M (if b = 58 then 575 else 577) (pre @ mk) (t @ [b])) (out\<lparr>tag := t\<rparr>)"
    using assms(3) t(4) by (intro run_set(2)) (simp_all add: in_prival_def)
  ultimately show ?thesis
    by simp
qed

lemma run_content:
  assumes "content_ok x" "ready (pre @ mk @ x @ 93 # 58 # r) M"
  shows "run (conf M 577 pre mk) out = run (conf M 575 (pre @ mk) (x @ [93, 58])) (out\<lparr>content := x\<rparr>)"
proof -
  let ?P = "\<lambda>b. is_msg b \<and> b \<noteq> 91 \<and> b \<noteq> 93"
  obtain c cs where x: "x = c # cs" "?P c" "list_all ?P cs"
    using assms(1) by (cases x) (auto simp: content_ok_def)
  have "path M 578 cs = Some 578"
    by (rule path_loop [OF _ _ x(3)]) (auto simp: next_trans_def next_tag_def msg_else_def is_msg_def in_prival_def)
  then have "run (conf M 578 (pre @ mk) [c]) out = run (conf M 578 (pre @ mk) x) out"
    using run_path [of "pre @ mk" "[c]" cs "93 # 58 # r" M 578] assms(2) x(1) by simp
  moreover have "run (conf M 577 pre mk) out = run (conf M 578 (pre @ mk) [c]) out"
    using assms(2) x by (intro run_mark)
      (auto simp: in_prival_def next_trans_def next_tag_def msg_else_def is_msg_def)
  moreover have "run (conf M 578 (pre @ mk) x) out = run (conf M 579 (pre @ mk) (x @ [93])) (out\<lparr>content := x\<rparr>)"
    using assms(2) by (intro run_set(3)) (simp_all add: in_prival_def next_trans_def next_tag_def)
  moreover have "run (conf M 579 (pre @ mk) (x @ [93])) out' = run (conf M 575 (pre @ mk) (x @ [93, 58])) out'" for out'
    using assms(2) run_path [of "pre @ mk" "x @ [93]" "[58]" r M 579 575 out']
    by (simp add: in_prival_def next_trans_def next_tag_def)
  ultimately show ?thesis
    by simp
qed

lemma control_newline: "\<not> is_control 10"
  by (simp add: is_control_def in_range_def)

lemma run_msg_rest:
  assumes "list_all (\<lambda>b. is_msg b \<or> m_newline M \<and> b = 10) r" "ready (pre @ mk @ r) M"
  shows "run (conf M 522 pre mk) out = Some (conf M 522 pre (mk @ r), out\<lparr>message := mk @ r\<rparr>)"
  using assms
proof (induction r arbitrary: mk out)
  case Nil
  then show ?case
    using run_finish [of pre mk M "conf M 522 pre mk" 522 out] by simp
next
  case (Cons b r)
  show ?case
  proof (cases "b = 10")
    case True
    have "perform [Set_message] 522 (conf M 522 pre mk) out =
        Next (conf M 522 pre (mk @ [b])) (out\<lparr>message := mk\<rparr>)"
      using conf_text [of pre mk "b # r" M 522] Cons.prems(2)
      by (simp add: with_text_def conf_goto [of _ _ _ _ _ b])
    then have "run (conf M 522 pre mk) out = run (conf M 522 pre (mk @ [b])) (out\<lparr>message := mk\<rparr>)"
      using True Cons.prems
      by (intro run_perform)
        (auto simp: in_prival_def next_trans_def next_message_def msg_else_def control_newline is_msg_def)
    then show ?thesis
      using Cons.IH [of "mk @ [b]" "out\<lparr>message := mk\<rparr>"] Cons.prems by simp
  next
    case False
    then have "next_trans M 522 b = To [] 522"
      using Cons.prems(1) by (auto simp: next_trans_def next_message_def msg_else_def is_msg_def)
    then have "run (conf M 522 pre mk) out = run (conf M 522 pre (mk @ [b])) out"
      using run_path [of pre mk "[b]" r M 522 522 out] Cons.prems(2) by (simp add: in_prival_def)
    then show ?thesis
      using Cons.IH [of "mk @ [b]" out] Cons.prems by simp
  qed
qed

lemma run_space:
  assumes "ready (pre @ mk @ 32 # r) M"
  shows "run (conf M 575 pre mk) out = run (conf M 576 pre (mk @ [32])) out"
  using assms run_path [of pre mk "[32]" r M 575 576 out]
  by (simp add: in_prival_def next_trans_def next_tag_def)

lemma run_msg_first:
  assumes "is_msg c \<or> m_newline M \<and> c = 10" "ready (pre @ mk @ c # r) M"
  shows "\<exists>out'. run (conf M 576 pre mk) out = run (conf M 522 (pre @ mk) [c]) (out\<lparr>message := out'\<rparr>)"
proof (cases "c = 10")
  case True
  have t: "m_text (conf M 576 pre mk\<lparr>m_pb := length pre + length mk\<rparr>) = Some []"
    using assms(2) by (simp add: m_text_def conf_def ready_def gslice_def)
  have "run (conf M 576 pre mk) out = run (conf M 522 (pre @ mk) [c]) (out\<lparr>message := []\<rparr>)"
    using True assms t
    by (intro run_perform [where as = "[Mark, Set_message]" and n = 522])
      (auto simp: in_prival_def next_trans_def next_tag_def msg_else_def control_newline is_msg_def
        with_text_def conf_mark [of _ _ _ _ _ c])
  then show ?thesis by blast
next
  case False
  then have "run (conf M 576 pre mk) out = run (conf M 522 (pre @ mk) [c]) out"
    using assms by (intro run_mark)
      (auto simp: in_prival_def next_trans_def next_tag_def msg_else_def is_msg_def)
  moreover have "out\<lparr>message := message out\<rparr> = out"
    by simp
  ultimately show ?thesis by metis
qed

lemma run_msg:
  assumes "msg_ok (m_newline M) x" "ready (pre @ mk @ 32 # x) M"
  shows "run (conf M 575 pre mk) out = Some (conf M 522 (pre @ mk @ [32]) x, out\<lparr>message := x\<rparr>)"
proof -
  obtain c cs where x: "x = c # cs" "is_msg c \<or> m_newline M \<and> c = 10"
      "list_all (\<lambda>b. is_msg b \<or> m_newline M \<and> b = 10) cs"
    using assms(1) by (cases x) (auto simp: msg_ok_def)
  obtain y where "run (conf M 576 pre (mk @ [32])) out =
      run (conf M 522 (pre @ mk @ [32]) [c]) (out\<lparr>message := y\<rparr>)"
    using run_msg_first [OF x(2), of pre "mk @ [32]" cs out] assms(2) x(1) by auto
  then show ?thesis
    using run_space [OF assms(2)] run_msg_rest [OF x(3), of "pre @ mk @ [32]" "[c]"] assms(2) x(1)
    by simp
qed

section \<open>Whole messages\<close>

record wellformed =
  f_pri :: nat
  f_zero :: bool \<comment> \<open>a one-digit day is padded with a zero\<close>
  f_month :: nat
  f_day :: nat
  f_hour :: nat
  f_min :: nat
  f_sec :: nat
  f_host :: bytes
  f_tag :: bytes
  f_content :: "bytes option"
  f_msg :: bytes

definition wellformed_ok :: "bool \<Rightarrow> wellformed \<Rightarrow> bool" where
  "wellformed_ok nl f \<longleftrightarrow> f_pri f \<le> 191 \<and> stamp_ok (f_month f) (f_day f) (f_hour f) (f_min f) (f_sec f) \<and>
     host_ok (f_host f) \<and> tag_ok (f_tag f) \<and> (case f_content f of None \<Rightarrow> True | Some x \<Rightarrow> content_ok x) \<and>
     msg_ok nl (f_msg f)"

definition stamp_of :: "wellformed \<Rightarrow> bytes" where
  "stamp_of f = stamp_text (f_zero f) (f_month f) (f_day f) (f_hour f) (f_min f) (f_sec f)"

definition content_text :: "bytes option \<Rightarrow> bytes" where
  "content_text c = (case c of None \<Rightarrow> [] | Some x \<Rightarrow> 91 # x @ [93])"

definition wellformed_text :: "wellformed \<Rightarrow> bytes" where
  "wellformed_text f =
     60 # dec_string (f_pri f) @ 62 # stamp_of f @ 32 # f_host f @ 32 # f_tag f @
     content_text (f_content f) @ 58 # 32 # f_msg f"

text \<open>The time of a stamp: read in the locale's time zone, in the year set, seen from the time zone set.\<close>

definition placed_time :: "machine \<Rightarrow> gotime \<Rightarrow> gotime" where
  "placed_time m ts =
     (let ts = (case m_timezone m of None \<Rightarrow> ts | Some loc \<Rightarrow> date_in loc ts);
          ts = time_AddYears (m_yyyy m) ts
      in case m_loc m of None \<Rightarrow> ts | Some loc \<Rightarrow> time_In loc ts)"

definition parsed :: "machine \<Rightarrow> wellformed \<Rightarrow> SyslogMessage" where
  "parsed m f =
     \<lparr>Facility = Some (of_nat (f_pri f div 8)), Severity = Some (of_nat (f_pri f mod 8)),
      Priority = Some (of_nat (f_pri f)), MessageCounter = None, Sequence = None,
      Timestamp = Some (placed_time m (stamp_civil (f_month f) (f_day f) (f_hour f) (f_min f) (f_sec f))),
      Hostname = export_text (f_host f), Appname = export_text (f_tag f),
      ProcID = (case f_content f of None \<Rightarrow> None | Some x \<Rightarrow> export_text x), MsgID = None,
      Message = Some (f_msg f)\<rparr>"

lemma stamp_time_text:
  assumes "stamp_ok mo d h mi s"
  shows "stamp_time m (stamp_text z mo d h mi s) = Inr (placed_time m (stamp_civil mo d h mi s))"
  using time_Parse_stamp_text [OF assms, of z]
  by (simp add: stamp_time_def placed_time_def time_ParseInLocation_Stamp_def Let_def split: option.split)

text \<open>From the hostname to the colon after the tag; what is marked then is the tag or the content.\<close>

lemma run_prefix:
  assumes "host_ok h" "tag_ok t" "case c of None \<Rightarrow> True | Some x \<Rightarrow> content_ok x"
    and M: "ready (pre @ mk @ h @ 32 # t @ content_text c @ 58 # r) M"
  shows "\<exists>pre'. pre @ mk @ h @ 32 # t @ content_text c @ 58 # r =
      pre' @ (case c of None \<Rightarrow> t @ [58] | Some x \<Rightarrow> x @ [93, 58]) @ r \<and>
    run (conf M 278 pre mk) out =
      run (conf M 575 pre' (case c of None \<Rightarrow> t @ [58] | Some x \<Rightarrow> x @ [93, 58]))
        (case c of None \<Rightarrow> out\<lparr>hostname := h, tag := t\<rparr> | Some y \<Rightarrow> out\<lparr>hostname := h, tag := t, content := y\<rparr>)"
proof -
  have host: "run (conf M 278 pre mk) out = run (conf M 526 (pre @ mk) (h @ [32])) (out\<lparr>hostname := h\<rparr>)"
    using assms(1) M by (rule run_host)
  show ?thesis
  proof (cases c)
    case None
    show ?thesis
      using M None host run_tag [OF assms(2), of 58 "pre @ mk" "h @ [32]" r M "out\<lparr>hostname := h\<rparr>"]
      by (intro exI [of _ "pre @ mk @ h @ [32]"]) (simp add: content_text_def)
  next
    case (Some y)
    have y: "content_ok y"
      using assms(3) Some by simp
    show ?thesis
      using M Some host
        run_tag [OF assms(2), of 91 "pre @ mk" "h @ [32]" "y @ [93, 58] @ r" M "out\<lparr>hostname := h\<rparr>"]
        run_content [OF y, of "pre @ mk @ h @ [32]" "t @ [91]" r M "out\<lparr>hostname := h, tag := t\<rparr>"]
      by (intro exI [of _ "pre @ mk @ h @ [32] @ t @ [91]"]) (simp add: content_text_def)
  qed
qed

text \<open>The run over PRI and the stamp.\<close>

lemma run_header:
  assumes f: "f_pri f \<le> 191" "stamp_ok (f_month f) (f_day f) (f_hour f) (f_min f) (f_sec f)"
      "\<not> m_ciscoHostname m" "f_zero f \<longrightarrow> m_lenientDay m"
    and M: "input = 60 # dec_string (f_pri f) @ 62 # stamp_of f @ r" "M = init_parse input m"
  shows "run M out = run (conf M (stamp_state M (f_zero f) (f_day f)) (60 # dec_string (f_pri f) @ [62]) (stamp_of f))
      (set_prival (dec_string (f_pri f)) out)"
    "r = 32 # r' \<Longrightarrow> run M out = run (conf M 278 (60 # dec_string (f_pri f) @ [62]) (stamp_of f @ [32]))
      (set_prival (dec_string (f_pri f)) out
        \<lparr>timestamp := Some (placed_time m (stamp_civil (f_month f) (f_day f) (f_hour f) (f_min f) (f_sec f))),
         timestampSet := True\<rparr>)"
    "ready input M"
proof -
  have ready: "ready input M" "m_ciscoHostname M = m_ciscoHostname m" "m_lenientDay M = m_lenientDay m"
    by (simp_all add: M(2) ready_def init_parse_def)
  have "placed_time M t = placed_time m t" for t
    by (cases m) (simp only: M(2) init_parse_def placed_time_def machine.select_convs machine.update_convs)
  then have time: "stamp_time M (stamp_of f) =
      Inr (placed_time m (stamp_civil (f_month f) (f_day f) (f_hour f) (f_min f) (f_sec f)))"
    using stamp_time_text [OF f(2)] by (simp add: stamp_of_def)
  have start: "M = conf M 1 [] []"
    by (cases m) (simp add: M init_parse_def conf_def hasPriority_def start_def)
  have pri: "run M out = run (conf M 4 [60] (dec_string (f_pri f) @ [62])) (set_prival (dec_string (f_pri f)) out)"
    using run_pri [OF f(1), of "stamp_of f @ r" M out] ready(1) start M(1) by simp
  show "run M out = run (conf M (stamp_state M (f_zero f) (f_day f)) (60 # dec_string (f_pri f) @ [62]) (stamp_of f))
      (set_prival (dec_string (f_pri f)) out)"
    using pri run_stamp_text [OF f(2), of "f_zero f" M "[60]" "dec_string (f_pri f) @ [62]" r] f(3,4) ready M(1)
    by (simp add: stamp_of_def)
  show "run M out = run (conf M 278 (60 # dec_string (f_pri f) @ [62]) (stamp_of f @ [32]))
      (set_prival (dec_string (f_pri f)) out
        \<lparr>timestamp := Some (placed_time m (stamp_civil (f_month f) (f_day f) (f_hour f) (f_min f) (f_sec f))),
         timestampSet := True\<rparr>)" if "r = 32 # r'"
    using that pri time run_stamp [OF f(2), of "f_zero f" M "[60]" "dec_string (f_pri f) @ [62]" r'] f(3,4) ready M(1)
    by (simp add: stamp_of_def)
  show "ready input M"
    by (rule ready(1))
qed

lemma Parse_of_run:
  "hasPriority input \<Longrightarrow>
    run (init_parse input m) (syslogMessage_init (m_optionalPriority m)) = Some (m', out) \<Longrightarrow>
    Parse m input = Some (m', parse_result m' out)"
  by (simp add: Parse_def)

lemma pri_word:
  assumes "n \<le> 191"
  shows "priority (set_prival (dec_string n) out) = of_nat n"
    "of_nat n div 8 = (of_nat (n div 8) :: 8 word)" "of_nat n mod 8 = (of_nat (n mod 8) :: 8 word)"
proof -
  have "unat (priority (set_prival (dec_string n) out)) = n"
    using prival_set_value [of "dec_string n" out] dec_string_digits [of n] dec_string_value assms by simp
  from arg_cong [OF this, of "of_nat :: nat \<Rightarrow> 8 word"] show "priority (set_prival (dec_string n) out) = of_nat n"
    by simp
  show "of_nat n div 8 = (of_nat (n div 8) :: 8 word)" "of_nat n mod 8 = (of_nat (n mod 8) :: 8 word)"
    using assms by (simp_all add: word_unat_eq_iff unat_div unat_mod unsigned_of_nat take_bit_nat_eq_self)
qed

text \<open>The message under construction, without its last field, and its export.\<close>

definition built :: "machine \<Rightarrow> wellformed \<Rightarrow> syslogMessage" where
  "built m f =
     (let out = (set_prival (dec_string (f_pri f)) (syslogMessage_init (m_optionalPriority m)))
        \<lparr>timestamp := Some (placed_time m (stamp_civil (f_month f) (f_day f) (f_hour f) (f_min f) (f_sec f))),
         timestampSet := True, hostname := f_host f, tag := f_tag f\<rparr>
      in case f_content f of None \<Rightarrow> out | Some y \<Rightarrow> out\<lparr>content := y\<rparr>)"

lemma export_built:
  "f_pri f \<le> 191 \<Longrightarrow> x \<noteq> [] \<Longrightarrow>
    export (built m f\<lparr>message := x\<rparr>) = parsed m f\<lparr>Message := Some x\<rparr>"
  using pri_word [of "f_pri f"]
  by (intro Base.equality)
    (simp_all add: built_def parsed_def Let_def syslogMessage_init_def set_prival_def export_text_def
      split: option.split)

lemma final_result:
  "522 \<le> cs \<Longrightarrow> cs \<noteq> 1487 \<Longrightarrow> parse_result (conf M cs pre mk) out = (Some (export out), None)"
  by (simp add: parse_result_def firstFinal_def enFail_def)

lemma parsed_Message: "parsed m f\<lparr>Message := Some (f_msg f)\<rparr> = parsed m f"
  by (simp add: parsed_def)

text \<open>The run up to the colon after the tag.\<close>

lemma run_to_message:
  assumes f: "f_pri f \<le> 191" "stamp_ok (f_month f) (f_day f) (f_hour f) (f_min f) (f_sec f)"
      "\<not> m_ciscoHostname m" "f_zero f \<longrightarrow> m_lenientDay m"
    and b: "host_ok (f_host f)" "tag_ok (f_tag f)" "case f_content f of None \<Rightarrow> True | Some x \<Rightarrow> content_ok x"
    and M: "input = 60 # dec_string (f_pri f) @ 62 # stamp_of f @ 32 # f_host f @ 32 # f_tag f @
      content_text (f_content f) @ 58 # r" "M = init_parse input m"
  obtains pre where "ready (pre @ (case f_content f of None \<Rightarrow> f_tag f @ [58] | Some x \<Rightarrow> x @ [93, 58]) @ r) M"
    "run M (syslogMessage_init (m_optionalPriority m)) =
      run (conf M 575 pre (case f_content f of None \<Rightarrow> f_tag f @ [58] | Some x \<Rightarrow> x @ [93, 58])) (built m f)"
proof -
  let ?r = "f_host f @ 32 # f_tag f @ content_text (f_content f) @ 58 # r"
  let ?pre = "60 # dec_string (f_pri f) @ [62]" and ?mk = "stamp_of f @ [32]"
  note header = run_header [OF f, of input "32 # ?r" M, OF M(1) M(2)]
  have "ready (?pre @ ?mk @ ?r) M"
    using header(3) M(1) by simp
  from run_prefix [OF b this] obtain pre where
    "ready (pre @ (case f_content f of None \<Rightarrow> f_tag f @ [58] | Some x \<Rightarrow> x @ [93, 58]) @ r) M"
    "run M (syslogMessage_init (m_optionalPriority m)) =
      run (conf M 575 pre (case f_content f of None \<Rightarrow> f_tag f @ [58] | Some x \<Rightarrow> x @ [93, 58])) (built m f)"
    using header(2) [OF refl, of "syslogMessage_init (m_optionalPriority m)"] \<open>ready (?pre @ ?mk @ ?r) M\<close>
    unfolding built_def Let_def by metis
  then show ?thesis
    using that by blast
qed

lemma Parse_wellformed:
  assumes ok: "wellformed_ok (m_newline m) f" "\<not> m_ciscoHostname m" "f_zero f \<longrightarrow> m_lenientDay m"
  shows "\<exists>m'. Parse m (wellformed_text f) = Some (m', Some (parsed m f), None)"
proof -
  let ?in = "wellformed_text f"
  define M where "M = init_parse ?in m"
  have w: "f_pri f \<le> 191" "stamp_ok (f_month f) (f_day f) (f_hour f) (f_min f) (f_sec f)"
      "host_ok (f_host f)" "tag_ok (f_tag f)" "case f_content f of None \<Rightarrow> True | Some x \<Rightarrow> content_ok x"
      "msg_ok (m_newline M) (f_msg f)"
    using ok(1) by (simp_all add: wellformed_ok_def M_def init_parse_def)
  obtain pre where r: "ready (pre @ (case f_content f of None \<Rightarrow> f_tag f @ [58] | Some x \<Rightarrow> x @ [93, 58]) @ 32 # f_msg f) M"
    "run M (syslogMessage_init (m_optionalPriority m)) =
      run (conf M 575 pre (case f_content f of None \<Rightarrow> f_tag f @ [58] | Some x \<Rightarrow> x @ [93, 58])) (built m f)"
    by (rule run_to_message [OF w(1,2) ok(2,3) w(3-5) wellformed_text_def M_def])
  obtain pre' where run: "run M (syslogMessage_init (m_optionalPriority m)) =
      Some (conf M 522 pre' (f_msg f), built m f\<lparr>message := f_msg f\<rparr>)"
    using run_msg [OF w(6) r(1), of "built m f"] r(2) by simp
  have "parse_result (conf M 522 pre' (f_msg f)) (built m f\<lparr>message := f_msg f\<rparr>) = (Some (parsed m f), None)"
    using w(1,6) by (simp add: final_result export_built parsed_Message msg_ok_def)
  moreover have "hasPriority ?in"
    by (simp add: hasPriority_def wellformed_text_def)
  ultimately show ?thesis
    using run Parse_of_run [of ?in m] by (auto simp: M_def)
qed

end
