(* ===== verification/RFC3164_Edge.thy ===== *)
theory RFC3164_Edge
  imports RFC3164_Correct
begin

text \<open>
  What a caller of the RFC 3164 machine sees: the fields of well-formed messages, and the edges where
  an answer surprises (input that stops after the timestamp, text after a newline, an empty message,
  the year of the 29th of February).
\<close>

section \<open>A message to try the properties on\<close>

text \<open><34>Oct 11 22:14:15 mymachine su[230]: failed\<close>

definition sample_fields :: wellformed where
  "sample_fields =
     \<lparr>f_pri = 34, f_zero = False, f_month = 10, f_day = 11, f_hour = 22, f_min = 14, f_sec = 15,
      f_host = lit ''mymachine'', f_tag = lit ''su'', f_content = Some (lit ''230''),
      f_msg = lit ''failed''\<rparr>"

lemma sample_fields_ok: "wellformed_ok nl sample_fields"
  by (simp add: wellformed_ok_def sample_fields_def stamp_ok_def daysIn_def host_ok_def tag_ok_def
      content_ok_def msg_ok_def is_tag_def is_msg_def is_control_def is_graph_def in_range_def)

lemma sample_fields_text:
  "last (wellformed_text sample_fields) = 100" "length (wellformed_text sample_fields) = 45"
  by (simp_all add: wellformed_text_def sample_fields_def stamp_of_def stamp_text_def content_text_def
      day_text_def pad2_def month_names_def dec_string.simps)

lemma sample_machine [simp]:
  "m_ciscoHostname (NewMachine []) = False" "m_newline (NewMachine []) = False"
  "m_bestEffort (NewMachine []) = False" "m_lenientDay (NewMachine []) = False"
  "m_yyyy (NewMachine []) = 0" "m_timezone (NewMachine []) = None" "m_loc (NewMachine []) = None"
  by (simp_all add: NewMachine_def machine_zero_def)

section \<open>Well-formed messages\<close>

text \<open>
  C14: A well-formed message without Cisco extras is parsed to exactly its fields: the priority with
  its facility and severity, the stamp placed in the year and the time zones of the options, the
  hostname, the tag, the content of the brackets and the whole message, with its line feeds if
  newlines are embedded. There is no error.
\<close>

theorem Parse3164_correct:
  assumes "wellformed_ok (m_newline m) f" "\<not> m_ciscoHostname m" "f_zero f \<longrightarrow> m_lenientDay m"
  shows "\<exists>m'. Parse m (wellformed_text f) = Some (m', Some (parsed m f), None)"
  using assms by (rule Parse_wellformed)

theorem Parse3164_correct_witness:
  "\<exists>m'. Parse (NewMachine []) (wellformed_text sample_fields) =
    Some (m', Some (parsed (NewMachine []) sample_fields), None)"
  by (rule Parse3164_correct) (simp_all add: sample_fields_ok, simp add: sample_fields_def)

text \<open>The year of the option, for a machine without time zones.\<close>

lemma placed_plain:
  assumes "m_timezone m = None" "m_loc m = None"
  shows "placed_time m (stamp_civil mo d h mi s) =
    next_month_day (stamp_civil mo d h mi s\<lparr>t_year := m_yyyy m\<rparr>)"
  using assms by (simp add: placed_time_def time_AddYears_def time_Date_def stamp_civil_def)

text \<open>
  A stamp of the 29th of February is read in the leap year 0 and then moved to the year that is
  set: in a year that is no leap year the message has a timestamp of the 1st of March.
\<close>

theorem leap_day_moves:
  assumes "wellformed_ok (m_newline m) f" "\<not> m_ciscoHostname m" "f_zero f \<longrightarrow> m_lenientDay m"
    and "f_month f = 2" "f_day f = 29"
    and "m_timezone m = None" "m_loc m = None" "\<not> isLeap (m_yyyy m)"
  shows "\<exists>m' sm. Parse m (wellformed_text f) = Some (m', Some sm, None) \<and>
    Timestamp sm = Some (stamp_civil 3 1 (f_hour f) (f_min f) (f_sec f)\<lparr>t_year := m_yyyy m\<rparr>)"
proof -
  have "placed_time m (stamp_civil 2 29 h mi s) = stamp_civil 3 1 h mi s\<lparr>t_year := m_yyyy m\<rparr>" for h mi s
    unfolding placed_plain [OF assms(6,7)]
    using assms(8) by (simp add: next_month_day_def daysIn_def stamp_civil_def Let_def)
  then show ?thesis
    using Parse_wellformed [OF assms(1-3)] assms(4,5) by (auto simp: parsed_def)
qed

theorem leap_day_moves_witness:
  "\<exists>m' sm. Parse (NewMachine [WithYear 2025 (Year 2023)])
      (wellformed_text (sample_fields\<lparr>f_month := 2, f_day := 29\<rparr>)) = Some (m', Some sm, None) \<and>
    Timestamp sm = Some (stamp_civil 3 1 22 14 15\<lparr>t_year := 2023\<rparr>)"
proof -
  let ?m = "NewMachine [WithYear 2025 (Year 2023)]" and ?f = "sample_fields\<lparr>f_month := 2, f_day := 29\<rparr>"
  have m: "m_timezone ?m = None" "m_loc ?m = None" "m_yyyy ?m = 2023" "\<not> m_ciscoHostname ?m"
    by (simp_all add: NewMachine_def machine_zero_def WithYear_def machine_WithYear_def Operate_def)
  have f: "wellformed_ok nl ?f" "\<not> f_zero ?f" "f_month ?f = 2" "f_day ?f = 29"
      "f_hour ?f = 22" "f_min ?f = 14" "f_sec ?f = 15" for nl
    using sample_fields_ok [of nl]
    by (simp_all add: wellformed_ok_def sample_fields_def stamp_ok_def daysIn_def isLeap_def)
  have "\<not> isLeap (2023::int)"
    by (simp add: isLeap_def)
  then show ?thesis
    using leap_day_moves [of ?m ?f] m f by simp
qed

section \<open>Answers without a message and without an error\<close>

lemma run_end_silent:
  assumes "ready (pre @ mk) M" "eof_error cs = None" "cs \<le> 521"
  shows "run (conf M cs pre mk) out = Some (conf M cs pre mk, out)"
  using assms by (simp add: run.simps [of "conf M cs pre mk"] ready_def eof_actions_def finish_def)

lemma silent_result:
  "m_cs m < 522 \<Longrightarrow> m_err m = None \<Longrightarrow> \<not> m_bestEffort m \<Longrightarrow> parse_result m out = (None, None)"
  by (simp add: parse_result_def firstFinal_def)

lemma Parse3164_silent_answer:
  assumes "f_pri f \<le> 191" "stamp_ok (f_month f) (f_day f) (f_hour f) (f_min f) (f_sec f)"
    and "\<not> m_ciscoHostname m" "f_zero f \<longrightarrow> m_lenientDay m" "\<not> m_bestEffort m"
  shows "\<exists>m'. Parse m (60 # dec_string (f_pri f) @ 62 # stamp_of f) = Some (m', None, None)"
proof -
  let ?in = "60 # dec_string (f_pri f) @ 62 # stamp_of f"
  define M where "M = init_parse ?in m"
  let ?m = "conf M (stamp_state M (f_zero f) (f_day f)) (60 # dec_string (f_pri f) @ [62]) (stamp_of f)"
  have shape: "?in = 60 # dec_string (f_pri f) @ 62 # stamp_of f @ []"
    by simp
  note header = run_header [OF assms(1-4) shape M_def]
  have cs: "eof_error (stamp_state M (f_zero f) (f_day f)) = None"
      "stamp_state M (f_zero f) (f_day f) \<le> 521"
    by (auto simp: stamp_state_def eof_error_def)
  have "run M (syslogMessage_init (m_optionalPriority m)) =
      Some (?m, set_prival (dec_string (f_pri f)) (syslogMessage_init (m_optionalPriority m)))"
    using header(1) run_end_silent [OF _ cs] header(3) by simp
  moreover have "parse_result ?m out = (None, None)" for out
    using cs(2) assms(5) by (intro silent_result) (simp_all add: M_def init_parse_def conf_def)
  ultimately show ?thesis
    using Parse_of_run [of ?in m ?m] by (simp add: hasPriority_def M_def)
qed

text \<open>
  C17: Input that stops right after the seconds of its timestamp is rejected in silence: outside
  best-effort mode the answer is neither a message nor an error.
\<close>

theorem Parse3164_silent:
  assumes "f_pri f \<le> 191" "stamp_ok (f_month f) (f_day f) (f_hour f) (f_min f) (f_sec f)"
    and "\<not> m_ciscoHostname m" "f_zero f \<longrightarrow> m_lenientDay m" "\<not> m_bestEffort m"
  shows "\<exists>m'. Parse m (60 # dec_string (f_pri f) @ 62 # stamp_of f) = Some (m', None, None)"
  using assms by (rule Parse3164_silent_answer)

theorem Parse3164_silent_witness:
  "\<exists>m'. Parse (NewMachine []) (60 # dec_string 34 @ 62 # stamp_text False 10 11 22 14 15) =
    Some (m', None, None)"
  using Parse3164_silent [of sample_fields "NewMachine []"]
  by (simp add: sample_fields_def stamp_of_def stamp_ok_def daysIn_def)

lemma run_after_newline:
  assumes "ready (pre @ mk @ 10 # r) M" "\<not> m_newline M"
  shows "r = [] \<Longrightarrow> run (conf M 522 pre mk) out = Some (conf M 523 pre (mk @ [10]), out\<lparr>message := mk\<rparr>)"
    "r \<noteq> [] \<Longrightarrow> run (conf M 522 pre mk) out = Some (conf M 0 pre (mk @ [10]), out\<lparr>message := mk\<rparr>)"
proof -
  have "perform [Set_message] 523 (conf M 522 pre mk) out =
      Next (conf M 523 pre (mk @ [10])) (out\<lparr>message := mk\<rparr>)"
    using conf_text [OF assms(1), of 522] by (simp add: with_text_def conf_goto [of _ _ _ _ _ 10])
  then have go: "run (conf M 522 pre mk) out = run (conf M 523 pre (mk @ [10])) (out\<lparr>message := mk\<rparr>)"
    using assms by (intro run_perform)
      (auto simp: in_prival_def next_trans_def next_message_def msg_else_def control_newline)
  show "run (conf M 522 pre mk) out = Some (conf M 523 pre (mk @ [10]), out\<lparr>message := mk\<rparr>)" if "r = []"
    using assms(1) that unfolding go
    by (simp add: run.simps [of "conf M 523 pre (mk @ [10])"] ready_def eof_actions_def eof_error_def
        finish_def)
  show "run (conf M 522 pre mk) out = Some (conf M 0 pre (mk @ [10]), out\<lparr>message := mk\<rparr>)" if r: "r \<noteq> []"
  proof -
    obtain b r' where r': "r = b # r'"
      using r by (cases r) auto
    have "gindex (m_data M) (length pre + length (mk @ [10])) = Some b"
      using assms(1) r' by (simp add: ready_def gindex_def nth_append)
    moreover have "step b (conf M 523 pre (mk @ [10])) o' = Out (conf M 0 pre (mk @ [10])) o'" for o'
      by (simp add: step_def in_prival_def next_trans_def next_message_def) (simp add: conf_def)
    ultimately show ?thesis
      using assms(1) r' unfolding go by (simp add: run.simps [of "conf M 523 pre (mk @ [10])"] ready_def)
  qed
qed

lemma run_wellformed_newline:
  assumes ok: "wellformed_ok False f" "\<not> m_ciscoHostname m" "f_zero f \<longrightarrow> m_lenientDay m" "\<not> m_newline m"
    and M: "M = init_parse (wellformed_text f @ 10 # r) m"
  shows "\<exists>pre. run M (syslogMessage_init (m_optionalPriority m)) =
    Some (conf M (if r = [] then 523 else 0) pre (f_msg f @ [10]), built m f\<lparr>message := f_msg f\<rparr>)"
proof -
  have w: "f_pri f \<le> 191" "stamp_ok (f_month f) (f_day f) (f_hour f) (f_min f) (f_sec f)"
      "host_ok (f_host f)" "tag_ok (f_tag f)" "case f_content f of None \<Rightarrow> True | Some x \<Rightarrow> content_ok x"
      "msg_ok False (f_msg f)" "\<not> m_newline M"
    using ok by (simp_all add: wellformed_ok_def M init_parse_def)
  obtain c cs where x: "f_msg f = c # cs" "is_msg c" "list_all is_msg cs"
    using w(6) by (cases "f_msg f") (auto simp: msg_ok_def)
  let ?in = "wellformed_text f @ 10 # r"
  have shape: "?in = 60 # dec_string (f_pri f) @ 62 # stamp_of f @ 32 # f_host f @ 32 # f_tag f @
      content_text (f_content f) @ 58 # (32 # f_msg f @ 10 # r)"
    by (simp add: wellformed_text_def)
  obtain pre where pre: "ready (pre @ (case f_content f of None \<Rightarrow> f_tag f @ [58] | Some x \<Rightarrow> x @ [93, 58]) @
      32 # f_msg f @ 10 # r) M"
    "run M (syslogMessage_init (m_optionalPriority m)) =
      run (conf M 575 pre (case f_content f of None \<Rightarrow> f_tag f @ [58] | Some x \<Rightarrow> x @ [93, 58])) (built m f)"
    by (rule run_to_message [OF w(1,2) ok(2,3) w(3-5) shape M])
  define mk where "mk = (case f_content f of None \<Rightarrow> f_tag f @ [58] | Some x \<Rightarrow> x @ [93, 58])"
  have R: "ready (pre @ mk @ 32 # f_msg f @ 10 # r) M"
    using pre(1) by (simp add: mk_def)
  have "run (conf M 575 pre mk) (built m f) = run (conf M 576 pre (mk @ [32])) (built m f)"
    by (rule run_space [OF R])
  also have "\<dots> = run (conf M 522 (pre @ mk @ [32]) [c]) (built m f)"
    using R x run_mark [of pre "mk @ [32]" c "cs @ 10 # r" M 576 522 "built m f"]
    by (simp add: in_prival_def next_trans_def next_tag_def msg_else_def is_msg_def)
  also have "path M 522 cs = Some 522"
    by (rule path_loop [OF _ _ x(3)])
      (auto simp: next_trans_def next_message_def msg_else_def is_msg_def in_prival_def)
  then have "run (conf M 522 (pre @ mk @ [32]) [c]) (built m f) =
      run (conf M 522 (pre @ mk @ [32]) (f_msg f)) (built m f)"
    using run_path [of "pre @ mk @ [32]" "[c]" cs "10 # r" M 522] R x(1) by simp
  also have "\<dots> = Some (conf M (if r = [] then 523 else 0) (pre @ mk @ [32]) (f_msg f @ [10]),
      built m f\<lparr>message := f_msg f\<rparr>)"
    using run_after_newline [of "pre @ mk @ [32]" "f_msg f" r M "built m f"] R w(7) by (cases "r = []") simp_all
  finally show ?thesis
    using pre(2) by (auto simp: mk_def)
qed

text \<open>
  C16: Without embedded newlines a line feed ends the message. A line feed at the end of the input
  changes nothing; with text after it the answer is, outside best-effort mode, neither the message
  nor an error, and in best-effort mode the message without an error.
\<close>

theorem Parse3164_newline:
  assumes "wellformed_ok False f" "\<not> m_ciscoHostname m" "f_zero f \<longrightarrow> m_lenientDay m" "\<not> m_newline m"
  shows "\<exists>m'. Parse m (wellformed_text f @ 10 # r) =
    Some (m', if r = [] \<or> m_bestEffort m then Some (parsed m f) else None, None)"
proof -
  let ?in = "wellformed_text f @ 10 # r"
  define M where "M = init_parse ?in m"
  have w: "f_pri f \<le> 191" "f_msg f \<noteq> []"
    using assms(1) by (simp_all add: wellformed_ok_def msg_ok_def)
  obtain pre where "run M (syslogMessage_init (m_optionalPriority m)) =
    Some (conf M (if r = [] then 523 else 0) pre (f_msg f @ [10]), built m f\<lparr>message := f_msg f\<rparr>)"
    using run_wellformed_newline [OF assms M_def] by blast
  moreover have "minimal (built m f\<lparr>message := f_msg f\<rparr>)"
    using w(1) pri_word(1) [OF w(1)]
    by (simp add: built_def minimal_def ValidPriority_iff Let_def set_prival_def unsigned_of_nat
        take_bit_nat_eq_self split: option.split)
  then have "parse_result (conf M (if r = [] then 523 else 0) pre (f_msg f @ [10])) (built m f\<lparr>message := f_msg f\<rparr>) =
      (if r = [] \<or> m_bestEffort m then Some (parsed m f) else None, None)"
    using w export_built [of f "f_msg f" m]
    by (simp add: parse_result_def firstFinal_def enFail_def parsed_Message M_def init_parse_def conf_def)
  moreover have "hasPriority ?in"
    by (simp add: hasPriority_def wellformed_text_def)
  ultimately show ?thesis
    using Parse_of_run [of ?in m] by (auto simp: M_def)
qed

theorem Parse3164_newline_witness:
  "\<exists>m'. Parse (NewMachine []) (wellformed_text sample_fields @ 10 # lit ''and more'') = Some (m', None, None)"
  using Parse3164_newline [of sample_fields "NewMachine []" "lit ''and more''"] sample_fields_ok [of False]
  by (simp add: sample_fields_def)

section \<open>An empty message\<close>

text \<open>
  C18: When nothing follows the tag, the message of the answer is made of what was marked last: the
  tag with its colon and space, or the content with the bracket that closes it.
\<close>

theorem Parse3164_empty_message:
  assumes "f_pri f \<le> 191" "stamp_ok (f_month f) (f_day f) (f_hour f) (f_min f) (f_sec f)"
    and "host_ok (f_host f)" "tag_ok (f_tag f)" "case f_content f of None \<Rightarrow> True | Some x \<Rightarrow> content_ok x"
    and "f_msg f = []" "\<not> m_ciscoHostname m" "f_zero f \<longrightarrow> m_lenientDay m"
  shows "\<exists>m'. Parse m (wellformed_text f) = Some (m', Some (parsed m f\<lparr>Message := Some
    (case f_content f of None \<Rightarrow> f_tag f @ [58, 32] | Some x \<Rightarrow> x @ [93, 58, 32])\<rparr>), None)"
proof -
  let ?in = "wellformed_text f"
  define M where "M = init_parse ?in m"
  define mk where "mk = (case f_content f of None \<Rightarrow> f_tag f @ [58] | Some x \<Rightarrow> x @ [93, 58])"
  have shape: "?in = 60 # dec_string (f_pri f) @ 62 # stamp_of f @ 32 # f_host f @ 32 # f_tag f @
      content_text (f_content f) @ 58 # [32]"
    using assms(6) by (simp add: wellformed_text_def)
  obtain pre where pre: "ready (pre @ mk @ [32]) M"
    "run M (syslogMessage_init (m_optionalPriority m)) = run (conf M 575 pre mk) (built m f)"
    unfolding mk_def by (rule run_to_message [OF assms(1,2,7,8,3-5) shape M_def])
  have "run (conf M 575 pre mk) (built m f) =
      Some (conf M 576 pre (mk @ [32]), built m f\<lparr>message := mk @ [32]\<rparr>)"
    using run_space [OF pre(1)] run_finish [of pre "mk @ [32]" M "conf M 576 pre (mk @ [32])" 576] pre(1)
    by simp
  moreover have m32: "(case f_content f of None \<Rightarrow> f_tag f @ [58, 32] | Some x \<Rightarrow> x @ [93, 58, 32]) = mk @ [32]"
    by (simp add: mk_def split: option.split)
  moreover have "hasPriority ?in"
    by (simp add: hasPriority_def wellformed_text_def)
  ultimately show ?thesis
    using pre(2) Parse_of_run [of ?in m] final_result [of 576 M pre "mk @ [32]"]
      export_built [OF assms(1), of "mk @ [32]" m]
    unfolding m32 by (auto simp: M_def)
qed

theorem Parse3164_empty_message_witness:
  "\<exists>m' sm. Parse (NewMachine []) (wellformed_text (sample_fields\<lparr>f_msg := []\<rparr>)) = Some (m', Some sm, None) \<and>
    Message sm = Some (lit ''230]: '')"
proof -
  have "wellformed_ok False sample_fields"
    by (rule sample_fields_ok)
  then have "\<exists>m'. Parse (NewMachine []) (wellformed_text (sample_fields\<lparr>f_msg := []\<rparr>)) =
      Some (m', Some (parsed (NewMachine []) (sample_fields\<lparr>f_msg := []\<rparr>)
        \<lparr>Message := Some (lit ''230'' @ [93, 58, 32])\<rparr>), None)"
    using Parse3164_empty_message [of "sample_fields\<lparr>f_msg := []\<rparr>" "NewMachine []"]
    by (simp add: wellformed_ok_def sample_fields_def)
  then show ?thesis
    by auto
qed

end
