(* ===== verification/NonTransparent_RFC3164.thy ===== *)
theory NonTransparent_RFC3164
  imports NonTransparent_Lines RFC3164_Parser RFC3164_Edge
begin

text \<open>
  nontransparent/parser.go, \<open>NewParserRFC3164\<close>: non-transparent framing around the RFC 3164 machine.
\<close>

section \<open>The constructor\<close>

type_synonym 'rerr nt3164_parser =
  "(machine \<Rightarrow> machine, machine, SyslogMessage, perror, 'rerr) NonTransparent.machine"

definition nt3164_zero :: "'rerr nt3164_parser" where
  "nt3164_zero =
     \<lparr>trailertyp = LF, trailer = 0, candidate = [], bestEffort = False, internal = NewMachine [],
      internalOpts = [], emitted = [], readError = None, lastChunk = [], rfc3164Opts = [],
      rfc5424Opts = [], noFallback = False\<rparr>"

definition nt_NewParserRFC3164 :: "('rerr nt3164_parser \<Rightarrow> 'rerr nt3164_parser) list \<Rightarrow> 'rerr nt3164_parser" where
  "nt_NewParserRFC3164 opts =
     (let m = fold (\<lambda>opt m. opt m) opts nt3164_zero;
          m = m\<lparr>trailer := word_of_int (fst (TrailerType_Value (trailertyp m)))\<rparr>;
          m = (if bestEffort m
               then m\<lparr>internalOpts := internalOpts m @ [RFC3164_Machine.WithBestEffort]\<rparr> else m)
      in m\<lparr>internal := NewMachine (internalOpts m)\<rparr>)"

section \<open>Results\<close>

interpretation nt3164: line_stream machine_methods "\<lambda>_. True"
  by unfold_locales

lemma wellformed_result:
  assumes "wellformed_ok (m_newline m) f" "\<not> m_ciscoHostname m" "f_zero f \<longrightarrow> m_lenientDay m"
  shows "nt_result machine_methods m (wellformed_text f) =
    \<lparr>res_Message = Some (parsed m f), res_Error = None\<rparr>"
  using Parse_wellformed [OF assms] by (auto simp: nt_result_def answer_def wellformed_text_def)

text \<open>
  Non-transparent framing around the RFC 3164 machine delivers well-formed messages that do not
  contain the trailer as their fields, in order and without an error.
\<close>

theorem nt3164_correct:
  fixes m :: "'rerr nt3164_parser"
  assumes "trailer_ok m" "readError m = None" "candidate m = []" "trailer m \<noteq> 60"
    and "\<forall>f\<in>set fs. wellformed_ok (m_newline (internal m)) f \<and> (f_zero f \<longrightarrow> m_lenientDay (internal m))"
    and "\<forall>f\<in>set fs. trailer m \<notin> set (wellformed_text f)" "\<not> m_ciscoHostname (internal m)"
  shows "\<exists>q. NonTransparent.Parse machine_methods
      (map (\<lambda>f. Exec_call 0 (wellformed_text f @ [trailer m])) fs @ [OnCompletion_call]) m = Some q \<and>
    emitted q = emitted m @ map (\<lambda>f. \<lparr>res_Message = Some (parsed (internal m) f), res_Error = None\<rparr>) fs"
proof -
  let ?x = "\<lambda>f. (tl (wellformed_text f), []) :: lines"
  have shape: "wellformed_text f = 60 # tl (wellformed_text f)" for f
    by (simp add: wellformed_text_def)
  have calls: "concat (map (line_calls (trailer m)) (map ?x fs)) =
      map (\<lambda>f. Exec_call 0 (wellformed_text f @ [trailer m])) fs"
    using shape by (induction fs) (simp_all add: line_calls_def)
  have "trailer m \<notin> set (tl (wellformed_text f))" if "f \<in> set fs" for f
    using assms(6) shape that by (metis list.set_intros(2))
  then have wf: "\<forall>x\<in>set (map ?x fs). lines_wf (trailer m) x"
    using assms(4) by (auto simp: lines_wf_def)
  have "(nt_result machine_methods (internal m) (joined (trailer m) (?x f)) ::
        (RFC3164_Message.SyslogMessage, (perror, 'rerr) nt_error) Result) =
      \<lparr>res_Message = Some (parsed (internal m) f), res_Error = None\<rparr>" if "f \<in> set fs" for f
    using wellformed_result [of "internal m" f] assms(5,7) shape [of f] that by (simp add: joined_def)
  then have all: "map (\<lambda>x. nt_result machine_methods (internal m) (joined (trailer m) x)) (map ?x fs) =
      (map :: (wellformed \<Rightarrow> (RFC3164_Message.SyslogMessage, (perror, 'rerr) nt_error) Result) \<Rightarrow> _)
        (\<lambda>f. \<lparr>res_Message = Some (parsed (internal m) f), res_Error = None\<rparr>) fs"
    by simp
  show ?thesis
    using nt3164.Parse_stream [OF assms(1) wf assms(2) TrueI] assms(3)
    unfolding calls all by (simp add: nt3164.collected_def)
qed

section \<open>The properties at work\<close>

definition sample_nt3164 :: "unit nt3164_parser" where
  "sample_nt3164 = nt_NewParserRFC3164 []"

lemma sample_nt3164_fields:
  "trailer_ok sample_nt3164" "trailer sample_nt3164 = 10" "readError sample_nt3164 = None"
  "candidate sample_nt3164 = []" "emitted sample_nt3164 = []" "internal sample_nt3164 = NewMachine []"
  by (simp_all add: sample_nt3164_def nt_NewParserRFC3164_def nt3164_zero_def Let_def
      TrailerType_Value_def LF_def NUL_def trailer_bytes_def trailer_ok_def)

lemma sample_text_no_lf: "10 \<notin> set (wellformed_text sample_fields)"
  by (simp add: wellformed_text_def sample_fields_def stamp_of_def stamp_text_def content_text_def
      day_text_def pad2_def month_names_def dec_string.simps dig_def)

theorem nt3164_correct_witness:
  "\<exists>q. NonTransparent.Parse machine_methods
      [Exec_call 0 (wellformed_text sample_fields @ [10]), Exec_call 0 (wellformed_text sample_fields @ [10]),
        OnCompletion_call] sample_nt3164 = Some q \<and>
    map res_Message (emitted q) =
      [Some (parsed (NewMachine []) sample_fields), Some (parsed (NewMachine []) sample_fields)]"
proof -
  have "\<not> f_zero sample_fields"
    by (simp add: sample_fields_def)
  then show ?thesis
    using nt3164_correct [of sample_nt3164 "[sample_fields, sample_fields]"]
      sample_nt3164_fields sample_fields_ok sample_text_no_lf by auto
qed

end
