(* ===== verification/OctetCounting_RFC3164.thy ===== *)
theory OctetCounting_RFC3164
  imports OctetCounting_Frames RFC3164_Parser RFC3164_Edge
begin

text \<open>
  octetcounting/parser.go, \<open>NewParserRFC3164\<close>: octet counting around the RFC 3164 machine. The
  constructor embeds newlines in the message and strips the trailing one.
\<close>

section \<open>The constructor\<close>

type_synonym octet3164_parser = "(machine \<Rightarrow> machine, machine, SyslogMessage, perror) OctetCounting.parser"

definition octet3164_zero :: octet3164_parser where
  "octet3164_zero =
     \<lparr>maxMessageLength = DefaultMaxSize,
      scanner = \<lparr>s_r = \<lparr>rd_rest = [], rd_size = 0, rd_last = None\<rparr>, s_msglen = 0, s_ready = False,
        s_maxlen = 0\<rparr>,
      bestEffort = False, internal = NewMachine [], internalOpts = [],
      last_tok = \<lparr>tok_typ = ILLEGAL, tok_lit = []\<rparr>, stepback = False, emitted = [],
      stripTrailingNL = False, rfc3164Opts = [], rfc5424Opts = [], noFallback = False\<rparr>"

definition octet_NewParserRFC3164 :: "(octet3164_parser \<Rightarrow> octet3164_parser) list \<Rightarrow> octet3164_parser" where
  "octet_NewParserRFC3164 opts =
     (let p = fold (\<lambda>opt p. opt p) opts octet3164_zero;
          p = (if bestEffort p
               then p\<lparr>internalOpts := internalOpts p @ [RFC3164_Machine.WithBestEffort]\<rparr> else p);
          p = p\<lparr>internalOpts := internalOpts p @ [RFC3164_Machine.WithEmbeddedNewlines]\<rparr>;
          p = p\<lparr>stripTrailingNL := True\<rparr>
      in p\<lparr>internal := NewMachine (internalOpts p)\<rparr>)"

section \<open>Results\<close>

interpretation octet3164: octet_stream machine_methods "\<lambda>_. True"
  by unfold_locales

text \<open>A well-formed message, and the line end that its sender put after it.\<close>

definition payload_ok :: "machine \<Rightarrow> wellformed \<Rightarrow> bytes \<Rightarrow> bool" where
  "payload_ok m f e \<longleftrightarrow>
     wellformed_ok (m_newline m) f \<and> (f_zero f \<longrightarrow> m_lenientDay m) \<and> last (f_msg f) \<noteq> 10 \<and>
     last (f_msg f) \<noteq> 13 \<and> (e = [] \<or> e = [10] \<or> e = [13, 10])"

lemma wellformed_last: "f_msg f \<noteq> [] \<Longrightarrow> last (wellformed_text f) = last (f_msg f)"
  by (simp add: wellformed_text_def)

lemma payload_result:
  assumes "payload_ok m f e" "\<not> m_ciscoHostname m"
  shows "octet_result machine_methods True m (wellformed_text f @ e) =
    \<lparr>res_Message = Some (parsed m f), res_Error = None\<rparr>"
proof -
  have ne: "f_msg f \<noteq> []" "wellformed_text f \<noteq> []"
    using assms(1) by (auto simp: payload_ok_def wellformed_ok_def msg_ok_def wellformed_text_def)
  have "strip_newline (wellformed_text f @ e) = wellformed_text f"
    using assms(1) ne(2) wellformed_last [OF ne(1)] by (intro strip_line_end) (simp_all add: payload_ok_def)
  moreover have "answer machine_methods m (wellformed_text f) = Some (Some (parsed m f), None)"
    using Parse_wellformed [of m f] assms by (auto simp: payload_ok_def answer_def)
  ultimately show ?thesis
    by (simp add: octet_result_def)
qed

lemma octet3164_stream:
  assumes "\<not> stepback p" "unat (effective_max p) \<le> 9223372036854775787" "stripTrailingNL p"
    and "fs \<noteq> []" "\<forall>(f, e)\<in>set fs. payload_ok (internal p) f e" "\<not> m_ciscoHostname (internal p)"
    and "\<forall>(f, e)\<in>set fs. length (wellformed_text f @ e) \<le> unat (effective_max p)"
  shows "\<exists>p'. OctetCounting.Parse machine_methods pool
      (frames (map (\<lambda>(f, e). (wellformed_text f @ e, False)) fs)) p = Some p' \<and>
    emitted p' = emitted p @ map (\<lambda>(f, e). \<lparr>res_Message = Some (parsed (internal p) f), res_Error = None\<rparr>) fs"
proof -
  let ?xs = "map (\<lambda>(f, e). (wellformed_text f @ e, False)) fs"
  let ?R = "\<lambda>(f, e). octet_result machine_methods True (internal p) (wellformed_text f @ e)"
  have R: "map ?R fs = map (\<lambda>(f, e). \<lparr>res_Message = Some (parsed (internal p) f), res_Error = None\<rparr>) fs"
    using assms(5,6) payload_result [of "internal p"] by auto
  have "\<forall>(x, nl)\<in>set ?xs. carried (effective_max p) x"
    using assms(7) by (auto simp: carried_def wellformed_text_def)
  from octet3164.Parse_frames [OF assms(1,2) this TrueI, of pool] obtain p' where
    "OctetCounting.Parse machine_methods pool (frames ?xs) p = Some p'"
    "emitted p' = emitted p @ octet_spec (m_bestEffort (internal p)) (map (\<lambda>r. (r, False)) (map ?R fs))"
    using assms(3) by (auto simp: comp_def machine_HasBestEffort_def case_prod_unfold)
  moreover have "octet_spec (m_bestEffort (internal p)) (map (\<lambda>r. (r, False)) (map ?R fs)) = map ?R fs"
    using assms(4) unfolding R by (intro octet_spec_ok) auto
  ultimately show ?thesis
    using R by auto
qed

text \<open>
  C15: Octet counting around the RFC 3164 machine, without the option for Cisco hostnames. A stream is
  one or more frames, each with a well-formed message that does not itself end with LF or CR, and
  after it nothing, LF or CR LF; no frame is longer than the limit in force, the one that is set or 8192
  octets, which is at most 2^63 - 21. Then a parser between two frames, which takes line ends off the frames (as the
  constructor for RFC 3164 makes it), emits the fields of these messages, in order and without
  an error; line feeds inside a message are kept, when the machine takes them, and days have
  leading zeros only when it is lenient.
\<close>

theorem octet3164_correct:
  assumes "\<not> stepback p" "unat (effective_max p) \<le> 9223372036854775787" "stripTrailingNL p"
    and "fs \<noteq> []" "\<forall>(f, e)\<in>set fs. payload_ok (internal p) f e" "\<not> m_ciscoHostname (internal p)"
    and "\<forall>(f, e)\<in>set fs. length (wellformed_text f @ e) \<le> unat (effective_max p)"
  shows "\<exists>p'. OctetCounting.Parse machine_methods pool
      (frames (map (\<lambda>(f, e). (wellformed_text f @ e, False)) fs)) p = Some p' \<and>
    emitted p' = emitted p @ map (\<lambda>(f, e). \<lparr>res_Message = Some (parsed (internal p) f), res_Error = None\<rparr>) fs"
  using assms by (rule octet3164_stream)

text \<open>
  A frame whose message stops after its timestamp makes the parser emit a result that has neither
  a message nor an error.
\<close>

theorem octet3164_empty_result:
  assumes "\<not> stepback p" "unat (effective_max p) \<le> 9223372036854775787"
    and "f_pri f \<le> 191" "stamp_ok (f_month f) (f_day f) (f_hour f) (f_min f) (f_sec f)"
    and "\<not> m_ciscoHostname (internal p)" "f_zero f \<longrightarrow> m_lenientDay (internal p)"
    and "\<not> m_bestEffort (internal p)" "60 \<le> unat (effective_max p)"
  shows "\<exists>p'. OctetCounting.Parse machine_methods pool
      (frames [(60 # dec_string (f_pri f) @ 62 # stamp_of f, False)]) p = Some p' \<and>
    emitted p' = emitted p @ [\<lparr>res_Message = None, res_Error = None\<rparr>]"
proof -
  let ?x = "60 # dec_string (f_pri f) @ 62 # stamp_of f"
  have day: "length (day_text z d) = 2" for z d
    by (simp add: day_text_def pad2_def)
  have month: "length (month_names ! (f_month f - 1)) = 3"
    using stamp_ok_ranges(1,2) [OF assms(4)]
    by (cases rule: month_cases) (simp_all add: month_names_def)
  then have len: "length (stamp_of f) = 15"
    by (simp add: stamp_of_def stamp_text_def day pad2_def)
  have "length (dec_string (f_pri f)) \<le> 3"
    using assms(3) by (cases rule: dec_string_cases) simp_all
  then have c: "carried (effective_max p) ?x"
    using assms(8) len by (simp add: carried_def)
  have s: "strip_newline ?x = ?x"
  proof -
    have "last ?x = dig (f_sec f mod 10)" "dig (f_sec f mod 10) \<noteq> 10"
      using dig_simps(3) [of "f_sec f mod 10"]
      by (auto simp: stamp_of_def stamp_text_def pad2_def is_graph_def)
    then show ?thesis
      by (simp add: strip_newline_def)
  qed
  obtain m' where "RFC3164_Run.Parse (internal p) ?x = Some (m', None, None)"
    using Parse3164_silent_answer [OF assms(3-7)] by blast
  then have "octet_result machine_methods (stripTrailingNL p) (internal p) ?x = \<lparr>res_Message = None, res_Error = None\<rparr>"
    using s by (simp add: octet_result_def answer_def)
  then show ?thesis
    using octet3164.Parse_frames [OF assms(1,2) _ TrueI, of "[(?x, False)]" pool] c
    by (auto simp: machine_HasBestEffort_def)
qed

section \<open>The properties at work\<close>

definition sample_octet3164 :: octet3164_parser where
  "sample_octet3164 = octet_NewParserRFC3164 [OctetCounting.WithMaxMessageLength 200]"

lemma sample_octet3164_fields:
  "\<not> stepback sample_octet3164" "effective_max sample_octet3164 = 200" "stripTrailingNL sample_octet3164"
  "emitted sample_octet3164 = []" "\<not> m_ciscoHostname (internal sample_octet3164)"
  "\<not> m_bestEffort (internal sample_octet3164)" "m_newline (internal sample_octet3164)"
  by (simp_all add: sample_octet3164_def octet_NewParserRFC3164_def octet3164_zero_def effective_max_def Let_def
      OctetCounting.WithMaxMessageLength_def NewMachine_def machine_zero_def WithEmbeddedNewlines_def
      machine_WithEmbeddedNewlines_def)

theorem octet3164_correct_witness:
  "\<exists>p'. OctetCounting.Parse machine_methods None
      (frames [(wellformed_text sample_fields, False), (wellformed_text sample_fields @ [13, 10], False)])
        sample_octet3164 = Some p' \<and>
    map res_Message (emitted p') =
      [Some (parsed (internal sample_octet3164) sample_fields),
       Some (parsed (internal sample_octet3164) sample_fields)]"
proof -
  have "\<not> f_zero sample_fields" "last (f_msg sample_fields) \<noteq> 10" "last (f_msg sample_fields) \<noteq> 13"
    by (simp_all add: sample_fields_def)
  then have "payload_ok (internal sample_octet3164) sample_fields e" if "e = [] \<or> e = [13, 10]" for e
    using that sample_fields_ok by (auto simp: payload_ok_def)
  then show ?thesis
    using octet3164_correct [of sample_octet3164 "[(sample_fields, []), (sample_fields, [13, 10])]" None]
      sample_octet3164_fields sample_fields_text by auto
qed

theorem octet3164_empty_result_witness:
  "\<exists>p'. OctetCounting.Parse machine_methods None
      (frames [(60 # dec_string 34 @ 62 # stamp_of sample_fields, False)]) sample_octet3164 = Some p' \<and>
    emitted p' = [\<lparr>res_Message = None, res_Error = None\<rparr>]"
proof -
  have "f_pri sample_fields = 34" "stamp_ok (f_month sample_fields) (f_day sample_fields)
      (f_hour sample_fields) (f_min sample_fields) (f_sec sample_fields)" "\<not> f_zero sample_fields"
    by (simp_all add: sample_fields_def stamp_ok_def daysIn_def)
  then show ?thesis
    using octet3164_empty_result [of sample_octet3164 sample_fields None] sample_octet3164_fields by simp
qed

end
