(* ===== verification/Auto_Detect.thy ===== *)
theory Auto_Detect
  imports Decimal
begin

text \<open>
  auto/format.go and auto/detect.go: the formats and the classification of an input by its first
  bytes, with a description of the classification that needs no positions.
\<close>

section \<open>Formats\<close>

datatype Format = FormatUnknown | FormatRFC3164 | FormatRFC5424

text \<open>Other values of the Go type, an int, print as the unknown format does.\<close>

definition Format_String :: "Format \<Rightarrow> bytes" where
  "Format_String f =
     (case f of
        FormatUnknown \<Rightarrow> lit ''unknown''
      | FormatRFC3164 \<Rightarrow> lit ''rfc3164''
      | FormatRFC5424 \<Rightarrow> lit ''rfc5424'')"

section \<open>Detection\<close>

definition month_prefixes :: "bytes list" where
  "month_prefixes = map lit [''Jan'', ''Feb'', ''Mar'', ''Apr'', ''May'', ''Jun'',
     ''Jul'', ''Aug'', ''Sep'', ''Oct'', ''Nov'', ''Dec'']"

definition hasRFC3164MonthPrefix :: "bytes \<Rightarrow> bool" where
  "hasRFC3164MonthPrefix input =
     (if length input < 4 \<or> input ! 3 \<noteq> 32 then False
      else take 3 input \<in> set month_prefixes)"

definition detectWithoutPRI :: "bytes \<Rightarrow> Format" where
  "detectWithoutPRI input =
     (if hasRFC3164MonthPrefix input then FormatRFC3164
      else if length input \<ge> 5 \<and> in_range 48 57 (input ! 0) \<and> in_range 48 57 (input ! 1) \<and>
        in_range 48 57 (input ! 2) \<and> in_range 48 57 (input ! 3) \<and> input ! 4 = 45
      then FormatRFC3164
      else FormatRFC5424)"

text \<open>The loop that looks for the closing bracket, and the one that counts digits.\<close>

function find_close :: "bytes \<Rightarrow> nat \<Rightarrow> nat" where
  "find_close input pos =
     (if pos < length input \<and> input ! pos \<noteq> 62 then find_close input (pos + 1) else pos)"
  by pat_completeness auto
termination
  by (relation "measure (\<lambda>(input, pos). length input - pos)") auto

function count_digits :: "bytes \<Rightarrow> nat \<Rightarrow> nat \<Rightarrow> nat \<times> nat" where
  "count_digits input pos digitCount =
     (if pos < length input \<and> input ! pos \<ge> 48 \<and> input ! pos \<le> 57
      then count_digits input (pos + 1) (digitCount + 1) else (pos, digitCount))"
  by pat_completeness auto
termination
  by (relation "measure (\<lambda>(input, pos, _). length input - pos)") auto

declare find_close.simps [simp del] count_digits.simps [simp del]

definition detect :: "bytes \<Rightarrow> Format" where
  "detect input =
     (if length input = 0 \<or> input ! 0 \<noteq> 60 then detectWithoutPRI input
      else let pos = find_close input 0 in
      if pos \<ge> length input then detectWithoutPRI input
      else let pos = pos + 1 in
      if pos \<ge> length input then FormatRFC5424
      else let b = input ! pos in
      if in_range 65 90 b \<or> in_range 97 122 b \<or> b = 32 \<or> b = 42 then FormatRFC3164
      else if b = 48 then FormatRFC3164
      else if in_range 49 57 b then
        (case count_digits input (pos + 1) 1 of (pos, digitCount) \<Rightarrow>
         if digitCount > 3 then FormatRFC3164
         else if pos < length input \<and> input ! pos = 32 then FormatRFC5424
         else if pos < length input \<and> input ! pos = 58 then FormatRFC3164
         else FormatRFC5424)
      else FormatRFC5424)"

section \<open>The loops as list functions\<close>

lemma find_close_eq:
  "pos \<le> length input \<Longrightarrow>
    find_close input pos = pos + length (takeWhile (\<lambda>b. b \<noteq> 62) (drop pos input))"
proof (induction input pos rule: find_close.induct)
  case (1 input pos)
  show ?case
  proof (cases "pos < length input")
    case True
    then have "drop pos input = input ! pos # drop (pos + 1) input"
      by (simp add: Cons_nth_drop_Suc)
    then show ?thesis
      using 1 True by (simp add: find_close.simps [of input pos])
  qed (simp add: find_close.simps [of input pos])
qed

lemma count_digits_eq:
  "pos \<le> length input \<Longrightarrow> count_digits input pos n =
    (let k = length (takeWhile is_digit (drop pos input)) in (pos + k, n + k))"
proof (induction input pos n rule: count_digits.induct)
  case (1 input pos n)
  show ?case
  proof (cases "pos < length input")
    case True
    then have "drop pos input = input ! pos # drop (pos + 1) input"
      by (simp add: Cons_nth_drop_Suc)
    then show ?thesis
      using 1 True by (simp add: count_digits.simps [of input pos] is_digit_def Let_def)
  qed (simp add: count_digits.simps [of input pos])
qed

section \<open>A description without positions\<close>

text \<open>
  What follows a PRI looks like RFC 3164 if it starts with a letter, a space or a star, with a zero,
  with more than three digits, or with a number and a colon (a Cisco message counter).
\<close>

definition counter_like :: "bytes \<Rightarrow> bool" where
  "counter_like rest \<longleftrightarrow>
     (case rest of
        [] \<Rightarrow> False
      | b # _ \<Rightarrow>
          in_range 65 90 b \<or> in_range 97 122 b \<or> b \<in> {32, 42, 48} \<or>
          is_digit b \<and>
            (length (takeWhile is_digit rest) > 3 \<or> take 1 (dropWhile is_digit rest) = [58]))"

text \<open>Without a PRI: a month's name and a space, or four digits and a dash (a year).\<close>

definition date_like :: "bytes \<Rightarrow> bool" where
  "date_like input \<longleftrightarrow>
     (\<exists>mo\<in>set month_prefixes. take 4 input = mo @ [32]) \<or>
     (length input \<ge> 5 \<and> list_all is_digit (take 4 input) \<and> input ! 4 = 45)"

definition detect_spec :: "bytes \<Rightarrow> Format" where
  "detect_spec input =
     (if (if take 1 input = [60] \<and> 62 \<in> set input
          then counter_like (tl (dropWhile (\<lambda>b. b \<noteq> 62) input)) else date_like input)
      then FormatRFC3164 else FormatRFC5424)"

lemma month_prefix_iff:
  "hasRFC3164MonthPrefix input \<longleftrightarrow> (\<exists>mo\<in>set month_prefixes. take 4 input = mo @ [32])"
proof -
  have three: "length mo = 3" if "mo \<in> set month_prefixes" for mo
    using that by (auto simp: month_prefixes_def)
  have "take 4 input = take 3 input @ [input ! 3]" if "length input \<ge> 4"
    using that take_Suc_conv_app_nth [of 3 input] by (simp add: eval_nat_numeral)
  then have "take 4 input = mo @ [32] \<longleftrightarrow> length input \<ge> 4 \<and> input ! 3 = 32 \<and> take 3 input = mo"
    if "mo \<in> set month_prefixes" for mo
    using three [OF that] by (cases "length input \<ge> 4") (auto dest: arg_cong [where f = length] simp: append_eq_conv_conj)
  then show ?thesis
    by (auto simp: hasRFC3164MonthPrefix_def)
qed

lemma detectWithoutPRI_eq: "detectWithoutPRI input = (if date_like input then FormatRFC3164 else FormatRFC5424)"
proof -
  have "list_all is_digit (take 4 input) \<longleftrightarrow> in_range 48 57 (input ! 0) \<and> in_range 48 57 (input ! 1) \<and>
      in_range 48 57 (input ! 2) \<and> in_range 48 57 (input ! 3)" if len: "length input \<ge> 5"
  proof -
    obtain a b c d r where "input = a # b # c # d # r"
      using len by (auto simp: Suc_le_length_iff eval_nat_numeral)
    then show ?thesis by (simp add: is_digit_def in_range_def)
  qed
  then show ?thesis
    by (auto simp: detectWithoutPRI_def date_like_def month_prefix_iff)
qed

lemma letter_not_digit: "in_range 65 90 b \<or> in_range 97 122 b \<Longrightarrow> \<not> is_digit b"
  by (auto simp: in_range_def is_digit_def word_le_nat_alt)

lemma count_from:
  assumes "is_digit b"
  shows "count_digits (pre @ b # r) (length pre + 1) 1 =
    (length pre + length (takeWhile is_digit (b # r)), length (takeWhile is_digit (b # r)))"
  using assms by (simp add: count_digits_eq Let_def)

lemma take_one_drop: "take 1 (drop n xs) = [c] \<longleftrightarrow> n < length xs \<and> xs ! n = c"
  by (cases "n < length xs") (simp_all add: Cons_nth_drop_Suc [symmetric])

lemma after_digits:
  "length pre + length (takeWhile P xs) < length (pre @ xs) \<and>
     (pre @ xs) ! (length pre + length (takeWhile P xs)) = c \<longleftrightarrow> take 1 (dropWhile P xs) = [c]"
  unfolding take_one_drop [symmetric] by (simp add: dropWhile_eq_drop)

text \<open>What the code decides once it stands after the closing bracket.\<close>

lemma detect_rest:
  assumes "input = pre @ rest" "length input \<noteq> 0" "input ! 0 = 60" "pre \<noteq> []"
    and "find_close input 0 = length pre - 1" "length pre - 1 < length input"
  shows "detect input = (if counter_like rest then FormatRFC3164 else FormatRFC5424)"
proof (cases rest)
  case Nil
  then show ?thesis
    using assms by (cases pre) (simp_all add: detect_def counter_like_def Let_def)
next
  case (Cons b r)
  have b: "input ! length pre = b" and pos: "length pre - 1 + 1 = length pre" "length pre < length input"
    using assms Cons by auto
  have num: "is_digit b \<longleftrightarrow> b = 48 \<or> in_range 49 57 b"
    by (auto simp: is_digit_def in_range_def word_le_nat_alt word_unat_eq_iff)
  have after: "length pre + length (takeWhile is_digit rest) < length input \<and>
      input ! (length pre + length (takeWhile is_digit rest)) = c \<longleftrightarrow> take 1 (dropWhile is_digit rest) = [c]" for c
    using after_digits [of pre is_digit rest c] assms(1) by simp
  have count: "count_digits input (length pre + 1) 1 =
      (length pre + length (takeWhile is_digit rest), length (takeWhile is_digit rest))" if "in_range 49 57 b"
    using count_from [of b pre r] that assms(1) num Cons by simp
  have unfold: "detect input = (if in_range 65 90 b \<or> in_range 97 122 b \<or> b = 32 \<or> b = 42 then FormatRFC3164
      else if b = 48 then FormatRFC3164
      else if in_range 49 57 b then
        (if length (takeWhile is_digit rest) > 3 then FormatRFC3164
         else if take 1 (dropWhile is_digit rest) = [32] then FormatRFC5424
         else if take 1 (dropWhile is_digit rest) = [58] then FormatRFC3164 else FormatRFC5424)
      else FormatRFC5424)"
    using assms(2-6) pos b count after by (simp add: detect_def Let_def)
  show ?thesis
    unfolding unfold counter_like_def using Cons num letter_not_digit [of b] by auto
qed

lemma detect_is_spec: "detect input = detect_spec input"
proof (cases "\<exists>r. input = 60 # r")
  case False
  then have "detect input = detectWithoutPRI input"
    by (cases input) (auto simp: detect_def)
  then show ?thesis
    using False by (cases input) (auto simp: detect_spec_def detectWithoutPRI_eq)
next
  case True
  then obtain r where r: "input = 60 # r" by blast
  let ?pri = "takeWhile (\<lambda>b. b \<noteq> 62) r"
  have close: "find_close input 0 = Suc (length ?pri)"
    using r by (simp add: find_close_eq)
  show ?thesis
  proof (cases "62 \<in> set r")
    case False
    then have "?pri = r"
      by (auto simp: takeWhile_eq_all_conv)
    then have "length ?pri = length r"
      by (simp only:)
    then have "detect input = detectWithoutPRI input"
      using r close unfolding detect_def by (simp only: Let_def) simp
    then show ?thesis
      using r False by (simp add: detect_spec_def detectWithoutPRI_eq)
  next
    case True
    then obtain rest where dw: "dropWhile (\<lambda>b. b \<noteq> 62) r = 62 # rest"
      using hd_dropWhile [of "\<lambda>b. b \<noteq> 62" r]
      by (cases "dropWhile (\<lambda>b. b \<noteq> 62) r") (auto simp: dropWhile_eq_Nil_conv)
    then have split: "r = ?pri @ 62 # rest"
      using takeWhile_dropWhile_id [of "\<lambda>b. b \<noteq> 62" r] by simp
    then have len: "length ?pri < length r"
      using arg_cong [OF split, of length] unfolding length_append by (simp del: length_takeWhile_le)
    from split have "input = (60 # ?pri @ [62]) @ rest"
      using r by simp
    then have "detect input = (if counter_like rest then FormatRFC3164 else FormatRFC5424)"
      by (rule detect_rest) (use r close len in simp_all)
    then show ?thesis
      using r True dw by (simp add: detect_spec_def)
  qed
qed

text \<open>After a PRI the rest alone decides.\<close>

lemma detect_after_pri:
  assumes "62 \<notin> set pri"
  shows "detect (60 # pri @ 62 # rest) = (if counter_like rest then FormatRFC3164 else FormatRFC5424)"
proof -
  have "dropWhile (\<lambda>b. b \<noteq> 62) (pri @ 62 # rest) = 62 # rest"
    using assms by (induction pri) auto
  then show ?thesis
    by (simp add: detect_is_spec detect_spec_def)
qed

text \<open>
  C31: The classification by positions, with its loops over the closing bracket and the digits, is the
  description without positions: behind a PRI a letter, a space, a star, a zero, more than three
  digits, or a number with a colon means RFC 3164; without one a month's name or a year with a dash
  does. Everything else is RFC 5424, and no input is of an unknown format.
\<close>

theorem detect_correct: "detect input = detect_spec input"
  by (rule detect_is_spec)

end
