(* ===== verification/Auto_Machine.thy ===== *)
theory Auto_Machine
  imports Auto_Detect RFC5424_Parser RFC3164_Parser "HOL-Library.Monad_Syntax"
begin

text \<open>
  Package auto: the machine that classifies an input, tries the parser of its format, then the other
  one, then the first one in best-effort mode (machine.go), its options (options.go), the error of a
  complete failure (errors.go) and the format of a parsed message (format.go). It meets the contract
  of a machine that always gives a message or an error.
\<close>

section \<open>Messages and errors\<close>

text \<open>
  The dynamic types that a \<open>syslog.Message\<close> and an \<open>error\<close> of the inner machines have;
  \<open>MsgOther\<close> stands for every other implementation of the interface.
\<close>

type_synonym machine3164 = RFC3164_Machine.machine
type_synonym machine5424 = RFC5424_Machine.machine

datatype auto_message =
    Msg3164 RFC3164_Message.SyslogMessage
  | Msg5424 RFC5424_Message.SyslogMessage
  | MsgOther

datatype inner_error = Err3164 RFC3164_Machine.perror | Err5424 RFC5424_Machine.perror

record ParseError =
  pe_Err :: "inner_error option"
  pe_RawMessage :: bytes

datatype auto_error = Inner inner_error | Failed ParseError

text \<open>\<open>Error\<close> prints the inner error, or \<open><nil>\<close>, as the verb \<open>%v\<close> does.\<close>

definition ParseError_Error :: "(inner_error \<Rightarrow> bytes) \<Rightarrow> ParseError \<Rightarrow> bytes" where
  "ParseError_Error render e =
     lit ''auto-detect parse failed: '' @ (case pe_Err e of None \<Rightarrow> lit ''<nil>'' | Some x \<Rightarrow> render x)"

definition ParseError_Unwrap :: "ParseError \<Rightarrow> inner_error option" where
  "ParseError_Unwrap e = pe_Err e"

definition DetectFormat :: "auto_message option \<Rightarrow> Format" where
  "DetectFormat msg =
     (case msg of
        None \<Rightarrow> FormatUnknown
      | Some (Msg3164 _) \<Rightarrow> FormatRFC3164
      | Some (Msg5424 _) \<Rightarrow> FormatRFC5424
      | Some MsgOther \<Rightarrow> FormatUnknown)"

section \<open>Options of the inner machines\<close>

text \<open>
  A \<open>syslog.MachineOption\<close> is a function of an interface: what it does to a machine of each of the
  two packages. \<open>None\<close> is the panic of a failed type assertion; the options of the packages fail
  before they change anything.
\<close>

record MachineOption =
  on3164 :: "machine3164 \<Rightarrow> machine3164 option"
  on5424 :: "machine5424 \<Rightarrow> machine5424 option"

definition option3164 :: "(machine3164 \<Rightarrow> machine3164) \<Rightarrow> MachineOption" where
  "option3164 f = \<lparr>on3164 = (\<lambda>m. Some (f m)), on5424 = (\<lambda>m. None)\<rparr>"

definition option5424 :: "(machine5424 \<Rightarrow> machine5424) \<Rightarrow> MachineOption" where
  "option5424 f = \<lparr>on3164 = (\<lambda>m. None), on5424 = (\<lambda>m. Some (f m))\<rparr>"

text \<open>\<open>WithBestEffort\<close> of either package calls the method of the interface.\<close>

definition option_WithBestEffort :: MachineOption where
  "option_WithBestEffort =
     \<lparr>on3164 = (\<lambda>m. Some (RFC3164_Machine.WithBestEffort m)),
      on5424 = (\<lambda>m. Some (RFC5424_Parser.WithBestEffort m))\<rparr>"

fun apply_options :: "('m \<Rightarrow> 'm option) list \<Rightarrow> 'm \<Rightarrow> 'm option" where
  "apply_options [] m = Some m"
| "apply_options (opt # opts) m = opt m \<bind> apply_options opts"

definition new3164 :: "MachineOption list \<Rightarrow> machine3164 option" where
  "new3164 opts = apply_options (map on3164 opts) (RFC3164_Machine.NewMachine [])"

definition new5424 :: "MachineOption list \<Rightarrow> machine5424 option" where
  "new5424 opts = apply_options (map on5424 opts) (RFC5424_Machine.NewMachine [])"

definition safe_option :: "MachineOption \<Rightarrow> MachineOption" where
  "safe_option opt =
     \<lparr>on3164 = (\<lambda>m. Some (case on3164 opt m of None \<Rightarrow> m | Some r \<Rightarrow> r)),
      on5424 = (\<lambda>m. Some (case on5424 opt m of None \<Rightarrow> m | Some r \<Rightarrow> r))\<rparr>"

definition SafeMachineOptions :: "MachineOption list \<Rightarrow> MachineOption list" where
  "SafeMachineOptions opts = map safe_option opts"

definition enablesBE :: "MachineOption \<Rightarrow> bool" where
  "enablesBE opt =
     (case on5424 opt (RFC5424_Machine.NewMachine []) of
        None \<Rightarrow> False
      | Some probe \<Rightarrow> RFC5424_Machine.machine_HasBestEffort probe)"

definition filterBestEffort :: "MachineOption list \<Rightarrow> MachineOption list" where
  "filterBestEffort opts = filter (\<lambda>opt. \<not> enablesBE opt) opts"

section \<open>The machine\<close>

record machine =
  a_rfc3164Opts :: "MachineOption list"
  a_rfc5424Opts :: "MachineOption list"
  a_noFallback :: bool
  a_bestEffort :: bool
  a_m3164 :: machine3164
  a_m5424 :: machine5424
  a_m3164BE :: "machine3164 option"
  a_m5424BE :: "machine5424 option"

text \<open>Before the constructor sets them the inner machines are nil; a fresh machine stands there.\<close>

definition auto_zero :: machine where
  "auto_zero =
     \<lparr>a_rfc3164Opts = [], a_rfc5424Opts = [], a_noFallback = False, a_bestEffort = False,
      a_m3164 = RFC3164_Machine.NewMachine [], a_m5424 = RFC5424_Machine.NewMachine [],
      a_m3164BE = None, a_m5424BE = None\<rparr>"

definition WithRFC3164Options :: "MachineOption list \<Rightarrow> machine \<Rightarrow> machine" where
  "WithRFC3164Options opts m = m\<lparr>a_rfc3164Opts := a_rfc3164Opts m @ opts\<rparr>"

definition WithRFC5424Options :: "MachineOption list \<Rightarrow> machine \<Rightarrow> machine" where
  "WithRFC5424Options opts m = m\<lparr>a_rfc5424Opts := a_rfc5424Opts m @ opts\<rparr>"

definition WithoutFallback :: "machine \<Rightarrow> machine" where
  "WithoutFallback m = m\<lparr>a_noFallback := True\<rparr>"

text \<open>\<open>None\<close> is the panic of an option that does not fit the machine it is applied to.\<close>

definition NewMachine :: "(machine \<Rightarrow> machine) list \<Rightarrow> machine option" where
  "NewMachine opts = do {
     let m = fold (\<lambda>opt m. opt m) opts auto_zero;
     x \<leftarrow> new3164 (a_rfc3164Opts m);
     y \<leftarrow> new5424 (a_rfc5424Opts m);
     let m = m\<lparr>a_m3164 := x, a_m5424 := y\<rparr>;
     if RFC3164_Machine.machine_HasBestEffort x \<or> RFC5424_Machine.machine_HasBestEffort y then do {
       let m = m\<lparr>a_bestEffort := True,
         a_m3164BE := Some (if \<not> RFC3164_Machine.machine_HasBestEffort x
           then RFC3164_Machine.machine_WithBestEffort x else x),
         a_m5424BE := Some (if \<not> RFC5424_Machine.machine_HasBestEffort y
           then RFC5424_Machine.machine_WithBestEffort y else y)\<rparr>;
       x \<leftarrow> new3164 (filterBestEffort (a_rfc3164Opts m));
       y \<leftarrow> new5424 (filterBestEffort (a_rfc5424Opts m));
       Some (m\<lparr>a_m3164 := x, a_m5424 := y\<rparr>)
     } else Some m
   }"

definition WithBestEffort :: "machine \<Rightarrow> machine option" where
  "WithBestEffort m =
     (if a_bestEffort m then Some m
      else do {
        let m = m\<lparr>a_bestEffort := True\<rparr>;
        x \<leftarrow> new3164 (a_rfc3164Opts m);
        y \<leftarrow> new5424 (a_rfc5424Opts m);
        Some (m\<lparr>a_m3164BE := Some (RFC3164_Machine.machine_WithBestEffort x),
          a_m5424BE := Some (RFC5424_Machine.machine_WithBestEffort y)\<rparr>)
      })"

definition HasBestEffort :: "machine \<Rightarrow> bool" where
  "HasBestEffort m = a_bestEffort m"

text \<open>A call of each inner machine, with its message and error as values of the interfaces.\<close>

type_synonym inner_result = "auto_message option \<times> inner_error option"

definition lift3164 ::
    "RFC3164_Message.SyslogMessage option \<times> RFC3164_Machine.perror option \<Rightarrow> inner_result" where
  "lift3164 = map_prod (map_option Msg3164) (map_option Err3164)"

definition lift5424 ::
    "RFC5424_Message.SyslogMessage option \<times> RFC5424_Machine.perror option \<Rightarrow> inner_result" where
  "lift5424 = map_prod (map_option Msg5424) (map_option Err5424)"

definition parse3164 :: "bytes \<Rightarrow> machine \<Rightarrow> (machine \<times> inner_result) option" where
  "parse3164 input m = do {
     (x, r) \<leftarrow> RFC3164_Run.Parse (a_m3164 m) input;
     Some (m\<lparr>a_m3164 := x\<rparr>, lift3164 r) }"

definition parse5424 :: "bytes \<Rightarrow> machine \<Rightarrow> (machine \<times> inner_result) option" where
  "parse5424 input m = do {
     (x, r) \<leftarrow> RFC5424_Machine.Parse (a_m5424 m) input;
     Some (m\<lparr>a_m5424 := x\<rparr>, lift5424 r) }"

definition parse3164BE :: "bytes \<Rightarrow> machine \<Rightarrow> (machine \<times> inner_result) option" where
  "parse3164BE input m = do {
     be \<leftarrow> a_m3164BE m;
     (x, r) \<leftarrow> RFC3164_Run.Parse be input;
     Some (m\<lparr>a_m3164BE := Some x\<rparr>, lift3164 r) }"

definition parse5424BE :: "bytes \<Rightarrow> machine \<Rightarrow> (machine \<times> inner_result) option" where
  "parse5424BE input m = do {
     be \<leftarrow> a_m5424BE m;
     (x, r) \<leftarrow> RFC5424_Machine.Parse be input;
     Some (m\<lparr>a_m5424BE := Some x\<rparr>, lift5424 r) }"

text \<open>The three steps of \<open>Parse\<close> on the parsers that detection chose.\<close>

definition tiers ::
    "(machine \<Rightarrow> (machine \<times> inner_result) option) \<Rightarrow> (machine \<Rightarrow> (machine \<times> inner_result) option) \<Rightarrow>
     (machine \<Rightarrow> (machine \<times> inner_result) option) \<Rightarrow> machine \<Rightarrow> bytes \<Rightarrow>
     (machine \<times> auto_message option \<times> auto_error option) option" where
  "tiers primary secondary bePrimary m input = do {
     (m, msg, err) \<leftarrow> primary m;
     if msg \<noteq> None then Some (m, msg, map_option Inner err) else do {
     (m, fbMsg, fbErr) \<leftarrow> (if \<not> a_noFallback m then secondary m else Some (m, None, None));
     if fbMsg \<noteq> None then Some (m, fbMsg, map_option Inner fbErr) else do {
     (m, beMsg, beErr) \<leftarrow> (if a_bestEffort m then bePrimary m else Some (m, None, None));
     if beMsg \<noteq> None then Some (m, beMsg, map_option Inner beErr)
     else Some (m, None, Some (Failed \<lparr>pe_Err = err, pe_RawMessage = input\<rparr>)) }}}"

definition Parse :: "machine \<Rightarrow> bytes \<Rightarrow> (machine \<times> auto_message option \<times> auto_error option) option" where
  "Parse m input =
     (if detect input = FormatRFC5424
      then tiers (parse5424 input) (parse3164 input) (parse5424BE input) m input
      else tiers (parse3164 input) (parse5424 input) (parse3164BE input) m input)"

end
