(* ===== verification/Auto_Answers.thy ===== *)
theory Auto_Answers
  imports Auto_Machine
begin

text \<open>
  What the detecting machine answers: the first of its attempts that gives a message, or the error of
  the first attempt with the raw input. Its constructor makes the states on which it keeps the
  contract of a machine that always gives a message or an error.
\<close>

section \<open>Attempts\<close>

definition r3164 :: "machine3164 \<Rightarrow> bytes \<Rightarrow> inner_result" where
  "r3164 x input = lift3164 (the (answer RFC3164_Parser.machine_methods x input))"

definition r5424 :: "machine5424 \<Rightarrow> bytes \<Rightarrow> inner_result" where
  "r5424 y input = lift5424 (the (answer RFC5424_Parser.machine_methods y input))"

text \<open>The parsers to try, in order: strict, the other one strict, best effort.\<close>

definition attempts :: "machine \<Rightarrow> bytes \<Rightarrow> inner_result list" where
  "attempts m input =
     (let is5424 = (detect input = FormatRFC5424);
          x = r3164 (a_m3164 m) input;
          y = r5424 (a_m5424 m) input
      in (if is5424 then y else x) # (if a_noFallback m then [] else [if is5424 then x else y]) @
         (if a_bestEffort m
          then [if is5424 then r5424 (the (a_m5424BE m)) input else r3164 (the (a_m3164BE m)) input]
          else []))"

definition first_message :: "bytes \<Rightarrow> inner_result list \<Rightarrow> auto_message option \<times> auto_error option" where
  "first_message input rs =
     (case find (\<lambda>r. fst r \<noteq> None) rs of
        Some (msg, err) \<Rightarrow> (msg, map_option Inner err)
      | None \<Rightarrow> (None, Some (Failed \<lparr>pe_Err = snd (hd rs), pe_RawMessage = input\<rparr>)))"

section \<open>Well-formed machines\<close>

text \<open>
  The strict machines are strict, the best-effort machines exist when they are needed and are in that
  mode, and the options can be applied again.
\<close>

definition machine_wf :: "machine \<Rightarrow> bool" where
  "machine_wf m \<longleftrightarrow>
     \<not> RFC3164_Machine.machine_HasBestEffort (a_m3164 m) \<and>
     \<not> RFC5424_Machine.machine_HasBestEffort (a_m5424 m) \<and>
     new3164 (a_rfc3164Opts m) \<noteq> None \<and> new5424 (a_rfc5424Opts m) \<noteq> None \<and>
     (a_bestEffort m \<longrightarrow>
       (\<exists>x y. a_m3164BE m = Some x \<and> RFC3164_Machine.machine_HasBestEffort x \<and>
          a_m5424BE m = Some y \<and> RFC5424_Machine.machine_HasBestEffort y))"

text \<open>Machines that differ only in what parsing leaves behind.\<close>

definition same :: "machine \<Rightarrow> machine \<Rightarrow> bool" where
  "same m m' \<longleftrightarrow>
     a_rfc3164Opts m' = a_rfc3164Opts m \<and> a_rfc5424Opts m' = a_rfc5424Opts m \<and>
     a_noFallback m' = a_noFallback m \<and> a_bestEffort m' = a_bestEffort m \<and>
     machine3164.like (a_m3164 m) (a_m3164 m') \<and> machine5424.like (a_m5424 m) (a_m5424 m') \<and>
     rel_option machine3164.like (a_m3164BE m) (a_m3164BE m') \<and>
     rel_option machine5424.like (a_m5424BE m) (a_m5424BE m')"

lemma inner_like_refl: "machine3164.like x x" "machine5424.like y y"
  by (simp_all add: machine3164.like_refl machine5424.like_refl)

lemma rel_like_refl [simp]: "rel_option machine3164.like z z" "rel_option machine5424.like w w"
  by (simp_all add: option.rel_refl inner_like_refl)

lemma same_refl: "same m m"
  by (simp add: same_def inner_like_refl)

lemma like_mode:
  "machine3164.like x x' \<Longrightarrow> RFC3164_Machine.machine_HasBestEffort x' = RFC3164_Machine.machine_HasBestEffort x"
  "machine5424.like y y' \<Longrightarrow> RFC5424_Machine.machine_HasBestEffort y' = RFC5424_Machine.machine_HasBestEffort y"
  using machine3164.likeD(3) [of x x'] machine5424.likeD(3) [of y y'] by simp_all

lemma rel_option_trans:
  "rel_option R a b \<Longrightarrow> rel_option R b c \<Longrightarrow> (\<And>x y z. R x y \<Longrightarrow> R y z \<Longrightarrow> R x z) \<Longrightarrow> rel_option R a c"
  by (cases a; cases b; cases c) auto

lemma same_trans: "same m1 m2 \<Longrightarrow> same m2 m3 \<Longrightarrow> same m1 m3"
  unfolding same_def
  by (elim conjE, intro conjI)
    (simp_all, (blast intro: machine3164.like_trans machine5424.like_trans
      rel_option_trans [where R = machine3164.like] rel_option_trans [where R = machine5424.like])+)

lemma same_machine_wf: "same m m' \<Longrightarrow> machine_wf m \<Longrightarrow> machine_wf m'"
  by (auto simp: same_def machine_wf_def option_rel_Some1 like_mode)

lemma r3164_like: "machine3164.like x x' \<Longrightarrow> r3164 x' = r3164 x"
  by (rule ext) (simp add: r3164_def machine3164.likeD(2))

lemma r5424_like: "machine5424.like y y' \<Longrightarrow> r5424 y' = r5424 y"
  by (rule ext) (simp add: r5424_def machine5424.likeD(2))


lemma same_answers:
  assumes "same m m'"
  shows "r3164 (a_m3164 m') = r3164 (a_m3164 m)" "r5424 (a_m5424 m') = r5424 (a_m5424 m)"
    "a_m3164BE m = Some x \<Longrightarrow> r3164 (the (a_m3164BE m')) = r3164 x"
    "a_m5424BE m = Some y \<Longrightarrow> r5424 (the (a_m5424BE m')) = r5424 y"
  using assms by (auto simp: same_def option_rel_Some1 r3164_like r5424_like)

lemma attempts_same:
  assumes "same m m'" "machine_wf m"
  shows "attempts m' = attempts m"
proof (rule ext)
  fix input
  have flags: "a_noFallback m' = a_noFallback m" "a_bestEffort m' = a_bestEffort m"
    using assms(1) by (simp_all add: same_def)
  show "attempts m' input = attempts m input"
  proof (cases "a_bestEffort m")
    case True
    then obtain x y where "a_m3164BE m = Some x" "a_m5424BE m = Some y"
      using assms(2) by (auto simp: machine_wf_def)
    then show ?thesis
      using same_answers [OF assms(1)] by (simp add: attempts_def flags Let_def)
  qed (use same_answers(1,2) [OF assms(1)] in \<open>simp add: attempts_def flags\<close>)
qed

section \<open>A call\<close>

lemma parse3164_run: "\<exists>q. parse3164 input m = Some (q, r3164 (a_m3164 m) input) \<and> same m q"
proof -
  obtain x msg err where "RFC3164_Run.Parse (a_m3164 m) input = Some (x, msg, err)"
    "answer RFC3164_Parser.machine_methods (a_m3164 m) input = Some (msg, err)"
    "machine3164.like (a_m3164 m) x"
    using machine3164.parse_cases [OF TrueI, of "a_m3164 m" input] by auto
  then show ?thesis
    by (auto simp: parse3164_def r3164_def same_def inner_like_refl)
qed

lemma parse5424_run: "\<exists>q. parse5424 input m = Some (q, r5424 (a_m5424 m) input) \<and> same m q"
proof -
  obtain x msg err where "RFC5424_Machine.Parse (a_m5424 m) input = Some (x, msg, err)"
    "answer RFC5424_Parser.machine_methods (a_m5424 m) input = Some (msg, err)"
    "machine5424.like (a_m5424 m) x"
    using machine5424.parse_cases [OF TrueI, of "a_m5424 m" input] by auto
  then show ?thesis
    by (auto simp: parse5424_def r5424_def same_def inner_like_refl)
qed

lemma parse3164BE_run:
  assumes "a_m3164BE m = Some be"
  shows "\<exists>q. parse3164BE input m = Some (q, r3164 be input) \<and> same m q"
proof -
  obtain x msg err where "RFC3164_Run.Parse be input = Some (x, msg, err)"
    "answer RFC3164_Parser.machine_methods be input = Some (msg, err)" "machine3164.like be x"
    using machine3164.parse_cases [OF TrueI, of be input] by auto
  then show ?thesis
    using assms by (auto simp: parse3164BE_def r3164_def same_def inner_like_refl)
qed

lemma parse5424BE_run:
  assumes "a_m5424BE m = Some be"
  shows "\<exists>q. parse5424BE input m = Some (q, r5424 be input) \<and> same m q"
proof -
  obtain x msg err where "RFC5424_Machine.Parse be input = Some (x, msg, err)"
    "answer RFC5424_Parser.machine_methods be input = Some (msg, err)" "machine5424.like be x"
    using machine5424.parse_cases [OF TrueI, of be input] by auto
  then show ?thesis
    using assms by (auto simp: parse5424BE_def r5424_def same_def inner_like_refl)
qed

text \<open>The three steps, for parsers that answer the same on every machine like the first.\<close>

lemma tiers_answer:
  assumes p: "\<And>q. same m q \<Longrightarrow> \<exists>q'. primary q = Some (q', p) \<and> same q q'"
    and s: "\<And>q. same m q \<Longrightarrow> \<exists>q'. secondary q = Some (q', s) \<and> same q q'"
    and b: "\<And>q. same m q \<Longrightarrow> a_bestEffort m \<Longrightarrow> \<exists>q'. bePrimary q = Some (q', b) \<and> same q q'"
  shows "\<exists>q. tiers primary secondary bePrimary m input = Some (q, first_message input
      (p # (if a_noFallback m then [] else [s]) @ (if a_bestEffort m then [b] else []))) \<and> same m q"
proof -
  obtain m1 where m1: "primary m = Some (m1, p)" "same m m1"
    using p [OF same_refl] by blast
  obtain m2 where m2: "(if \<not> a_noFallback m1 then secondary m1 else Some (m1, None, None)) =
      Some (m2, if a_noFallback m then (None, None) else s)" "same m m2"
    using s [OF m1(2)] m1(2) same_trans [OF m1(2)] by (auto simp: same_def)
  obtain m3 where m3: "(if a_bestEffort m2 then bePrimary m2 else Some (m2, None, None)) =
      Some (m3, if a_bestEffort m then b else (None, None))" "same m m3"
    using b [OF m2(2)] m2(2) same_trans [OF m2(2)] by (auto simp: same_def)
  show ?thesis
    unfolding tiers_def m1(1) using m1(2) m2 m3
    by (cases p; cases s; cases b)
      (auto simp: first_message_def split: if_splits option.splits)
qed

lemma Parse_attempts:
  assumes "machine_wf m"
  shows "\<exists>q. Parse m input = Some (q, first_message input (attempts m input)) \<and> same m q"
proof -
  have runs: "same m q \<Longrightarrow> \<exists>q'. parse3164 input q = Some (q', r3164 (a_m3164 m) input) \<and> same q q'"
      "same m q \<Longrightarrow> \<exists>q'. parse5424 input q = Some (q', r5424 (a_m5424 m) input) \<and> same q q'" for q
    using parse3164_run [of input q] parse5424_run [of input q] same_answers(1,2) [of m q] by simp_all
  have be: "\<exists>q'. parse3164BE input q = Some (q', r3164 (the (a_m3164BE m)) input) \<and> same q q'"
      "\<exists>q'. parse5424BE input q = Some (q', r5424 (the (a_m5424BE m)) input) \<and> same q q'"
    if q: "same m q" "a_bestEffort m" for q
  proof -
    obtain x y x' y' where "a_m3164BE m = Some x" "a_m5424BE m = Some y"
        "a_m3164BE q = Some x'" "machine3164.like x x'" "a_m5424BE q = Some y'" "machine5424.like y y'"
      using assms q by (auto simp: machine_wf_def same_def option_rel_Some1)
    then show "\<exists>q'. parse3164BE input q = Some (q', r3164 (the (a_m3164BE m)) input) \<and> same q q'"
      "\<exists>q'. parse5424BE input q = Some (q', r5424 (the (a_m5424BE m)) input) \<and> same q q'"
      using parse3164BE_run [of q x' input] parse5424BE_run [of q y' input]
      by (simp_all add: r3164_like r5424_like)
  qed
  show ?thesis
  proof (cases "detect input = FormatRFC5424")
    case True
    then show ?thesis
      unfolding Parse_def attempts_def Let_def
      using tiers_answer [OF runs(2) runs(1) be(2), where input = input] by (simp only: if_True simp_thms)
  next
    case False
    then show ?thesis
      unfolding Parse_def attempts_def Let_def
      using tiers_answer [OF runs(1) runs(2) be(1), where input = input] by (simp only: if_False simp_thms)
  qed
qed

end
