(* ===== verification/Auto_Contract.thy ===== *)
theory Auto_Contract
  imports Auto_Answers
begin

text \<open>
  The options of the packages, what the constructor and \<open>WithBestEffort\<close> make of them, and the
  contract of the detecting machine.
\<close>

section \<open>Options of the packages\<close>

text \<open>
  An option of the packages fits the machines of its package only and keeps their mode, or enables
  best effort on both; \<open>SafeMachineOptions\<close> makes more of the same.
\<close>

inductive library_option :: "MachineOption \<Rightarrow> bool" where
  only3164: "(\<And>x. RFC3164_Machine.machine_HasBestEffort (f x) = RFC3164_Machine.machine_HasBestEffort x) \<Longrightarrow>
    library_option (option3164 f)"
| only5424: "(\<And>y. RFC5424_Machine.machine_HasBestEffort (g y) = RFC5424_Machine.machine_HasBestEffort y) \<Longrightarrow>
    library_option (option5424 g)"
| best_effort: "library_option option_WithBestEffort"
| safe: "library_option opt \<Longrightarrow> library_option (safe_option opt)"

lemma library_3164:
  "library_option (option3164 (RFC3164_Machine.WithYear now year))"
  "library_option (option3164 (RFC3164_Machine.WithTimezone loc))"
  "library_option (option3164 (RFC3164_Machine.WithLocaleTimezone loc))"
  "library_option (option3164 RFC3164_Machine.WithLenientDay)"
  "library_option (option3164 RFC3164_Machine.WithEmbeddedNewlines)"
  "library_option (option3164 RFC3164_Machine.WithRFC3339)"
  "library_option (option3164 RFC3164_Machine.WithOptionalPriority)"
  "library_option (option3164 RFC3164_Machine.WithSecondFractions)"
  "library_option (option3164 RFC3164_Machine.WithMessageCounter)"
  "library_option (option3164 RFC3164_Machine.WithSequenceNumber)"
  "library_option (option3164 RFC3164_Machine.WithCiscoHostname)"
  "library_option (option3164 (RFC3164_Machine.WithCiscoIOSComponents flags))"
  by (rule only3164, simp add: RFC3164_Machine.machine_HasBestEffort_def RFC3164_Machine.WithYear_def
      RFC3164_Machine.machine_WithYear_def RFC3164_Machine.WithTimezone_def
      RFC3164_Machine.machine_WithTimezone_def RFC3164_Machine.WithLocaleTimezone_def
      RFC3164_Machine.machine_WithLocaleTimezone_def RFC3164_Machine.WithLenientDay_def
      RFC3164_Machine.machine_WithLenientDay_def RFC3164_Machine.WithEmbeddedNewlines_def
      RFC3164_Machine.machine_WithEmbeddedNewlines_def RFC3164_Machine.WithRFC3339_def
      RFC3164_Machine.machine_WithRFC3339_def RFC3164_Machine.WithOptionalPriority_def
      RFC3164_Machine.machine_WithOptionalPriority_def RFC3164_Machine.WithSecondFractions_def
      RFC3164_Machine.machine_WithSecondFractions_def RFC3164_Machine.WithMessageCounter_def
      RFC3164_Machine.machine_WithMessageCounter_def RFC3164_Machine.WithSequenceNumber_def
      RFC3164_Machine.machine_WithSequenceNumber_def RFC3164_Machine.WithCiscoHostname_def
      RFC3164_Machine.machine_WithCiscoHostname_def WithCiscoIOSComponents_def Let_def)+

lemma library_5424:
  "library_option (option5424 RFC5424_Parser.WithCompliantMsg)"
  "library_option (option5424 RFC5424_Parser.WithOptionalPriority)"
  by (rule only5424, simp add: RFC5424_Machine.machine_HasBestEffort_def
      RFC5424_Parser.WithCompliantMsg_def RFC5424_Parser.WithOptionalPriority_def
      RFC5424_Machine.machine_WithOptionalPriority_def)+

text \<open>Whether an option can be applied to a machine of the package.\<close>

definition fits3164 :: "MachineOption \<Rightarrow> bool" where
  "fits3164 opt \<longleftrightarrow> (\<forall>x. on3164 opt x \<noteq> None)"

definition fits5424 :: "MachineOption \<Rightarrow> bool" where
  "fits5424 opt \<longleftrightarrow> (\<forall>y. on5424 opt y \<noteq> None)"

lemma option_fits [simp]:
  "fits3164 (option3164 f)" "fits5424 (option5424 g)"
  "fits3164 option_WithBestEffort" "fits5424 option_WithBestEffort"
  "fits3164 (safe_option opt)" "fits5424 (safe_option opt)"
  by (simp_all add: fits3164_def fits5424_def option3164_def option5424_def option_WithBestEffort_def
      safe_option_def)

lemma fresh_mode [simp]:
  "\<not> RFC3164_Machine.machine_HasBestEffort (RFC3164_Machine.NewMachine [])"
  "\<not> RFC5424_Machine.machine_HasBestEffort (RFC5424_Machine.NewMachine [])"
  by (simp_all add: RFC3164_Machine.NewMachine_def RFC5424_Machine.NewMachine_def
      RFC3164_Machine.machine_zero_def RFC5424_Machine.machine_zero_def
      RFC3164_Machine.machine_HasBestEffort_def RFC5424_Machine.machine_HasBestEffort_def)

lemma enablesBE_simps [simp]:
  "\<not> enablesBE (option3164 f)" "enablesBE option_WithBestEffort"
  "enablesBE (safe_option opt) = enablesBE opt"
  "enablesBE (option5424 g) \<longleftrightarrow> RFC5424_Machine.machine_HasBestEffort (g (RFC5424_Machine.NewMachine []))"
  by (simp_all add: enablesBE_def option3164_def option5424_def option_WithBestEffort_def safe_option_def
      RFC5424_Parser.WithBestEffort_def RFC5424_Machine.machine_WithBestEffort_def
      RFC5424_Machine.machine_HasBestEffort_def RFC5424_Machine.NewMachine_def
      RFC5424_Machine.machine_zero_def split: option.split)

lemma library_mode:
  assumes "library_option opt"
  shows "(\<forall>x x'. on3164 opt x = Some x' \<longrightarrow> RFC3164_Machine.machine_HasBestEffort x' =
      (RFC3164_Machine.machine_HasBestEffort x \<or> enablesBE opt)) \<and>
    (\<forall>y y'. on5424 opt y = Some y' \<longrightarrow> RFC5424_Machine.machine_HasBestEffort y' =
      (RFC5424_Machine.machine_HasBestEffort y \<or> enablesBE opt)) \<and>
    (enablesBE opt \<longrightarrow> fits3164 opt \<and> fits5424 opt)"
  using assms
proof (induction rule: library_option.induct)
  case (only3164 f)
  then show ?case by (auto simp: option3164_def enablesBE_def simp del: enablesBE_simps)
next
  case (only5424 g)
  then show ?case by (auto simp: option5424_def enablesBE_def simp del: enablesBE_simps)
next
  case best_effort
  show ?case
    by simp (auto simp: option_WithBestEffort_def RFC3164_Machine.WithBestEffort_def RFC3164_Machine.machine_WithBestEffort_def
        RFC3164_Machine.machine_HasBestEffort_def RFC5424_Parser.WithBestEffort_def
        RFC5424_Machine.machine_WithBestEffort_def RFC5424_Machine.machine_HasBestEffort_def)
next
  case (safe opt)
  have full: "on3164 opt x = None \<Longrightarrow> \<not> enablesBE opt" "on5424 opt y = None \<Longrightarrow> \<not> enablesBE opt" for x y
    using safe.IH unfolding fits3164_def fits5424_def by blast+
  show ?case
    using safe.IH by simp (auto simp: safe_option_def split: option.splits dest: full)
qed

lemmas library_modes =
  library_mode [THEN conjunct1, rule_format] library_mode [THEN conjunct2, THEN conjunct1, rule_format]

lemma apply_options_total: "\<forall>opt\<in>set opts. \<forall>x. opt x \<noteq> None \<Longrightarrow> apply_options opts x \<noteq> None"
  by (induction opts arbitrary: x) (auto simp: bind_eq_None_conv)

lemma new_total:
  "\<forall>opt\<in>set opts. fits3164 opt \<Longrightarrow> new3164 opts \<noteq> None"
  "\<forall>opt\<in>set opts. fits5424 opt \<Longrightarrow> new5424 opts \<noteq> None"
  unfolding new3164_def new5424_def fits3164_def fits5424_def
  by (rule apply_options_total, simp)+

lemma apply_mode3164:
  "\<forall>opt\<in>set opts. library_option opt \<Longrightarrow> apply_options (map on3164 opts) x = Some x' \<Longrightarrow>
    RFC3164_Machine.machine_HasBestEffort x' =
      (RFC3164_Machine.machine_HasBestEffort x \<or> (\<exists>opt\<in>set opts. enablesBE opt))"
  by (induction opts arbitrary: x) (fastforce simp: bind_eq_Some_conv dest: library_modes)+

lemma apply_mode5424:
  "\<forall>opt\<in>set opts. library_option opt \<Longrightarrow> apply_options (map on5424 opts) y = Some y' \<Longrightarrow>
    RFC5424_Machine.machine_HasBestEffort y' =
      (RFC5424_Machine.machine_HasBestEffort y \<or> (\<exists>opt\<in>set opts. enablesBE opt))"
  by (induction opts arbitrary: y) (fastforce simp: bind_eq_Some_conv dest: library_modes)+

lemma new_mode:
  "\<forall>opt\<in>set opts. library_option opt \<Longrightarrow> new3164 opts = Some x \<Longrightarrow>
    RFC3164_Machine.machine_HasBestEffort x = (\<exists>opt\<in>set opts. enablesBE opt)"
  "\<forall>opt\<in>set opts. library_option opt \<Longrightarrow> new5424 opts = Some y \<Longrightarrow>
    RFC5424_Machine.machine_HasBestEffort y = (\<exists>opt\<in>set opts. enablesBE opt)"
  unfolding new3164_def new5424_def by (simp_all add: apply_mode3164 apply_mode5424)

section \<open>The constructor\<close>

text \<open>The options of the package, which only fill in the configuration.\<close>

inductive auto_option :: "(machine \<Rightarrow> machine) \<Rightarrow> bool" where
  "auto_option (WithRFC3164Options opts)"
| "auto_option (WithRFC5424Options opts)"
| "auto_option WithoutFallback"

lemma auto_options_mode:
  "\<forall>opt\<in>set opts. auto_option opt \<Longrightarrow> a_bestEffort (fold (\<lambda>opt m. opt m) opts m) = a_bestEffort m"
proof (induction opts arbitrary: m)
  case (Cons opt opts)
  then have "a_bestEffort (opt m) = a_bestEffort m"
    by (auto simp: WithRFC3164Options_def WithRFC5424Options_def WithoutFallback_def
        elim!: auto_option.cases)
  then show ?case using Cons by simp
qed simp

lemma NewMachine_makes:
  assumes z: "z = fold (\<lambda>opt m. opt m) opts auto_zero" "\<forall>opt\<in>set opts. auto_option opt"
    and lib: "\<forall>opt\<in>set (a_rfc3164Opts z) \<union> set (a_rfc5424Opts z). library_option opt"
    and fits: "\<forall>opt\<in>set (a_rfc3164Opts z). fits3164 opt" "\<forall>opt\<in>set (a_rfc5424Opts z). fits5424 opt"
  shows "\<exists>m. NewMachine opts = Some m \<and> machine_wf m \<and>
    HasBestEffort m = (\<exists>opt\<in>set (a_rfc3164Opts z) \<union> set (a_rfc5424Opts z). enablesBE opt) \<and>
    a_noFallback m = a_noFallback z \<and>
    (\<not> HasBestEffort m \<longrightarrow> Some (a_m3164 m) = new3164 (a_rfc3164Opts z) \<and>
      Some (a_m5424 m) = new5424 (a_rfc5424Opts z))"
proof -
  have mode: "a_bestEffort z = False"
    using auto_options_mode [OF z(2)] z(1) by (simp add: auto_zero_def)
  let ?f3 = "filterBestEffort (a_rfc3164Opts z)" and ?f5 = "filterBestEffort (a_rfc5424Opts z)"
  have sub: "set ?f3 \<subseteq> set (a_rfc3164Opts z)" "set ?f5 \<subseteq> set (a_rfc5424Opts z)"
      "\<forall>opt\<in>set ?f3. \<not> enablesBE opt" "\<forall>opt\<in>set ?f5. \<not> enablesBE opt"
    by (auto simp: filterBestEffort_def)
  obtain x y where xy: "new3164 (a_rfc3164Opts z) = Some x" "new5424 (a_rfc5424Opts z) = Some y"
    using new_total fits by blast
  obtain x' y' where xy': "new3164 ?f3 = Some x'" "new5424 ?f5 = Some y'"
    using new_total [of ?f3] new_total [of ?f5] fits sub(1,2) by blast
  have m: "RFC3164_Machine.machine_HasBestEffort x = (\<exists>opt\<in>set (a_rfc3164Opts z). enablesBE opt)"
      "RFC5424_Machine.machine_HasBestEffort y = (\<exists>opt\<in>set (a_rfc5424Opts z). enablesBE opt)"
      "\<not> RFC3164_Machine.machine_HasBestEffort x'" "\<not> RFC5424_Machine.machine_HasBestEffort y'"
    using new_mode(1) [OF _ xy(1)] new_mode(2) [OF _ xy(2)] new_mode(1) [OF _ xy'(1)]
      new_mode(2) [OF _ xy'(2)] lib sub by auto
  have BE: "RFC3164_Machine.machine_HasBestEffort (RFC3164_Machine.machine_WithBestEffort x)"
      "RFC5424_Machine.machine_HasBestEffort (RFC5424_Machine.machine_WithBestEffort y)"
    by (simp_all add: RFC3164_Machine.machine_WithBestEffort_def RFC3164_Machine.machine_HasBestEffort_def
        RFC5424_Machine.machine_WithBestEffort_def RFC5424_Machine.machine_HasBestEffort_def)
  show ?thesis
    using xy xy' m BE mode
    by (auto simp: NewMachine_def z(1) [symmetric] machine_wf_def HasBestEffort_def)
qed

lemma WithBestEffort_makes:
  assumes "machine_wf m"
  shows "\<exists>m'. WithBestEffort m = Some m' \<and> machine_wf m' \<and> HasBestEffort m' \<and>
    a_m3164 m' = a_m3164 m \<and> a_m5424 m' = a_m5424 m \<and> a_noFallback m' = a_noFallback m"
  using assms
  by (auto simp: WithBestEffort_def machine_wf_def HasBestEffort_def
      RFC3164_Machine.machine_WithBestEffort_def RFC3164_Machine.machine_HasBestEffort_def
      RFC5424_Machine.machine_WithBestEffort_def RFC5424_Machine.machine_HasBestEffort_def)


lemma safe_options_ok:
  "\<forall>opt\<in>set opts. library_option opt \<Longrightarrow>
    opt \<in> set (SafeMachineOptions opts) \<Longrightarrow> library_option opt \<and> fits3164 opt \<and> fits5424 opt"
  by (auto simp: SafeMachineOptions_def intro: library_option.safe)

text \<open>The machine that the transports build: options for both parsers, then best effort if asked for.\<close>

lemma transport_machine:
  assumes lib: "\<forall>opt\<in>set o3 \<union> set o5. library_option opt"
    and fits: "\<forall>opt\<in>set o3. fits3164 opt" "\<forall>opt\<in>set o5. fits5424 opt"
  shows "\<exists>m1 m. NewMachine ([WithRFC3164Options o3, WithRFC5424Options o5] @
        (if nofb then [WithoutFallback] else [])) = Some m1 \<and>
    (if be then WithBestEffort m1 else Some m1) = Some m \<and> machine_wf m \<and>
    HasBestEffort m = (be \<or> (\<exists>opt\<in>set o3 \<union> set o5. enablesBE opt)) \<and>
    (\<not> HasBestEffort m \<longrightarrow> Some (a_m3164 m) = new3164 o3 \<and> Some (a_m5424 m) = new5424 o5)"
proof -
  let ?opts = "[WithRFC3164Options o3, WithRFC5424Options o5] @ (if nofb then [WithoutFallback] else [])"
  have z: "a_rfc3164Opts (fold (\<lambda>opt m. opt m) ?opts auto_zero) = o3"
      "a_rfc5424Opts (fold (\<lambda>opt m. opt m) ?opts auto_zero) = o5"
    by (simp_all add: WithRFC3164Options_def WithRFC5424Options_def WithoutFallback_def auto_zero_def)
  have "\<forall>opt\<in>set ?opts. auto_option opt"
    by (simp add: auto_option.intros)
  then obtain m where m: "NewMachine ?opts = Some m" "machine_wf m"
    "HasBestEffort m = (\<exists>opt\<in>set o3 \<union> set o5. enablesBE opt)"
    "\<not> HasBestEffort m \<Longrightarrow> Some (a_m3164 m) = new3164 o3 \<and> Some (a_m5424 m) = new5424 o5"
    using NewMachine_makes [OF refl, of ?opts, unfolded z] lib fits by blast
  then obtain m' where "WithBestEffort m = Some m'" "machine_wf m'" "HasBestEffort m'"
    using WithBestEffort_makes by blast
  then show ?thesis
    using m by (cases be) auto
qed

section \<open>The machine as a \<open>syslog.Machine\<close>\<close>

text \<open>
  The method \<open>WithBestEffort\<close> builds machines with the options again; on a well-formed machine that
  does not panic (\<open>WithBestEffort_makes\<close>).
\<close>

definition auto_methods :: "(machine, auto_message, auto_error) Machine" where
  "auto_methods =
     \<lparr>Parse_method = Parse,
      WithBestEffort_method = (\<lambda>m. case WithBestEffort m of None \<Rightarrow> m | Some m' \<Rightarrow> m'),
      HasBestEffort_method = HasBestEffort\<rparr>"

lemma auto_methods_simps [simp]:
  "Parse_method auto_methods = Parse"
  "WithBestEffort_method auto_methods m = (case WithBestEffort m of None \<Rightarrow> m | Some m' \<Rightarrow> m')"
  "HasBestEffort_method auto_methods = HasBestEffort"
  by (simp_all add: auto_methods_def)

lemma auto_answer:
  "machine_wf m \<Longrightarrow> answer auto_methods m input = Some (first_message input (attempts m input))"
  by (drule Parse_attempts [of m input]) (elim exE conjE, simp add: answer_def)

lemma Parse_attempts_cases:
  assumes "machine_wf m" "Parse m input = Some (m', r)"
  shows "r = first_message input (attempts m input)" "same m m'"
  using Parse_attempts [OF assms(1), of input] assms(2) by auto

lemma first_message_cases:
  assumes "first_message input rs = (msg, err)"
  obtains r where "r \<in> set rs" "fst r \<noteq> None" "msg = fst r" "err = map_option Inner (snd r)"
    | "\<forall>r\<in>set rs. fst r = None" "msg = None"
      "err = Some (Failed \<lparr>pe_Err = snd (hd rs), pe_RawMessage = input\<rparr>)"
proof (cases "find (\<lambda>r. fst r \<noteq> None) rs")
  case None
  then have "\<forall>r\<in>set rs. fst r = None" "msg = None"
      "err = Some (Failed \<lparr>pe_Err = snd (hd rs), pe_RawMessage = input\<rparr>)"
    using assms by (simp_all add: first_message_def) (auto simp: find_None_iff)
  then show ?thesis
    by (rule that(2))
next
  case (Some r)
  then have "r \<in> set rs" "fst r \<noteq> None"
    by (auto simp: find_Some_iff)
  then show ?thesis
    using that(1) [of r] Some assms by (auto simp: first_message_def split: prod.splits)
qed

lemma strict_results:
  "\<not> RFC3164_Machine.machine_HasBestEffort x \<Longrightarrow> fst (r3164 x input) = None \<or> snd (r3164 x input) = None"
  "\<not> RFC5424_Machine.machine_HasBestEffort y \<Longrightarrow> fst (r5424 y input) = None \<or> snd (r5424 y input) = None"
proof -
  obtain msg err where "answer RFC3164_Parser.machine_methods x input = Some (msg, err)"
    using machine3164.parse_cases [OF TrueI] by metis
  then show "\<not> RFC3164_Machine.machine_HasBestEffort x \<Longrightarrow>
      fst (r3164 x input) = None \<or> snd (r3164 x input) = None"
    using machine3164.answer_strict [of x input msg err] by (auto simp: r3164_def lift3164_def)
  obtain msg err where "answer RFC5424_Parser.machine_methods y input = Some (msg, err)"
    using machine5424.parse_cases [OF TrueI] by metis
  then show "\<not> RFC5424_Machine.machine_HasBestEffort y \<Longrightarrow>
      fst (r5424 y input) = None \<or> snd (r5424 y input) = None"
    using machine5424.answer_strict [of y input msg err] by (auto simp: r5424_def lift5424_def)
qed

lemma attempts_strict:
  assumes "machine_wf m" "\<not> a_bestEffort m" "r \<in> set (attempts m input)"
  shows "fst r = None \<or> snd r = None"
proof -
  have "r = r3164 (a_m3164 m) input \<or> r = r5424 (a_m5424 m) input"
    using assms(2,3) by (auto simp: attempts_def Let_def split: if_splits)
  then show ?thesis
    using assms(1) strict_results(1) [of "a_m3164 m" input] strict_results(2) [of "a_m5424 m" input]
    by (auto simp: machine_wf_def)
qed

interpretation auto: answering_machine auto_methods machine_wf
proof
  fix m m' input r msg err
  assume wf: "machine_wf m"
  show "Parse_method auto_methods m input \<noteq> None"
    using Parse_attempts [OF wf, of input] by auto
  show "machine_wf (WithBestEffort_method auto_methods m) \<and>
      HasBestEffort_method auto_methods (WithBestEffort_method auto_methods m)"
    using WithBestEffort_makes [OF wf] by auto
  show "machine_wf m'" if "Parse_method auto_methods m input = Some (m', r)"
    using Parse_attempts_cases(2) [OF wf] that same_machine_wf wf by simp blast
  show "HasBestEffort_method auto_methods m' = HasBestEffort_method auto_methods m"
    if "Parse_method auto_methods m input = Some (m', r)"
    using Parse_attempts_cases(2) [OF wf] that by (auto simp: same_def HasBestEffort_def)
  show "answer auto_methods m' = answer auto_methods m" if "Parse_method auto_methods m input = Some (m', r)"
  proof -
    have "same m m'"
      using Parse_attempts_cases(2) [OF wf] that by simp
    then show ?thesis
      using wf same_machine_wf attempts_same by (intro ext) (simp add: auto_answer)
  qed
  show "msg = None \<or> err = None"
    if "Parse_method auto_methods m input = Some (m', msg, err)" "\<not> HasBestEffort_method auto_methods m"
  proof -
    have "first_message input (attempts m input) = (msg, err)"
      using Parse_attempts_cases(1) [OF wf] that(1) by auto
    then show ?thesis
      by (cases rule: first_message_cases)
        (use attempts_strict [OF wf] that(2) in \<open>auto simp: HasBestEffort_def\<close>)
  qed
  show "err \<noteq> None" if "Parse_method auto_methods m input = Some (m', None, err)"
  proof -
    have "first_message input (attempts m input) = (None, err)"
      using Parse_attempts_cases(1) [OF wf] that by auto
    then show ?thesis
      by (cases rule: first_message_cases) auto
  qed
qed

end
