(* ===== verification/Auto_Properties.thy ===== *)
theory Auto_Properties
  imports RFC5424_Text RFC3164_Edge Auto_Contract
begin

text \<open>
  The detecting machine on well-formed messages of both formats, and its answer when every attempt
  fails.
\<close>

section \<open>Detection of well-formed messages\<close>

lemma digits_no_close: "list_all is_digit ds \<Longrightarrow> 62 \<notin> set ds"
  by (auto simp: list_all_iff is_digit_def)

lemma detect_digits:
  "detect (60 # dec_string n @ 62 # r) = (if counter_like r then FormatRFC3164 else FormatRFC5424)"
  by (intro detect_after_pri digits_no_close) (simp add: dec_string_digits)

lemma month_starts:
  assumes "stamp_ok mo d h mi s"
  obtains c r where "stamp_text z mo d h mi s = c # r" "in_range 65 90 c"
proof -
  have "\<exists>c r. stamp_text z mo d h mi s = c # r \<and> in_range 65 90 c"
    using stamp_ok_ranges(1,2) [OF assms]
    by (cases rule: month_cases) (simp_all add: stamp_text_def month_names_def in_range_def)
  then show ?thesis
    using that by blast
qed

lemma detect_3164:
  assumes "stamp_ok (f_month f) (f_day f) (f_hour f) (f_min f) (f_sec f)"
  shows "detect (60 # dec_string n @ 62 # stamp_of f @ r) = FormatRFC3164"
proof -
  obtain c r' where "stamp_of f = c # r'" "in_range 65 90 c"
    using month_starts [OF assms] by (metis stamp_of_def)
  then show ?thesis
    by (simp add: detect_digits counter_like_def)
qed

lemma detect_5424:
  assumes "message_wf sm"
  shows "detect (message_text sm) = FormatRFC5424"
proof -
  obtain t where t: "SyslogMessage_String sm = Inr t"
    using String_Parse_inverse [OF assms, of "RFC5424_Machine.NewMachine []"]
    by (auto simp: RFC5424_Machine.NewMachine_def RFC5424_Machine.machine_zero_def)
  obtain pr where pr: "Priority sm = Some pr"
    using assms by (auto simp: message_wf_def split: option.splits)
  have "\<exists>r. t = 60 # dec_string (unat pr) @ 62 # dec_string (unat (Version sm)) @ 32 # r"
    using t pr by (auto simp: SyslogMessage_String_def Let_def split: if_splits)
  then obtain r where shape: "t = 60 # dec_string (unat pr) @ 62 # dec_string (unat (Version sm)) @ 32 # r"
    by blast
  let ?v = "dec_string (unat (Version sm))"
  have v: "1 \<le> unat (Version sm)" "unat (Version sm) < 1000"
    using assms by (auto simp: message_wf_def ValidVersion_iff split: option.splits)
  have ds: "list_all is_digit ?v" "?v \<noteq> []" "length ?v \<le> 3" "hd ?v \<noteq> 48"
    using dec_string_digits [of "unat (Version sm)"] dec_string_length [of "unat (Version sm)" 2] v
      dec_string_hd [of "unat (Version sm)"] by auto
  then obtain b v' where b: "?v = b # v'"
    by (cases ?v) auto
  have "takeWhile is_digit (?v @ 32 # r) = ?v"
    by (rule takeWhile_stop [OF ds(1)]) (simp add: is_digit_def)
  moreover have "dropWhile is_digit (?v @ 32 # r) = 32 # r"
    using ds(1) by (subst dropWhile_append2) (simp_all add: list_all_iff is_digit_def)
  moreover have "\<not> in_range 65 90 b \<and> \<not> in_range 97 122 b \<and> b \<notin> {32, 42, 48}"
    using ds(1,4) b by (auto simp: is_digit_def in_range_def word_le_nat_alt)
  ultimately have "\<not> counter_like (?v @ 32 # r)"
    using ds(3) b by (simp add: counter_like_def)
  then show ?thesis
    using t shape by (simp add: message_text_def detect_digits)
qed

section \<open>Answers\<close>

lemma first_attempt:
  "detect input = FormatRFC5424 \<Longrightarrow> hd (attempts m input) = r5424 (a_m5424 m) input"
  "detect input \<noteq> FormatRFC5424 \<Longrightarrow> hd (attempts m input) = r3164 (a_m3164 m) input"
  by (simp_all add: attempts_def Let_def)

lemma first_message_hd:
  "fst (hd rs) \<noteq> None \<Longrightarrow> rs \<noteq> [] \<Longrightarrow> first_message input rs = (fst (hd rs), map_option Inner (snd (hd rs)))"
  by (cases rs) (auto simp: first_message_def split: prod.split)

lemma attempts_ne [simp]: "attempts m input \<noteq> []"
  by (simp add: attempts_def Let_def)

lemma auto_answer_5424:
  assumes "machine_wf m" "message_wf sm" "m_compliantMsg (a_m5424 m) \<longrightarrow> message_compliant sm"
  shows "answer auto_methods m (message_text sm) = Some (Some (Msg5424 sm), None)"
proof -
  have "hd (attempts m (message_text sm)) = (Some (Msg5424 sm), None)"
    using first_attempt(1) [OF detect_5424 [OF assms(2)]] message_text_answer(1) [OF assms(2,3)]
    by (simp add: r5424_def lift5424_def)
  then show ?thesis
    using first_message_hd [of "attempts m (message_text sm)"] by (simp add: auto_answer [OF assms(1)])
qed

lemma auto_answer_3164:
  assumes "machine_wf m" "wellformed_ok (m_newline (a_m3164 m)) f" "\<not> m_ciscoHostname (a_m3164 m)"
    and "f_zero f \<longrightarrow> m_lenientDay (a_m3164 m)"
  shows "answer auto_methods m (wellformed_text f) =
    Some (Some (Msg3164 (RFC3164_Correct.parsed (a_m3164 m) f)), None)"
proof -
  have "stamp_ok (f_month f) (f_day f) (f_hour f) (f_min f) (f_sec f)"
    using assms(2) by (simp add: wellformed_ok_def)
  then have "detect (wellformed_text f) = FormatRFC3164"
    by (simp add: wellformed_text_def detect_3164)
  then have "hd (attempts m (wellformed_text f)) =
      (Some (Msg3164 (RFC3164_Correct.parsed (a_m3164 m) f)), None)"
    using first_attempt(2) [of "wellformed_text f" m] Parse_wellformed [OF assms(2-4)]
    by (auto simp: r3164_def lift3164_def answer_def)
  then show ?thesis
    using first_message_hd [of "attempts m (wellformed_text f)"] by (simp add: auto_answer [OF assms(1)])
qed

lemma answer_Parse: "answer auto_methods m input = Some r \<longleftrightarrow> (\<exists>q. Auto_Machine.Parse m input = Some (q, r))"
  by (cases r) (auto simp: answer_def)

text \<open>The messages of both formats that the machine is sure to parse.\<close>

datatype payload = Legacy wellformed | Modern RFC5424_Message.SyslogMessage

fun payload_text :: "payload \<Rightarrow> bytes" where
  "payload_text (Legacy f) = wellformed_text f"
| "payload_text (Modern sm) = message_text sm"

fun payload_message :: "machine3164 \<Rightarrow> payload \<Rightarrow> auto_message" where
  "payload_message x (Legacy f) = Msg3164 (RFC3164_Correct.parsed x f)"
| "payload_message x (Modern sm) = Msg5424 sm"

fun payload_ok :: "machine3164 \<Rightarrow> machine5424 \<Rightarrow> payload \<Rightarrow> bool" where
  "payload_ok x y (Legacy f) \<longleftrightarrow>
     wellformed_ok (m_newline x) f \<and> \<not> m_ciscoHostname x \<and> (f_zero f \<longrightarrow> m_lenientDay x)"
| "payload_ok x y (Modern sm) \<longleftrightarrow> message_wf sm \<and> (m_compliantMsg y \<longrightarrow> message_compliant sm)"

lemma payload_answer:
  "machine_wf m \<Longrightarrow> payload_ok (a_m3164 m) (a_m5424 m) p \<Longrightarrow>
    answer auto_methods m (payload_text p) = Some (Some (payload_message (a_m3164 m) p), None)"
  by (cases p) (simp_all add: auto_answer_5424 auto_answer_3164)

lemma payload_starts: "payload_ok x y p \<Longrightarrow> \<exists>r. payload_text p = 60 # r"
proof (cases p)
  case (Modern sm)
  assume "payload_ok x y p"
  then show ?thesis
    using message_text_answer(2,3) [of sm y] Modern by (cases "message_text sm") auto
qed (simp add: wellformed_text_def)

text \<open>
  C27: The detecting machine answers with the first of its attempts that gives a message: the parser
  of the detected format, the other one unless fallback is off, and in best-effort mode the first one
  again in that mode. If none does, the answer is a ParseError with the input and the error of the
  first attempt. It never panics, and the machine it leaves answers as before.
\<close>

theorem auto_Parse_correct:
  assumes "machine_wf m"
  shows "\<exists>q. Auto_Machine.Parse m input = Some (q, first_message input (attempts m input)) \<and> machine_wf q \<and>
    answer auto_methods q = answer auto_methods m"
  using Parse_attempts [OF assms, of input] same_machine_wf [OF _ assms] auto.keeps_answer [OF assms]
  by fastforce

text \<open>
  C32: A new detecting machine with options of the packages that fit is well-formed: its strict
  parsers are strict even if an option asks for best effort, and the machine is in best-effort mode
  exactly if some option of either parser asks for it. Asking for it later works as well.
\<close>

theorem auto_NewMachine_correct:
  assumes "z = fold (\<lambda>opt m. opt m) opts auto_zero" "\<forall>opt\<in>set opts. auto_option opt"
    and "\<forall>opt\<in>set (a_rfc3164Opts z) \<union> set (a_rfc5424Opts z). library_option opt"
    and "\<forall>opt\<in>set (a_rfc3164Opts z). fits3164 opt" "\<forall>opt\<in>set (a_rfc5424Opts z). fits5424 opt"
  shows "\<exists>m m'. Auto_Machine.NewMachine opts = Some m \<and> machine_wf m \<and>
    HasBestEffort m = (\<exists>opt\<in>set (a_rfc3164Opts z) \<union> set (a_rfc5424Opts z). enablesBE opt) \<and>
    Auto_Machine.WithBestEffort m = Some m' \<and> machine_wf m' \<and> HasBestEffort m'"
  using NewMachine_makes [OF assms] WithBestEffort_makes by blast

text \<open>
  C28: Every well-formed message of RFC 5424, as its String method prints it, is detected and parsed
  back to itself, and every well-formed message of RFC 3164 is detected and parsed to its fields, by
  one and the same machine.
\<close>

theorem auto_wellformed:
  assumes "machine_wf m" "payload_ok (a_m3164 m) (a_m5424 m) p"
  shows "\<exists>q. Auto_Machine.Parse m (payload_text p) = Some (q, Some (payload_message (a_m3164 m) p), None)"
  using payload_answer [OF assms] by (simp add: answer_Parse)

section \<open>Failure\<close>

lemma reject_letter:
  assumes "\<not> RFC5424_Machine.machine_HasBestEffort y" "p \<le> 191" "in_range 65 90 c"
  shows "\<exists>y' e. RFC5424_Machine.Parse y (60 # dec_string p @ 62 # c # r) = Some (y', None, Some e)"
proof -
  let ?in = "60 # dec_string p @ 62 # c # r"
  have "\<not> is_digit c"
    using assms(3) letter_not_digit by blast
  then have "\<not> is_nonzero_digit c"
    by blast
  then have "spec_header col (c # r) out = Inl ((ErrVersion, col), out)" for col out
    by (simp add: spec_header_def spec_version_def andThen_def)
  moreover have "spec_pri 0 ?in out = Inr (length (dec_string p) + 2, c # r, RFC5424_Machine.set_prival (dec_string p) out)" for out
  proof -
    have "dec_value (dec_string p) 0 \<le> 191" "dec_string p \<noteq> []"
      using assms(2) dec_string_digits [of p] by (simp_all add: dec_string_value)
    moreover have "hd (dec_string p) = 48 \<longrightarrow> dec_string p = [48]"
      using dec_string_hd [of p] dec_string_zero by auto
    ultimately have "prival_ok (dec_string p)"
      using dec_string_digits [of p] by (simp add: prival_ok_def)
    moreover have "length (dec_string p) \<le> 3"
      using dec_string_length [of p 2] assms(2) by simp
    ultimately have "prival_len (dec_string p @ 62 # c # r) = length (dec_string p)"
      by (intro prival_len_exact) (simp_all add: is_digit_def)
    then show ?thesis
      using \<open>dec_string p \<noteq> []\<close> by (simp add: spec_pri_def Let_def)
  qed
  ultimately have "\<exists>e. spec_parse False compliant opt ?in = (None, Some e)" for compliant opt
    by (simp add: spec_parse_def Let_def andThen_def fail_result_def)
  then obtain e where "answer RFC5424_Parser.machine_methods y ?in = Some (None, Some e)"
    using assms(1) machine_answer [of y ?in] by (metis RFC5424_Machine.machine_HasBestEffort_def)
  then show ?thesis
    by (auto simp: answer_def)
qed

text \<open>
  C34: A machine in strict mode, with the fallback in use, on input that is only a priority and an RFC 3164
  timestamp: the RFC 3164 parser, tried first, answers neither a message nor an error, and the RFC 5424
  parser, tried next and last, answers an error; but the error of the detecting machine is a ParseError without an
  error in it. (The RFC 3164 parser is without the option for Cisco hostnames, and reads days with a
  leading zero if the timestamp has one.)
\<close>

theorem auto_nil_error:
  assumes "machine_wf m" "\<not> HasBestEffort m" "\<not> a_noFallback m" "f_pri f \<le> 191"
    and "stamp_ok (f_month f) (f_day f) (f_hour f) (f_min f) (f_sec f)"
    and "\<not> m_ciscoHostname (a_m3164 m)" "f_zero f \<longrightarrow> m_lenientDay (a_m3164 m)"
    and "input = 60 # dec_string (f_pri f) @ 62 # stamp_of f"
  shows "(\<exists>e. attempts m input = [(None, None), (None, Some (Err5424 e))]) \<and>
    (\<exists>x. RFC3164_Run.Parse (a_m3164 m) input = Some (x, None, None)) \<and>
    (\<exists>y e. RFC5424_Machine.Parse (a_m5424 m) input = Some (y, None, Some e)) \<and>
    (\<exists>q. Auto_Machine.Parse m input = Some (q, None, Some (Failed \<lparr>pe_Err = None, pe_RawMessage = input\<rparr>)))"
proof -
  have d: "detect input \<noteq> FormatRFC5424"
    using detect_3164 [OF assms(5), of "f_pri f" "[]"] assms(8) by simp
  have "\<not> m_bestEffort (a_m3164 m)"
    using assms(1) by (simp add: machine_wf_def RFC3164_Machine.machine_HasBestEffort_def)
  then have x: "\<exists>x. RFC3164_Run.Parse (a_m3164 m) input = Some (x, None, None)"
    using Parse3164_silent_answer [OF assms(4-7)] assms(8) by simp
  obtain c r where "stamp_of f = c # r" "in_range 65 90 c"
    using month_starts [OF assms(5)] by (metis stamp_of_def)
  then obtain y e where y: "RFC5424_Machine.Parse (a_m5424 m) input = Some (y, None, Some e)"
    using reject_letter [of "a_m5424 m" "f_pri f" c r] assms(1,4,8) by (auto simp: machine_wf_def)
  have all: "attempts m input = [(None, None), (None, Some (Err5424 e))]"
    using d x y assms(2,3)
    by (auto simp: attempts_def HasBestEffort_def r3164_def lift3164_def r5424_def lift5424_def answer_def Let_def)
  then show ?thesis
    using Parse_attempts [OF assms(1), of input] x y by (auto simp: first_message_def)
qed

section \<open>The properties at work\<close>

text \<open>A new machine without options.\<close>

lemma fresh_auto: "Auto_Machine.NewMachine [] = Some auto_zero" "machine_wf auto_zero"
  "\<not> HasBestEffort auto_zero" "a_m3164 auto_zero = RFC3164_Machine.NewMachine []"
  "\<not> m_compliantMsg (a_m5424 auto_zero)"
  by (simp_all add: Auto_Machine.NewMachine_def auto_zero_def new3164_def new5424_def machine_wf_def
      HasBestEffort_def)
    (simp add: RFC5424_Machine.NewMachine_def RFC5424_Machine.machine_zero_def)

theorem auto_Parse_correct_witness:
  "\<exists>q. Auto_Machine.Parse auto_zero [] = Some (q, first_message [] (attempts auto_zero [])) \<and> machine_wf q"
  using auto_Parse_correct [OF fresh_auto(2), of "[]"] by blast

theorem auto_NewMachine_correct_witness:
  "\<exists>m m'. Auto_Machine.NewMachine [WithRFC3164Options
      [option_WithBestEffort, option3164 RFC3164_Machine.WithLenientDay], WithoutFallback] = Some m \<and>
    machine_wf m \<and> HasBestEffort m \<and> Auto_Machine.WithBestEffort m = Some m'"
proof -
  let ?opts = "[WithRFC3164Options [option_WithBestEffort, option3164 RFC3164_Machine.WithLenientDay],
    WithoutFallback]"
  let ?z = "fold (\<lambda>opt m. opt m) ?opts auto_zero"
  have z: "a_rfc3164Opts ?z = [option_WithBestEffort, option3164 RFC3164_Machine.WithLenientDay]"
      "a_rfc5424Opts ?z = []"
    by (simp_all add: auto_zero_def WithRFC3164Options_def WithoutFallback_def)
  have "\<forall>opt\<in>set ?opts. auto_option opt"
    by (simp add: auto_option.intros)
  then show ?thesis
    using auto_NewMachine_correct [of ?z ?opts] library_3164(4) best_effort unfolding z by auto
qed

lemma sample_payloads:
  "payload_ok x y (Modern sample_message)"
  "\<not> m_ciscoHostname x \<Longrightarrow> payload_ok x y (Legacy sample_fields)"
  using sample_message_wf sample_fields_ok
  by (simp_all add: message_compliant_def sample_message_def) (simp add: sample_fields_def)

theorem auto_wellformed_witness:
  "(\<exists>q. Auto_Machine.Parse auto_zero (message_text sample_message) = Some (q, Some (Msg5424 sample_message), None)) \<and>
   (\<exists>q sm. Auto_Machine.Parse auto_zero (wellformed_text sample_fields) = Some (q, Some (Msg3164 sm), None))"
proof -
  have "payload_ok (a_m3164 auto_zero) (a_m5424 auto_zero) (Legacy sample_fields)"
    by (rule sample_payloads(2)) (simp add: fresh_auto(4))
  from auto_wellformed [OF fresh_auto(2) this] show ?thesis
    using auto_wellformed [OF fresh_auto(2) sample_payloads(1)] by auto
qed

theorem auto_nil_error_witness:
  "(\<exists>y e. RFC5424_Machine.Parse (a_m5424 auto_zero) (60 # dec_string 34 @ 62 # stamp_of sample_fields) =
    Some (y, None, Some e)) \<and>
   (\<exists>q. Auto_Machine.Parse auto_zero (60 # dec_string 34 @ 62 # stamp_of sample_fields) =
    Some (q, None, Some (Failed \<lparr>pe_Err = None, pe_RawMessage = 60 # dec_string 34 @ 62 # stamp_of sample_fields\<rparr>)))"
proof -
  have "f_pri sample_fields = 34" "\<not> f_zero sample_fields" "stamp_ok (f_month sample_fields)
      (f_day sample_fields) (f_hour sample_fields) (f_min sample_fields) (f_sec sample_fields)"
    by (simp_all add: sample_fields_def stamp_ok_def daysIn_def)
  then show ?thesis
    using auto_nil_error [OF fresh_auto(2,3), of sample_fields] fresh_auto(4)
    by (simp add: auto_zero_def)
qed

end
