(* ===== verification/NonTransparent_Auto.thy ===== *)
theory NonTransparent_Auto
  imports NonTransparent_RFC5424 Auto_Properties
begin

text \<open>
  nontransparent/parser_auto.go, \<open>NewParserAuto\<close>: non-transparent framing around the detecting
  machine. Newlines are not embedded, since a newline may be the trailer.
\<close>

section \<open>The constructor\<close>

type_synonym 'rerr nt_auto_parser =
  "(MachineOption, Auto_Machine.machine, auto_message, auto_error, 'rerr) NonTransparent.machine"

definition nt_auto_zero :: "'rerr nt_auto_parser" where
  "nt_auto_zero =
     \<lparr>trailertyp = LF, trailer = 0, candidate = [], bestEffort = False, internal = auto_zero,
      internalOpts = [], emitted = [], readError = None, lastChunk = [], rfc3164Opts = [],
      rfc5424Opts = [], noFallback = False\<rparr>"

text \<open>\<open>None\<close> is the panic of an option for one format that does not fit its machine.\<close>

definition nt_NewParserAuto ::
    "('rerr nt_auto_parser \<Rightarrow> 'rerr nt_auto_parser) list \<Rightarrow> 'rerr nt_auto_parser option" where
  "nt_NewParserAuto opts = do {
     let m = fold (\<lambda>opt m. opt m) opts nt_auto_zero;
     let m = m\<lparr>trailer := word_of_int (fst (TrailerType_Value (trailertyp m)))\<rparr>;
     let safeOpts = SafeMachineOptions (internalOpts m);
     let opts3164 = safeOpts @ rfc3164Opts m;
     let opts5424 = safeOpts @ rfc5424Opts m;
     let autoOpts = [WithRFC3164Options opts3164, WithRFC5424Options opts5424] @
       (if noFallback m then [WithoutFallback] else []);
     i \<leftarrow> Auto_Machine.NewMachine autoOpts;
     i \<leftarrow> (if bestEffort m then Auto_Machine.WithBestEffort i else Some i);
     Some (m\<lparr>internal := i\<rparr>)
   }"

section \<open>Construction\<close>

lemma nt_NewParserAuto_makes:
  assumes p0: "p0 = fold (\<lambda>opt m. opt m) opts nt_auto_zero"
    and lib: "\<forall>opt\<in>set (internalOpts p0) \<union> set (rfc3164Opts p0) \<union> set (rfc5424Opts p0). library_option opt"
    and fits: "\<forall>opt\<in>set (rfc3164Opts p0). fits3164 opt" "\<forall>opt\<in>set (rfc5424Opts p0). fits5424 opt"
  shows "\<exists>i. nt_NewParserAuto opts = Some (p0\<lparr>
      trailer := word_of_int (fst (TrailerType_Value (trailertyp p0))), internal := i\<rparr>) \<and>
    machine_wf i \<and> HasBestEffort i = (bestEffort p0 \<or> (\<exists>opt\<in>set (SafeMachineOptions (internalOpts p0) @
      rfc3164Opts p0) \<union> set (SafeMachineOptions (internalOpts p0) @ rfc5424Opts p0). enablesBE opt)) \<and>
    (\<not> HasBestEffort i \<longrightarrow> Some (a_m3164 i) = new3164 (SafeMachineOptions (internalOpts p0) @ rfc3164Opts p0) \<and>
      Some (a_m5424 i) = new5424 (SafeMachineOptions (internalOpts p0) @ rfc5424Opts p0))"
proof -
  let ?o3 = "SafeMachineOptions (internalOpts p0) @ rfc3164Opts p0"
  let ?o5 = "SafeMachineOptions (internalOpts p0) @ rfc5424Opts p0"
  have "\<forall>opt\<in>set ?o3 \<union> set ?o5. library_option opt" "\<forall>opt\<in>set ?o3. fits3164 opt" "\<forall>opt\<in>set ?o5. fits5424 opt"
    using lib fits safe_options_ok [of "internalOpts p0"] by auto
  from transport_machine [OF this, of "noFallback p0" "bestEffort p0"] show ?thesis
    by (auto simp: nt_NewParserAuto_def p0 [symmetric] Let_def)
qed

section \<open>Results\<close>

interpretation nt_auto: line_stream auto_methods machine_wf
  by unfold_locales

text \<open>
  C30: Non-transparent framing around the detecting machine delivers a stream that mixes well-formed
  messages of RFC 3164 and of RFC 5424 that do not contain the trailer as these messages, in order
  and without an error.
\<close>

theorem nt_auto_mixed:
  fixes m :: "'rerr nt_auto_parser"
  assumes "trailer_ok m" "readError m = None" "candidate m = []" "trailer m \<noteq> 60" "machine_wf (internal m)"
    and "\<forall>x\<in>set xs. payload_ok (a_m3164 (internal m)) (a_m5424 (internal m)) x \<and>
      trailer m \<notin> set (payload_text x)"
  shows "\<exists>q. NonTransparent.Parse auto_methods
      (map (\<lambda>x. Exec_call 0 (payload_text x @ [trailer m])) xs @ [OnCompletion_call]) m = Some q \<and>
    emitted q = emitted m @
      map (\<lambda>x. \<lparr>res_Message = Some (payload_message (a_m3164 (internal m)) x), res_Error = None\<rparr>) xs"
proof -
  let ?x = "\<lambda>x. (tl (payload_text x), []) :: lines"
  have shape: "payload_text x = 60 # tl (payload_text x)" if "x \<in> set xs" for x
    using payload_starts assms(6) that by fastforce
  have calls: "concat (map (line_calls (trailer m)) (map ?x xs)) =
      map (\<lambda>x. Exec_call 0 (payload_text x @ [trailer m])) xs"
    using shape by (induction xs) (simp_all add: line_calls_def)
  have "trailer m \<notin> set (tl (payload_text x))" if "x \<in> set xs" for x
    using assms(6) shape [OF that] that by (metis list.set_intros(2))
  then have wf: "\<forall>x\<in>set (map ?x xs). lines_wf (trailer m) x"
    using assms(4) by (auto simp: lines_wf_def)
  have "(nt_result auto_methods (internal m) (joined (trailer m) (?x x)) ::
        (auto_message, (auto_error, 'rerr) nt_error) Result) =
      \<lparr>res_Message = Some (payload_message (a_m3164 (internal m)) x), res_Error = None\<rparr>" if "x \<in> set xs" for x
    using payload_answer [OF assms(5), of x] assms(6) shape [OF that] that
    by (simp add: joined_def nt_result_def)
  then have all: "map (\<lambda>x. nt_result auto_methods (internal m) (joined (trailer m) x)) (map ?x xs) =
      (map :: (payload \<Rightarrow> (auto_message, (auto_error, 'rerr) nt_error) Result) \<Rightarrow> _)
        (\<lambda>x. \<lparr>res_Message = Some (payload_message (a_m3164 (internal m)) x), res_Error = None\<rparr>) xs"
    by simp
  show ?thesis
    using nt_auto.Parse_stream [OF assms(1) wf assms(2,5)] assms(3)
    unfolding calls all by (simp add: nt_auto.collected_def)
qed

section \<open>The properties at work\<close>

text \<open>The parser without options, with a NUL trailer instead of the default.\<close>

definition nul_options :: "(unit nt_auto_parser \<Rightarrow> unit nt_auto_parser) list" where
  "nul_options = [WithTrailer NUL]"

lemma nul_options_fold:
  "fold (\<lambda>opt m. opt m) nul_options nt_auto_zero = nt_auto_zero\<lparr>trailer := 0, trailertyp := NUL\<rparr>"
  by (simp add: nul_options_def WithTrailer_def TrailerType_Value_def NUL_def LF_def trailer_bytes_def)

lemma sample_fields_no_nul: "0 \<notin> set (wellformed_text sample_fields)"
  by (simp add: wellformed_text_def sample_fields_def stamp_of_def stamp_text_def content_text_def
      day_text_def pad2_def month_names_def dec_string.simps dig_def)

theorem nt_auto_mixed_witness:
  "\<exists>m q sm. nt_NewParserAuto nul_options = Some m \<and>
    NonTransparent.Parse auto_methods
      [Exec_call 0 (message_text sample_message @ [0]), Exec_call 0 (wellformed_text sample_fields @ [0]),
        OnCompletion_call] m = Some q \<and>
    map res_Message (emitted q) = [Some (Msg5424 sample_message), Some (Msg3164 sm)]"
proof -
  let ?p0 = "nt_auto_zero\<lparr>trailer := 0, trailertyp := NUL\<rparr> :: unit nt_auto_parser"
  obtain i where i: "nt_NewParserAuto nul_options = Some (?p0\<lparr>trailer := 0, internal := i\<rparr>)"
    "machine_wf i" "Some (a_m3164 i) = new3164 []"
    using nt_NewParserAuto_makes [OF nul_options_fold [symmetric]]
    by (auto simp: nt_auto_zero_def TrailerType_Value_def NUL_def LF_def trailer_bytes_def SafeMachineOptions_def)
  let ?m = "?p0\<lparr>trailer := 0, internal := i\<rparr>"
  have m: "trailer_ok ?m" "readError ?m = None" "candidate ?m = []" "trailer ?m = 0" "internal ?m = i"
      "emitted ?m = []"
    by (simp_all add: nt_auto_zero_def trailer_ok_def NUL_def LF_def)
  have "\<not> m_ciscoHostname (a_m3164 i)"
    using i(3) by (simp add: new3164_def RFC3164_Machine.NewMachine_def RFC3164_Machine.machine_zero_def)
  then have "\<forall>x\<in>set [Modern sample_message, Legacy sample_fields].
      payload_ok (a_m3164 (internal ?m)) (a_m5424 (internal ?m)) x \<and> trailer ?m \<notin> set (payload_text x)"
    unfolding m using sample_payloads sample_text_no_nul sample_fields_no_nul by simp
  from nt_auto_mixed [OF m(1-3) _ _ this] i(1,2) show ?thesis
    unfolding m by auto
qed

end
