(* ===== verification/OctetCounting_Auto.thy ===== *)
theory OctetCounting_Auto
  imports OctetCounting_Frames Auto_Properties
begin

text \<open>
  octetcounting/parser.go, \<open>NewParserAuto\<close>: octet counting around the detecting machine. The generic
  options of the parser go to both inner parsers, newlines are embedded in RFC 3164 messages, and the
  trailing newline of a frame is stripped.
\<close>

section \<open>The constructor\<close>

type_synonym octet_auto_parser =
  "(MachineOption, Auto_Machine.machine, auto_message, auto_error) OctetCounting.parser"

definition octet_auto_zero :: octet_auto_parser where
  "octet_auto_zero =
     \<lparr>maxMessageLength = DefaultMaxSize,
      scanner = \<lparr>s_r = \<lparr>rd_rest = [], rd_size = 0, rd_last = None\<rparr>, s_msglen = 0, s_ready = False,
        s_maxlen = 0\<rparr>,
      bestEffort = False, internal = auto_zero, internalOpts = [],
      last_tok = \<lparr>tok_typ = ILLEGAL, tok_lit = []\<rparr>, stepback = False, emitted = [],
      stripTrailingNL = False, rfc3164Opts = [], rfc5424Opts = [], noFallback = False\<rparr>"

text \<open>\<open>None\<close> is the panic of an option for one format that does not fit its machine.\<close>

definition octet_NewParserAuto ::
    "(octet_auto_parser \<Rightarrow> octet_auto_parser) list \<Rightarrow> octet_auto_parser option" where
  "octet_NewParserAuto opts = do {
     let p = fold (\<lambda>opt p. opt p) opts octet_auto_zero;
     let safeOpts = SafeMachineOptions (internalOpts p);
     let opts3164 = option3164 RFC3164_Machine.WithEmbeddedNewlines # safeOpts @ rfc3164Opts p;
     let opts5424 = safeOpts @ rfc5424Opts p;
     let autoOpts = [WithRFC3164Options opts3164, WithRFC5424Options opts5424] @
       (if noFallback p then [WithoutFallback] else []);
     m \<leftarrow> Auto_Machine.NewMachine autoOpts;
     m \<leftarrow> (if bestEffort p then Auto_Machine.WithBestEffort m else Some m);
     Some (p\<lparr>internal := m, stripTrailingNL := True\<rparr>)
   }"

section \<open>Results\<close>

interpretation octet_auto: octet_answers auto_methods machine_wf
  by unfold_locales

text \<open>A message, the line end that its sender put after it, and the limit on the length of a frame.\<close>

definition framed_ok :: "nat \<Rightarrow> Auto_Machine.machine \<Rightarrow> payload \<Rightarrow> bytes \<Rightarrow> bool" where
  "framed_ok mx m x e \<longleftrightarrow>
     payload_ok (a_m3164 m) (a_m5424 m) x \<and> last (payload_text x) \<noteq> 10 \<and> last (payload_text x) \<noteq> 13 \<and>
     (e = [] \<or> e = [10] \<or> e = [13, 10]) \<and> length (payload_text x @ e) \<le> mx"

lemma octet_payload_result:
  assumes "machine_wf m" "framed_ok mx m x e"
  shows "octet_result auto_methods True m (payload_text x @ e) =
    \<lparr>res_Message = Some (payload_message (a_m3164 m) x), res_Error = None\<rparr>"
proof -
  have ok: "payload_ok (a_m3164 m) (a_m5424 m) x"
    using assms(2) by (simp add: framed_ok_def)
  have "strip_newline (payload_text x @ e) = payload_text x"
    using assms(2) payload_starts [OF ok] by (intro strip_line_end) (auto simp: framed_ok_def)
  then show ?thesis
    using payload_answer [OF assms(1) ok] by (simp add: octet_result_def)
qed

lemma framed_carried: "framed_ok (unat mx) m x e \<Longrightarrow> carried mx (payload_text x @ e)"
  using payload_starts [of "a_m3164 m" "a_m5424 m" x] by (auto simp: framed_ok_def carried_def)

text \<open>
  C29: Octet counting around the detecting machine. A stream is one or more frames, well-formed messages
  of RFC 3164 and of RFC 5424 in any mixture, whose texts do not themselves end with LF or CR, and after each
  nothing, LF or CR LF; no frame is longer than the limit in force, the one that is set or 8192 octets, which
  is at most 2^63 - 21. Then a parser between two frames, which takes line ends off the frames (as the
  constructor for the detecting machine makes it), emits these messages, in order and without an error. The
  messages suit the options of the machines: compliant ones if the RFC 5424 machine wants them, and
  the RFC 3164 machine without the option for Cisco hostnames, lenient if a day has a leading zero.
\<close>

theorem octet_auto_mixed:
  assumes "\<not> stepback p" "unat (effective_max p) \<le> 9223372036854775787" "stripTrailingNL p"
    and "machine_wf (internal p)" "xs \<noteq> []"
    and "\<forall>(x, e)\<in>set xs. framed_ok (unat (effective_max p)) (internal p) x e"
  shows "\<exists>p'. OctetCounting.Parse auto_methods pool
      (frames (map (\<lambda>(x, e). (payload_text x @ e, False)) xs)) p = Some p' \<and>
    emitted p' = emitted p @
      map (\<lambda>(x, e). \<lparr>res_Message = Some (payload_message (a_m3164 (internal p)) x), res_Error = None\<rparr>) xs"
proof -
  let ?xs = "map (\<lambda>(x, e). (payload_text x @ e, False)) xs"
  let ?R = "\<lambda>(x, e). octet_result auto_methods True (internal p) (payload_text x @ e)"
  have R: "map ?R xs =
      map (\<lambda>(x, e). \<lparr>res_Message = Some (payload_message (a_m3164 (internal p)) x), res_Error = None\<rparr>) xs"
    using assms(6) octet_payload_result [OF assms(4)] by (auto simp: case_prod_beta)
  have "\<forall>(x, nl)\<in>set ?xs. carried (effective_max p) x"
    using assms(6) framed_carried by (auto simp: case_prod_beta)
  from octet_auto.Parse_frames [OF assms(1,2) this assms(4), of pool] obtain p' where
    "OctetCounting.Parse auto_methods pool (frames ?xs) p = Some p'"
    "emitted p' = emitted p @ octet_spec (HasBestEffort (internal p)) (map (\<lambda>r. (r, False)) (map ?R xs))"
    using assms(3) by (auto simp: comp_def case_prod_unfold)
  moreover have "octet_spec (HasBestEffort (internal p)) (map (\<lambda>r. (r, False)) (map ?R xs)) = map ?R xs"
    using assms(5) unfolding R by (intro octet_spec_ok) auto
  ultimately show ?thesis
    using R by auto
qed


section \<open>Construction\<close>

text \<open>The options that reach the inner parsers.\<close>

definition octet_opts3164 :: "octet_auto_parser \<Rightarrow> MachineOption list" where
  "octet_opts3164 p =
     option3164 RFC3164_Machine.WithEmbeddedNewlines # SafeMachineOptions (internalOpts p) @ rfc3164Opts p"

definition octet_opts5424 :: "octet_auto_parser \<Rightarrow> MachineOption list" where
  "octet_opts5424 p = SafeMachineOptions (internalOpts p) @ rfc5424Opts p"

lemma octet_NewParserAuto_makes:
  assumes p0: "p0 = fold (\<lambda>opt p. opt p) opts octet_auto_zero"
    and lib: "\<forall>opt\<in>set (internalOpts p0) \<union> set (rfc3164Opts p0) \<union> set (rfc5424Opts p0). library_option opt"
    and fits: "\<forall>opt\<in>set (rfc3164Opts p0). fits3164 opt" "\<forall>opt\<in>set (rfc5424Opts p0). fits5424 opt"
  shows "\<exists>m. octet_NewParserAuto opts = Some (p0\<lparr>internal := m, stripTrailingNL := True\<rparr>) \<and>
    machine_wf m \<and> HasBestEffort m = (bestEffort p0 \<or>
      (\<exists>opt\<in>set (octet_opts3164 p0) \<union> set (octet_opts5424 p0). enablesBE opt)) \<and>
    (\<not> HasBestEffort m \<longrightarrow> Some (a_m3164 m) = new3164 (octet_opts3164 p0) \<and>
      Some (a_m5424 m) = new5424 (octet_opts5424 p0))"
proof -
  have "\<forall>opt\<in>set (octet_opts3164 p0) \<union> set (octet_opts5424 p0). library_option opt"
    "\<forall>opt\<in>set (octet_opts3164 p0). fits3164 opt" "\<forall>opt\<in>set (octet_opts5424 p0). fits5424 opt"
    using lib fits safe_options_ok [of "internalOpts p0"] library_3164(5)
    by (auto simp: octet_opts3164_def octet_opts5424_def)
  from transport_machine [OF this, of "noFallback p0" "bestEffort p0"] show ?thesis
    by (auto simp: octet_NewParserAuto_def p0 [symmetric] Let_def octet_opts3164_def octet_opts5424_def)
qed

text \<open>
  C33: The constructor with options of the packages never panics, even if the generic machine options
  hold options for one format only; options for one parser must fit it. Its machine keeps the
  contract and is in best-effort mode exactly if the parser or an option asks for it; the parser strips
  newlines.
\<close>

theorem octet_NewParserAuto_safe:
  assumes "p0 = fold (\<lambda>opt p. opt p) opts octet_auto_zero"
    and "\<forall>opt\<in>set (internalOpts p0) \<union> set (rfc3164Opts p0) \<union> set (rfc5424Opts p0). library_option opt"
    and "\<forall>opt\<in>set (rfc3164Opts p0). fits3164 opt" "\<forall>opt\<in>set (rfc5424Opts p0). fits5424 opt"
  shows "\<exists>m. octet_NewParserAuto opts = Some (p0\<lparr>internal := m, stripTrailingNL := True\<rparr>) \<and>
    machine_wf m \<and> HasBestEffort m = (bestEffort p0 \<or>
      (\<exists>opt\<in>set (octet_opts3164 p0) \<union> set (octet_opts5424 p0). enablesBE opt))"
  using octet_NewParserAuto_makes [OF assms] by blast

section \<open>The properties at work\<close>

text \<open>A parser with a generic option for RFC 5424 only and one for RFC 3164 only.\<close>

definition sample_options :: "(octet_auto_parser \<Rightarrow> octet_auto_parser) list" where
  "sample_options = [OctetCounting.WithMachineOptions
     [option5424 RFC5424_Parser.WithOptionalPriority, option3164 RFC3164_Machine.WithLenientDay]]"

lemma sample_options_fields:
  "internalOpts (fold (\<lambda>opt p. opt p) sample_options octet_auto_zero) =
     [option5424 RFC5424_Parser.WithOptionalPriority, option3164 RFC3164_Machine.WithLenientDay]"
  "rfc3164Opts (fold (\<lambda>opt p. opt p) sample_options octet_auto_zero) = []"
  "rfc5424Opts (fold (\<lambda>opt p. opt p) sample_options octet_auto_zero) = []"
  "bestEffort (fold (\<lambda>opt p. opt p) sample_options octet_auto_zero) = False"
  by (simp_all add: sample_options_def OctetCounting.WithMachineOptions_def octet_auto_zero_def)

theorem octet_NewParserAuto_safe_witness:
  "\<exists>p. octet_NewParserAuto sample_options = Some p \<and> machine_wf (internal p)"
  using octet_NewParserAuto_safe [OF refl, of sample_options] library_3164(4) library_5424(2)
  by (auto simp: sample_options_fields)

text \<open>The parser that these options make, on a stream with a message of each format.\<close>

theorem octet_auto_mixed_witness:
  "\<exists>p p'. octet_NewParserAuto sample_options = Some p \<and>
    OctetCounting.Parse auto_methods None
      (frames [(message_text sample_message, False), (wellformed_text sample_fields @ [13, 10], False)]) p = Some p' \<and>
    map res_Message (emitted p') = [Some (Msg5424 sample_message),
      Some (Msg3164 (RFC3164_Correct.parsed (a_m3164 (internal p)) sample_fields))]"
proof -
  let ?p0 = "fold (\<lambda>opt p. opt p) sample_options octet_auto_zero"
  have plain: "\<not> enablesBE opt" if "opt \<in> set (octet_opts3164 ?p0) \<union> set (octet_opts5424 ?p0)" for opt
    using that by (auto simp: octet_opts3164_def octet_opts5424_def sample_options_fields
        SafeMachineOptions_def RFC5424_Parser.WithOptionalPriority_def
        RFC5424_Machine.machine_WithOptionalPriority_def RFC5424_Machine.NewMachine_def
        RFC5424_Machine.machine_zero_def RFC5424_Machine.machine_HasBestEffort_def)
  obtain m where m: "octet_NewParserAuto sample_options = Some (?p0\<lparr>internal := m, stripTrailingNL := True\<rparr>)"
    "machine_wf m" "Some (a_m3164 m) = new3164 (octet_opts3164 ?p0)"
    using octet_NewParserAuto_makes [OF refl, of sample_options] library_3164(4) library_5424(2) plain
    by (auto simp: sample_options_fields)
  let ?p = "?p0\<lparr>internal := m, stripTrailingNL := True\<rparr>"
  have "\<not> m_ciscoHostname (a_m3164 m)"
    using m(3) by (simp add: octet_opts3164_def sample_options_fields SafeMachineOptions_def new3164_def
        option3164_def option5424_def safe_option_def RFC3164_Machine.NewMachine_def
        RFC3164_Machine.machine_zero_def RFC3164_Machine.WithEmbeddedNewlines_def
        RFC3164_Machine.machine_WithEmbeddedNewlines_def RFC3164_Machine.WithLenientDay_def
        RFC3164_Machine.machine_WithLenientDay_def)
  moreover have p: "\<not> stepback ?p" "effective_max ?p = 8192" "stripTrailingNL ?p" "emitted ?p = []" "internal ?p = m"
    by (simp_all add: sample_options_def OctetCounting.WithMachineOptions_def octet_auto_zero_def
        effective_max_def DefaultMaxSize_def)
  ultimately have "\<forall>(x, e)\<in>set [(Modern sample_message, []), (Legacy sample_fields, [13, 10])].
      framed_ok (unat (effective_max ?p)) (internal ?p) x e"
    using sample_payloads sample_message_text sample_fields_text by (simp add: framed_ok_def)
  from octet_auto_mixed [OF p(1) _ p(3) _ _ this, of None] m(1,2) p show ?thesis
    by auto
qed

end
