(* ===== verification/Parser_Options.thy ===== *)
theory Parser_Options
  imports Interfaces GoIO
begin

text \<open>
  syslog.go, the interface \<open>Parser\<close>, as a record of the methods that configure a parser; options.go
  and the parser options of auto/options.go, which call them; and the contract that the
  constructors of parsers rely on. The listener is not a method here: a parser keeps the list of results that the
  code hands to it.
\<close>

section \<open>Interfaces\<close>

record ('p, 'opt) AutoParserConfigurer =
  SetRFC3164Options_method :: "'opt list \<Rightarrow> 'p \<Rightarrow> 'p"
  SetRFC5424Options_method :: "'opt list \<Rightarrow> 'p \<Rightarrow> 'p"
  SetNoFallback_method :: "'p \<Rightarrow> 'p"

text \<open>\<open>configurer\<close> is the type assertion to \<open>AutoParserConfigurer\<close>.\<close>

record ('p, 'opt) Parser =
  enable_BestEffort :: "'p \<Rightarrow> 'p"
  add_MachineOptions :: "'opt list \<Rightarrow> 'p \<Rightarrow> 'p"
  set_MaxMessageLength :: "goint \<Rightarrow> 'p \<Rightarrow> 'p"
  configurer :: "('p, 'opt) AutoParserConfigurer option"

section \<open>Options\<close>

definition syslog_WithMaxMessageLength :: "('p, 'opt) Parser \<Rightarrow> goint \<Rightarrow> 'p \<Rightarrow> 'p" where
  "syslog_WithMaxMessageLength I len p = set_MaxMessageLength I len p"

definition syslog_WithMachineOptions :: "('p, 'opt) Parser \<Rightarrow> 'opt list \<Rightarrow> 'p \<Rightarrow> 'p" where
  "syslog_WithMachineOptions I opts p = add_MachineOptions I opts p"

definition syslog_WithBestEffort :: "('p, 'opt) Parser \<Rightarrow> 'p \<Rightarrow> 'p" where
  "syslog_WithBestEffort I p = enable_BestEffort I p"

definition auto_WithRFC3164MachineOptions :: "('p, 'opt) Parser \<Rightarrow> 'opt list \<Rightarrow> 'p \<Rightarrow> 'p" where
  "auto_WithRFC3164MachineOptions I opts p =
     (case configurer I of None \<Rightarrow> p | Some ap \<Rightarrow> SetRFC3164Options_method ap opts p)"

definition auto_WithRFC5424MachineOptions :: "('p, 'opt) Parser \<Rightarrow> 'opt list \<Rightarrow> 'p \<Rightarrow> 'p" where
  "auto_WithRFC5424MachineOptions I opts p =
     (case configurer I of None \<Rightarrow> p | Some ap \<Rightarrow> SetRFC5424Options_method ap opts p)"

definition auto_WithoutParserFallback :: "('p, 'opt) Parser \<Rightarrow> 'p \<Rightarrow> 'p" where
  "auto_WithoutParserFallback I p =
     (case configurer I of None \<Rightarrow> p | Some ap \<Rightarrow> SetNoFallback_method ap p)"

text \<open>The calls of these functions, which a caller passes to a constructor as a list.\<close>

datatype 'opt option_call =
    MaxMessageLength goint
  | MachineOptions "'opt list"
  | BestEffort
  | RFC3164MachineOptions "'opt list"
  | RFC5424MachineOptions "'opt list"
  | NoParserFallback

fun option_of :: "('p, 'opt) Parser \<Rightarrow> 'opt option_call \<Rightarrow> 'p \<Rightarrow> 'p" where
  "option_of I (MaxMessageLength len) = syslog_WithMaxMessageLength I len"
| "option_of I (MachineOptions opts) = syslog_WithMachineOptions I opts"
| "option_of I BestEffort = syslog_WithBestEffort I"
| "option_of I (RFC3164MachineOptions opts) = auto_WithRFC3164MachineOptions I opts"
| "option_of I (RFC5424MachineOptions opts) = auto_WithRFC5424MachineOptions I opts"
| "option_of I NoParserFallback = auto_WithoutParserFallback I"

text \<open>The machine options among them, in order.\<close>

definition machine_options :: "'opt option_call list \<Rightarrow> 'opt list" where
  "machine_options cs = concat (map (\<lambda>c. case c of MachineOptions opts \<Rightarrow> opts | _ \<Rightarrow> []) cs)"

lemmas option_calls = syslog_WithMaxMessageLength_def syslog_WithMachineOptions_def syslog_WithBestEffort_def
  auto_WithRFC3164MachineOptions_def auto_WithRFC5424MachineOptions_def auto_WithoutParserFallback_def

section \<open>The contracts\<close>

text \<open>What the constructors rely on: the flag of best effort is set by its method and by no other.\<close>

locale configurable =
  fixes I :: "('p, 'opt) Parser" and flag :: "'p \<Rightarrow> bool"
  assumes enables: "flag (enable_BestEffort I p)"
    and options_keep: "flag (add_MachineOptions I opts p) = flag p"
    and length_keeps: "flag (set_MaxMessageLength I len p) = flag p"
    and configurer_keeps: "configurer I = Some ap \<Longrightarrow>
      flag (SetRFC3164Options_method ap opts p) = flag p \<and>
      flag (SetRFC5424Options_method ap opts p) = flag p \<and> flag (SetNoFallback_method ap p) = flag p"
begin

lemma flag_call: "flag (option_of I c p) \<longleftrightarrow> flag p \<or> c = BestEffort"
  by (cases c)
    (simp_all add: option_calls enables options_keep length_keeps configurer_keeps split: option.split)

text \<open>Wherever the option stands among the others, the constructor sees the flag.\<close>

lemma fold_flag:
  "flag (fold (\<lambda>opt p. opt p) (map (option_of I) cs) p) \<longleftrightarrow> flag p \<or> BestEffort \<in> set cs"
  by (induction cs arbitrary: p) (auto simp: flag_call)

end

text \<open>A parser with a machine also collects the options of the machine, in order.\<close>

locale collecting = configurable +
  fixes collected :: "'p \<Rightarrow> 'opt list"
  assumes collects: "collected (add_MachineOptions I opts p) = collected p @ opts"
    and enable_keeps: "collected (enable_BestEffort I p) = collected p"
    and length_keeps_options: "collected (set_MaxMessageLength I len p) = collected p"
    and configurer_keeps_options: "configurer I = Some ap \<Longrightarrow>
      collected (SetRFC3164Options_method ap opts p) = collected p \<and>
      collected (SetRFC5424Options_method ap opts p) = collected p \<and>
      collected (SetNoFallback_method ap p) = collected p"
begin

lemma fold_collected:
  "collected (fold (\<lambda>opt p. opt p) (map (option_of I) cs) p) = collected p @ machine_options cs"
proof (induction cs arbitrary: p)
  case (Cons c cs)
  have "collected (option_of I c p) = collected p @ machine_options [c]"
    by (cases c)
      (simp_all add: machine_options_def option_calls collects enable_keeps length_keeps_options
        configurer_keeps_options split: option.split)
  then show ?case
    using Cons by (simp add: machine_options_def)
qed (simp add: machine_options_def)

end

end
