(* ===== verification/Transport_Options.thy ===== *)
theory Transport_Options
  imports OctetCounting NonTransparent Parser_Options
begin

text \<open>
  The parsers of octetcounting/parser.go and nontransparent/parser.go as a \<open>Parser\<close> and an
  \<open>AutoParserConfigurer\<close>, with the contract on their options.
\<close>

section \<open>The transports\<close>

definition octet_configurer :: "(('opt, 'm, 'msg, 'err) parser, 'opt) AutoParserConfigurer" where
  "octet_configurer =
     \<lparr>SetRFC3164Options_method = OctetCounting.SetRFC3164Options,
      SetRFC5424Options_method = OctetCounting.SetRFC5424Options,
      SetNoFallback_method = OctetCounting.SetNoFallback\<rparr>"

definition octet_parser_methods :: "(('opt, 'm, 'msg, 'err) parser, 'opt) Parser" where
  "octet_parser_methods =
     \<lparr>enable_BestEffort = OctetCounting.WithBestEffort,
      add_MachineOptions = OctetCounting.WithMachineOptions,
      set_MaxMessageLength = OctetCounting.WithMaxMessageLength,
      configurer = Some octet_configurer\<rparr>"

definition nt_configurer :: "(('opt, 'm, 'msg, 'err, 'rerr) machine, 'opt) AutoParserConfigurer" where
  "nt_configurer =
     \<lparr>SetRFC3164Options_method = NonTransparent.SetRFC3164Options,
      SetRFC5424Options_method = NonTransparent.SetRFC5424Options,
      SetNoFallback_method = NonTransparent.SetNoFallback\<rparr>"

definition nt_parser_methods :: "(('opt, 'm, 'msg, 'err, 'rerr) machine, 'opt) Parser" where
  "nt_parser_methods =
     \<lparr>enable_BestEffort = NonTransparent.WithBestEffort,
      add_MachineOptions = NonTransparent.WithMachineOptions,
      set_MaxMessageLength = NonTransparent.WithMaxMessageLength,
      configurer = Some nt_configurer\<rparr>"

interpretation octet_options: collecting octet_parser_methods OctetCounting.bestEffort OctetCounting.internalOpts
  by unfold_locales
    (auto simp: octet_parser_methods_def octet_configurer_def OctetCounting.WithBestEffort_def
      OctetCounting.WithMachineOptions_def OctetCounting.WithMaxMessageLength_def
      OctetCounting.SetRFC3164Options_def OctetCounting.SetRFC5424Options_def
      OctetCounting.SetNoFallback_def)

interpretation nt_options: collecting nt_parser_methods NonTransparent.bestEffort NonTransparent.internalOpts
  by unfold_locales
    (auto simp: nt_parser_methods_def nt_configurer_def NonTransparent.WithBestEffort_def
      NonTransparent.WithMachineOptions_def NonTransparent.WithMaxMessageLength_def
      NonTransparent.SetRFC3164Options_def NonTransparent.SetRFC5424Options_def
      NonTransparent.SetNoFallback_def)

end
