(* ===== verification/RFC3195_Frame.thy ===== *)
theory RFC3195_Frame
  imports GoIO Decimal
begin

text \<open>
  rfc3195/frame.go: BEEP frames (RFC 3080 and the SEQ frames of RFC 3081) and the scanner that reads
  them from a stream. A stream is its bytes and how it ends, with EOF or with an error of its own.
\<close>

section \<open>Frame types\<close>

type_synonym FrameType = int

definition FrameMSG :: FrameType where "FrameMSG = 0"
definition FrameRPY :: FrameType where "FrameRPY = 1"
definition FrameERR :: FrameType where "FrameERR = 2"
definition FrameANS :: FrameType where "FrameANS = 3"
definition FrameNUL :: FrameType where "FrameNUL = 4"
definition FrameSEQ :: FrameType where "FrameSEQ = 5"

lemmas frame_types = FrameMSG_def FrameRPY_def FrameERR_def FrameANS_def FrameNUL_def FrameSEQ_def

definition frameTypeNames :: "bytes list" where
  "frameTypeNames = map lit [''MSG'', ''RPY'', ''ERR'', ''ANS'', ''NUL'', ''SEQ'']"

text \<open>\<open>%d\<close> of a number that is not negative.\<close>

definition FrameType_String :: "FrameType \<Rightarrow> bytes option" where
  "FrameType_String ft =
     (if ft < 6 then (if ft < 0 then None else gindex frameTypeNames (nat ft))
      else Some (lit ''FrameType('' @ dec_string (nat ft) @ lit '')''))"

definition keywordToType :: "bytes \<Rightarrow> FrameType option" where
  "keywordToType = map_of
     [(lit ''MSG'', FrameMSG), (lit ''RPY'', FrameRPY), (lit ''ERR'', FrameERR),
      (lit ''ANS'', FrameANS), (lit ''NUL'', FrameNUL), (lit ''SEQ'', FrameSEQ)]"

section \<open>Frames\<close>

type_synonym uint32 = "32 word"

record Frame =
  Type :: FrameType
  Channel :: uint32
  Msgno :: uint32
  More :: bool
  Seqno :: uint32
  Size :: uint32
  Ansno :: uint32
  Payload :: bytes
  Ackno :: uint32
  Window :: uint32

definition Frame_zero :: Frame where
  "Frame_zero = \<lparr>Type = FrameMSG, Channel = 0, Msgno = 0, More = False, Seqno = 0, Size = 0, Ansno = 0,
     Payload = [], Ackno = 0, Window = 0\<rparr>"

definition maxInt31 :: nat where "maxInt31 = 2147483647"
definition maxHeaderLen :: nat where "maxHeaderLen = 128"
definition DefaultMaxPayloadSize :: goint where "DefaultMaxPayloadSize = 2 * 1024 * 1024"

section \<open>Errors\<close>

text \<open>What a read reports: the ends of a stream, or its own error.\<close>

datatype 'e read_error = Eof | UnexpectedEof | StreamError 'e

datatype 'e frame_error =
    HeaderRead "'e read_error"
  | HeaderTooLong nat
  | HeaderNoCRLF
  | HeaderEmpty
  | UnknownKeyword bytes
  | SeqFieldCount nat
  | FieldCount FrameType nat nat
  | BadNumber string bytes num_error
  | NumberTooLarge string bytes nat
  | BadContinuation bytes
  | NulMore
  | NulSize uint32
  | PayloadTooLarge uint32 goint
  | PayloadRead uint32 "'e read_error"
  | TrailerRead "'e read_error"
  | TrailerBad bytes

text \<open>The error of \<open>Scan\<close>: \<open>io.EOF\<close> itself or an error with a text.\<close>

datatype 'e scan_error = EndOfFrames | Bad "'e frame_error"

definition try_then :: "'e + 'a \<Rightarrow> ('a \<Rightarrow> 'e + 'b) \<Rightarrow> 'e + 'b" where
  "try_then x f = (case x of Inl e \<Rightarrow> Inl e | Inr a \<Rightarrow> f a)"

lemma try_then_simps [simp]: "try_then (Inl e) f = Inl e" "try_then (Inr a) f = f a"
  by (simp_all add: try_then_def)

lemma try_then_Inr: "try_then x f = Inr b \<longleftrightarrow> (\<exists>a. x = Inr a \<and> f a = Inr b)"
  by (cases x) simp_all

section \<open>Numbers and fields\<close>

definition parseUint32 :: "bytes \<Rightarrow> string \<Rightarrow> 'e frame_error + uint32" where
  "parseUint32 b name =
     (case ParseUint 32 b of
        Inl e \<Rightarrow> Inl (BadNumber name b e)
      | Inr v \<Rightarrow> Inr (of_nat v))"

definition parseInt31 :: "bytes \<Rightarrow> string \<Rightarrow> 'e frame_error + uint32" where
  "parseInt31 b name =
     (case ParseUint 32 b of
        Inl e \<Rightarrow> Inl (BadNumber name b e)
      | Inr v \<Rightarrow> if v > maxInt31 then Inl (NumberTooLarge name b v) else Inr (of_nat v))"

definition parseContinuation :: "bytes \<Rightarrow> 'e frame_error + bool" where
  "parseContinuation b =
     (if length b \<noteq> 1 then Inl (BadContinuation b)
      else if hd b = 42 then Inr True
      else if hd b = 46 then Inr False
      else Inl (BadContinuation b))"

text \<open>
  \<open>unicode.IsSpace\<close> on the encoding of a character, and \<open>bytes.Fields\<close>, which splits around runs of
  such characters. A byte that starts no valid encoding is no space.
\<close>

definition is_space :: "bytes \<Rightarrow> bool" where
  "is_space c \<longleftrightarrow>
     c \<in> {[9], [10], [11], [12], [13], [32], [194, 133], [194, 160], [225, 154, 128], [226, 128, 168],
       [226, 128, 169], [226, 128, 175], [226, 129, 159], [227, 128, 128]} \<or>
     (take 2 c = [226, 128] \<and> length c = 3 \<and> in_range 128 138 (c ! 2))"

definition flush :: "bytes \<Rightarrow> bytes list" where
  "flush field = (if field = [] then [] else [field])"

function fields_loop :: "bytes \<Rightarrow> bytes \<Rightarrow> bytes list" where
  "fields_loop s field =
     (if s = [] then flush field
      else (case rune_width s of
        None \<Rightarrow> fields_loop (drop 1 s) (field @ take 1 s)
      | Some w \<Rightarrow>
          if is_space (take w s) then flush field @ fields_loop (drop w s) []
          else fields_loop (drop w s) (field @ take w s)))"
  by pat_completeness auto
termination
  by (relation "measure (\<lambda>(s, _). length s)") (auto dest!: rune_width_bounds)

declare fields_loop.simps [simp del]

definition Fields :: "bytes \<Rightarrow> bytes list" where
  "Fields s = fields_loop s []"

section \<open>The scanner\<close>

record 'e Scanner =
  sc_rest :: bytes
  sc_end :: "'e option"
  sc_maxPayloadSize :: goint

definition stream_error :: "'e option \<Rightarrow> 'e read_error" where
  "stream_error e = (case e of None \<Rightarrow> Eof | Some x \<Rightarrow> StreamError x)"

text \<open>\<open>bufio.Reader.ReadBytes\<close> up to a newline, and \<open>io.ReadFull\<close>.\<close>

definition ReadLine :: "'e Scanner \<Rightarrow> 'e Scanner \<times> bytes \<times> 'e read_error option" where
  "ReadLine s =
     (let line = takeWhile (\<lambda>b. b \<noteq> 10) (sc_rest s) in
      case dropWhile (\<lambda>b. b \<noteq> 10) (sc_rest s) of
        [] \<Rightarrow> (s\<lparr>sc_rest := []\<rparr>, line, Some (stream_error (sc_end s)))
      | b # r \<Rightarrow> (s\<lparr>sc_rest := r\<rparr>, line @ [b], None))"

definition ReadFull :: "nat \<Rightarrow> 'e Scanner \<Rightarrow> 'e Scanner \<times> bytes \<times> 'e read_error option" where
  "ReadFull n s =
     (if n \<le> length (sc_rest s) then (s\<lparr>sc_rest := drop n (sc_rest s)\<rparr>, take n (sc_rest s), None)
      else (s\<lparr>sc_rest := []\<rparr>, sc_rest s,
        Some (case sc_end s of
            None \<Rightarrow> if sc_rest s = [] then Eof else UnexpectedEof
          | Some x \<Rightarrow> StreamError x)))"

definition WithMaxPayloadSize :: "goint \<Rightarrow> 'e Scanner \<Rightarrow> 'e Scanner" where
  "WithMaxPayloadSize n s = s\<lparr>sc_maxPayloadSize := n\<rparr>"

definition NewScanner :: "bytes \<Rightarrow> 'e option \<Rightarrow> ('e Scanner \<Rightarrow> 'e Scanner) list \<Rightarrow> 'e Scanner" where
  "NewScanner r fin opts =
     fold (\<lambda>opt s. opt s) opts \<lparr>sc_rest = r, sc_end = fin, sc_maxPayloadSize = DefaultMaxPayloadSize\<rparr>"

definition parseSEQ :: "bytes list \<Rightarrow> 'e frame_error + Frame" where
  "parseSEQ words =
     (if length words \<noteq> 4 then Inl (SeqFieldCount (length words))
      else try_then (parseInt31 (words ! 1) ''channel'') (\<lambda>channel.
           try_then (parseUint32 (words ! 2) ''ackno'') (\<lambda>ackno.
           try_then (parseUint32 (words ! 3) ''window'') (\<lambda>window.
           Inr (Frame_zero\<lparr>Type := FrameSEQ, Channel := channel, Ackno := ackno, Window := window\<rparr>)))))"

text \<open>The header of a data frame, as a frame without its payload.\<close>

definition parse_data_header :: "FrameType \<Rightarrow> bytes list \<Rightarrow> 'e frame_error + Frame" where
  "parse_data_header ft words =
     (let expectedFields = (if ft = FrameANS then 7 else 6) in
      if length words \<noteq> expectedFields then Inl (FieldCount ft expectedFields (length words))
      else try_then (parseInt31 (words ! 1) ''channel'') (\<lambda>channel.
           try_then (parseInt31 (words ! 2) ''msgno'') (\<lambda>msgno.
           try_then (parseContinuation (words ! 3)) (\<lambda>more.
           try_then (parseUint32 (words ! 4) ''seqno'') (\<lambda>seqno.
           try_then (parseInt31 (words ! 5) ''size'') (\<lambda>size.
           try_then (if ft = FrameANS then parseInt31 (words ! 6) ''ansno'' else Inr 0) (\<lambda>ansno.
           if ft = FrameNUL \<and> more then Inl NulMore
           else if ft = FrameNUL \<and> size \<noteq> 0 then Inl (NulSize size)
           else Inr (Frame_zero\<lparr>Type := ft, Channel := channel, Msgno := msgno, More := more,
             Seqno := seqno, Size := size, Ansno := ansno\<rparr>))))))))"

definition parseDataFrame ::
    "FrameType \<Rightarrow> bytes list \<Rightarrow> 'e Scanner \<Rightarrow> 'e Scanner \<times> ('e frame_error + Frame)" where
  "parseDataFrame ft words s =
     (case parse_data_header ft words of
        Inl e \<Rightarrow> (s, Inl e)
      | Inr frame \<Rightarrow>
          let size = Size frame in
          if sint (sc_maxPayloadSize s) > 0 \<and> uint size > sint (sc_maxPayloadSize s)
          then (s, Inl (PayloadTooLarge size (sc_maxPayloadSize s)))
          else (case (if size > 0 then ReadFull (unat size) s else (s, [], None)) of
            (s, payload, Some err) \<Rightarrow> (s, Inl (PayloadRead size err))
          | (s, payload, None) \<Rightarrow>
              (case ReadFull 5 s of
                 (s, trailer, Some err) \<Rightarrow> (s, Inl (TrailerRead err))
               | (s, trailer, None) \<Rightarrow>
                   if trailer \<noteq> lit ''END'' @ [13, 10] then (s, Inl (TrailerBad trailer))
                   else (s, Inr (frame\<lparr>Payload := payload\<rparr>)))))"

text \<open>The header line without its end, or the error that stops the scan.\<close>

definition check_line :: "bytes \<Rightarrow> 'e frame_error + bytes" where
  "check_line line =
     (if length line > maxHeaderLen then Inl (HeaderTooLong (length line))
      else if length line < 2 \<or> line ! (length line - 2) \<noteq> 13 \<or> line ! (length line - 1) \<noteq> 10
      then Inl HeaderNoCRLF
      else Inr (take (length line - 2) line))"

definition wrap_bad :: "'e frame_error + 'a \<Rightarrow> 'e scan_error + 'a" where
  "wrap_bad r = map_sum Bad id r"

definition Scan :: "'e Scanner \<Rightarrow> 'e Scanner \<times> ('e scan_error + Frame)" where
  "Scan s =
     (case ReadLine s of
        (s, line, Some err) \<Rightarrow>
          if err = Eof \<and> line = [] then (s, Inl EndOfFrames) else (s, Inl (Bad (HeaderRead err)))
      | (s, line, None) \<Rightarrow>
          (case check_line line of
             Inl e \<Rightarrow> (s, Inl (Bad e))
           | Inr line \<Rightarrow>
               let words = Fields line in
               if length words < 1 then (s, Inl (Bad HeaderEmpty))
               else (case keywordToType (hd words) of
                  None \<Rightarrow> (s, Inl (Bad (UnknownKeyword (hd words))))
                | Some ft \<Rightarrow>
                    if ft = FrameSEQ then (s, wrap_bad (parseSEQ words))
                    else map_prod id wrap_bad (parseDataFrame ft words s))))"

end
