(* ===== verification/RFC3195_Scan.thy ===== *)
theory RFC3195_Scan
  imports RFC3195_Frame
begin

text \<open>
  The scanner of BEEP frames: every frame that it returns is well-formed, well-formed frames are read
  back from their text, and a scan that succeeds consumes input.
\<close>

section \<open>Well-formed frames\<close>

text \<open>The frames of the RFCs, with a payload of the size declared and within the limit.\<close>

definition is31 :: "uint32 \<Rightarrow> bool" where
  "is31 v \<longleftrightarrow> unat v \<le> maxInt31"

definition within_limit :: "goint \<Rightarrow> uint32 \<Rightarrow> bool" where
  "within_limit mx n \<longleftrightarrow> \<not> (sint mx > 0 \<and> uint n > sint mx)"

definition frame_ok :: "goint \<Rightarrow> Frame \<Rightarrow> bool" where
  "frame_ok mx f \<longleftrightarrow>
     Type f \<in> {FrameMSG, FrameRPY, FrameERR, FrameANS, FrameNUL, FrameSEQ} \<and> is31 (Channel f) \<and>
     (if Type f = FrameSEQ
      then Msgno f = 0 \<and> \<not> More f \<and> Seqno f = 0 \<and> Size f = 0 \<and> Ansno f = 0 \<and> Payload f = []
      else is31 (Msgno f) \<and> is31 (Size f) \<and> is31 (Ansno f) \<and> (Type f \<noteq> FrameANS \<longrightarrow> Ansno f = 0) \<and>
        (Type f = FrameNUL \<longrightarrow> \<not> More f \<and> Size f = 0) \<and> Ackno f = 0 \<and> Window f = 0 \<and>
        length (Payload f) = unat (Size f) \<and> within_limit mx (Size f))"

section \<open>What the parts accept\<close>

lemma parseUint32_Inr: "parseUint32 b name = Inr v \<Longrightarrow> \<exists>n. ParseUint 32 b = Inr n \<and> v = of_nat n"
  by (auto simp: parseUint32_def split: sum.splits)

lemma parseInt31_Inr: "parseInt31 b name = Inr v \<Longrightarrow> is31 v"
  by (auto simp: parseInt31_def is31_def maxInt31_def unat_of_nat take_bit_nat_eq_self
      split: sum.splits if_splits)

lemma parseSEQ_ok: "parseSEQ words = Inr f \<Longrightarrow> frame_ok mx f"
  by (auto simp: parseSEQ_def try_then_Inr frame_ok_def frame_types Frame_zero_def dest: parseInt31_Inr
      split: if_splits)

lemma parse_data_header_ok:
  assumes "parse_data_header ft words = Inr f" "ft \<in> {FrameMSG, FrameRPY, FrameERR, FrameANS, FrameNUL}"
  shows "Type f = ft" "length p = unat (Size f) \<Longrightarrow> within_limit mx (Size f) \<Longrightarrow> frame_ok mx (f\<lparr>Payload := p\<rparr>)"
proof -
  have "is31 0"
    by (simp add: is31_def)
  then show "Type f = ft" "length p = unat (Size f) \<Longrightarrow> within_limit mx (Size f) \<Longrightarrow> frame_ok mx (f\<lparr>Payload := p\<rparr>)"
    using assms
    by (auto simp: parse_data_header_def try_then_Inr frame_ok_def Frame_zero_def Let_def
        frame_types dest: parseInt31_Inr split: if_splits)
qed

lemma ReadFull_Some: "ReadFull n s = (s', p, None) \<Longrightarrow>
    length p = n \<and> sc_rest s = p @ sc_rest s' \<and> sc_end s' = sc_end s \<and> sc_maxPayloadSize s' = sc_maxPayloadSize s"
  by (auto simp: ReadFull_def split: if_splits)

lemma ReadLine_None: "ReadLine s = (s', line, None) \<Longrightarrow>
    line \<noteq> [] \<and> 10 \<notin> set (butlast line) \<and> sc_rest s = line @ sc_rest s' \<and> sc_end s' = sc_end s \<and>
    sc_maxPayloadSize s' = sc_maxPayloadSize s"
proof -
  assume a: "ReadLine s = (s', line, None)"
  then obtain b r where "dropWhile (\<lambda>b. b \<noteq> 10) (sc_rest s) = b # r"
    by (cases "dropWhile (\<lambda>b. b \<noteq> 10) (sc_rest s)") (auto simp: ReadLine_def)
  moreover from this have "sc_rest s = takeWhile (\<lambda>b. b \<noteq> 10) (sc_rest s) @ b # r"
    by (metis takeWhile_dropWhile_id)
  ultimately show ?thesis
    using a by (auto simp: ReadLine_def dest: set_takeWhileD)
qed

lemma check_line_Inr:
  assumes "check_line line = (Inr body :: 'e frame_error + bytes)"
  shows "line = body @ [13, 10]" "length line \<le> maxHeaderLen"
proof -
  have len: "2 \<le> length line" "line ! (length line - 2) = 13" "line ! (length line - 1) = 10"
      "body = take (length line - 2) line" "length line \<le> maxHeaderLen"
    using assms by (auto simp: check_line_def split: if_splits)
  have "drop (length line - 2) line = [13, 10]"
  proof (rule nth_equalityI)
    show "length (drop (length line - 2) line) = length [13 :: byte, 10]"
      using len(1) by simp
    fix i assume "i < length (drop (length line - 2) line)"
    then have "i = 0 \<or> i = 1"
      using len(1) by auto
    then show "drop (length line - 2) line ! i = [13, 10] ! i"
      using len(1-3) by (auto simp: Suc_diff_le numeral_2_eq_2)
  qed
  then show "line = body @ [13, 10]" "length line \<le> maxHeaderLen"
    using len(4,5) append_take_drop_id [of "length line - 2" line] by simp_all
qed

lemma keyword_types:
  "keywordToType b = Some ft \<Longrightarrow> ft \<in> {FrameMSG, FrameRPY, FrameERR, FrameANS, FrameNUL, FrameSEQ}"
  unfolding keywordToType_def by (drule map_of_SomeD) auto

text \<open>What one scanner has read more than the other.\<close>

definition advanced :: "'e Scanner \<Rightarrow> 'e Scanner \<Rightarrow> bool" where
  "advanced s s' \<longleftrightarrow> (\<exists>x. x \<noteq> [] \<and> sc_rest s = x @ sc_rest s') \<and> sc_end s' = sc_end s \<and>
     sc_maxPayloadSize s' = sc_maxPayloadSize s"

lemma advanced_length: "advanced s s' \<Longrightarrow> length (sc_rest s') < length (sc_rest s)"
  by (auto simp: advanced_def)

text \<open>
  The bytes of a frame: a header line with its keyword, and for data frames the payload and the
  trailer; the stream behind them is what is left.
\<close>

definition read_frame :: "'e Scanner \<Rightarrow> Frame \<Rightarrow> 'e Scanner \<Rightarrow> bool" where
  "read_frame s f s' \<longleftrightarrow>
     (\<exists>line. sc_rest s = line @ [13, 10] @
          (if Type f = FrameSEQ then [] else Payload f @ lit ''END'' @ [13, 10]) @ sc_rest s' \<and>
        10 \<notin> set line \<and> length line + 2 \<le> maxHeaderLen \<and> Fields line \<noteq> [] \<and>
        keywordToType (hd (Fields line)) = Some (Type f)) \<and>
     sc_end s' = sc_end s \<and> sc_maxPayloadSize s' = sc_maxPayloadSize s"

lemma read_frame_advanced: "read_frame s f s' \<Longrightarrow> advanced s s'"
  unfolding read_frame_def advanced_def by fastforce

lemma parseDataFrame_ok:
  assumes "parseDataFrame ft words s = (s', Inr f)" "ft \<in> {FrameMSG, FrameRPY, FrameERR, FrameANS, FrameNUL}"
  shows "frame_ok (sc_maxPayloadSize s) f" "Type f = ft"
    "sc_rest s = Payload f @ lit ''END'' @ [13, 10] @ sc_rest s'" "sc_end s' = sc_end s"
    "sc_maxPayloadSize s' = sc_maxPayloadSize s"
proof -
  obtain h where h: "parse_data_header ft words = (Inr h :: 'a frame_error + Frame)"
    using assms(1) by (auto simp: parseDataFrame_def split: sum.splits)
  have lim: "within_limit (sc_maxPayloadSize s) (Size h)"
    using assms(1) by (auto simp: parseDataFrame_def h Let_def within_limit_def split: if_splits)
  obtain s1 p where p: "(if Size h > 0 then ReadFull (unat (Size h)) s else (s, [], None)) = (s1, p, None)"
    using assms(1) by (auto simp: parseDataFrame_def h Let_def split: if_splits prod.splits option.splits)
  obtain t where t: "ReadFull 5 s1 = (s', t, None)" "f = h\<lparr>Payload := p\<rparr>" "t = lit ''END'' @ [13, 10]"
    using assms(1) p by (auto simp: parseDataFrame_def h Let_def split: if_splits prod.splits option.splits)
  have len: "length p = unat (Size h)" "sc_rest s = p @ sc_rest s1" "sc_end s1 = sc_end s"
      "sc_maxPayloadSize s1 = sc_maxPayloadSize s"
    using p ReadFull_Some [of "unat (Size h)" s s1 p] by (auto simp: word_gt_0 split: if_splits)
  show "frame_ok (sc_maxPayloadSize s) f" "Type f = ft"
    using parse_data_header_ok [OF h assms(2)] len(1) lim t(2) by simp_all
  show "sc_rest s = Payload f @ lit ''END'' @ [13, 10] @ sc_rest s'" "sc_end s' = sc_end s"
    "sc_maxPayloadSize s' = sc_maxPayloadSize s"
    using ReadFull_Some [OF t(1)] len t(2,3) by simp_all
qed

lemma Scan_reads:
  assumes "Scan s = (s', Inr f)"
  shows "frame_ok (sc_maxPayloadSize s) f \<and> read_frame s f s'"
proof -
  obtain s1 line where line: "ReadLine s = (s1, line, None)"
    using assms by (auto simp: Scan_def split: prod.splits option.splits if_splits)
  obtain body where body: "check_line line = (Inr body :: 'a frame_error + bytes)"
    using assms by (auto simp: Scan_def line Let_def split: sum.splits)
  let ?words = "Fields body"
  obtain ft where ft: "keywordToType (hd ?words) = Some ft" "?words \<noteq> []"
    using assms by (auto simp: Scan_def line body Let_def split: option.splits if_splits)
  have s1: "sc_rest s = body @ [13, 10] @ sc_rest s1" "10 \<notin> set body" "length body + 2 \<le> maxHeaderLen"
      "sc_end s1 = sc_end s" "sc_maxPayloadSize s1 = sc_maxPayloadSize s"
    using ReadLine_None [OF line] check_line_Inr [OF body] by (auto simp: butlast_append)
  show ?thesis
  proof (cases "ft = FrameSEQ")
    case True
    then have "s' = s1" "wrap_bad (parseSEQ ?words) = (Inr f :: 'a scan_error + Frame)"
      using assms by (simp_all add: Scan_def line body Let_def ft split: if_splits)
    then have f: "parseSEQ ?words = (Inr f :: 'a frame_error + Frame)"
      by (cases "parseSEQ ?words :: 'a frame_error + Frame") (auto simp: wrap_bad_def)
    moreover have "Type f = FrameSEQ"
      using f by (auto simp: parseSEQ_def try_then_Inr split: if_splits)
    ultimately show ?thesis
      using s1 ft True \<open>s' = s1\<close> parseSEQ_ok [OF f] by (auto simp: read_frame_def)
  next
    case False
    then have "map_prod id wrap_bad (parseDataFrame ft ?words s1) = (s', Inr f)"
      using assms by (simp add: Scan_def line body Let_def ft split: if_splits)
    then have run: "parseDataFrame ft ?words s1 = (s', Inr f)"
      by (cases "parseDataFrame ft ?words s1"; cases "snd (parseDataFrame ft ?words s1)")
        (auto simp: wrap_bad_def)
    have "ft \<in> {FrameMSG, FrameRPY, FrameERR, FrameANS, FrameNUL}"
      using False keyword_types [OF ft(1)] by auto
    from parseDataFrame_ok [OF run this] show ?thesis
      using s1 ft False by (auto simp: read_frame_def)
  qed
qed

lemma Scan_ok:
  assumes "Scan s = (s', Inr f)"
  shows "frame_ok (sc_maxPayloadSize s) f \<and> advanced s s'"
  using Scan_reads [OF assms] read_frame_advanced by blast


section \<open>The text of a frame\<close>

fun join_words :: "bytes list \<Rightarrow> bytes" where
  "join_words [] = []"
| "join_words [w] = w"
| "join_words (w # v # ws) = w @ 32 # join_words (v # ws)"

definition frame_words :: "Frame \<Rightarrow> bytes list" where
  "frame_words f =
     (let num = (\<lambda>v :: uint32. dec_string (unat v)) in
      frameTypeNames ! nat (Type f) # num (Channel f) #
        (if Type f = FrameSEQ then [num (Ackno f), num (Window f)]
         else [num (Msgno f), [if More f then 42 else 46], num (Seqno f), num (Size f)] @
           (if Type f = FrameANS then [num (Ansno f)] else [])))"

definition frame_text :: "Frame \<Rightarrow> bytes" where
  "frame_text f = join_words (frame_words f) @ [13, 10] @
     (if Type f = FrameSEQ then [] else Payload f @ lit ''END'' @ [13, 10])"

lemma graph_width: "is_graph b \<Longrightarrow> rune_width (b # r) = Some 1 \<and> \<not> is_space [b]"
  by (auto simp: rune_width.simps is_space_def is_graph_def word_le_nat_alt word_less_nat_alt)

lemma fields_word: "list_all is_graph w \<Longrightarrow> fields_loop (w @ s) field = fields_loop s (field @ w)"
proof (induction w arbitrary: field)
  case (Cons b w)
  then show ?case
    using graph_width [of b "w @ s"] by (simp add: fields_loop.simps [of "b # w @ s"])
qed simp

lemma fields_space: "fields_loop (32 # s) field = flush field @ fields_loop s []"
  by (simp add: fields_loop.simps [of "32 # s"] rune_width.simps is_space_def)

lemma Fields_join: "\<forall>w\<in>set ws. w \<noteq> [] \<and> list_all is_graph w \<Longrightarrow> Fields (join_words ws) = ws"
proof (induction ws rule: join_words.induct)
  case (2 w)
  then show ?case
    using fields_word [of w "[]" "[]"] by (simp add: Fields_def fields_loop.simps [of "[]"] flush_def)
next
  case (3 w v ws)
  then show ?case
    using fields_word [of w "32 # join_words (v # ws)" "[]"]
    by (simp add: Fields_def fields_space flush_def)
qed (simp add: Fields_def fields_loop.simps flush_def)

lemma digits_graph: "list_all is_digit w \<Longrightarrow> list_all is_graph w"
  by (auto simp: list_all_iff is_digit_def is_graph_def word_le_nat_alt)

lemma dec_word: "dec_string n \<noteq> []" "list_all is_graph (dec_string n)"
  using dec_string_digits [of n] digits_graph by auto

lemma frame_words_ok:
  assumes "frame_ok mx f"
  shows "\<forall>w\<in>set (frame_words f). w \<noteq> [] \<and> list_all is_graph w"
proof -
  have "frameTypeNames ! nat (Type f) \<noteq> [] \<and> list_all is_graph (frameTypeNames ! nat (Type f))"
    using assms by (auto simp: frame_ok_def frame_types frameTypeNames_def is_graph_def)
  then show ?thesis
    using dec_word by (auto simp: frame_words_def Let_def is_graph_def)
qed

lemma dec_string_32: "length (dec_string (unat (v :: uint32))) \<le> 10"
  using dec_string_length [of "unat v" 9] unsigned_less [of v, where 'a = nat] by simp

lemma join_graph: "\<forall>w\<in>set ws. list_all is_graph w \<Longrightarrow> 10 \<notin> set (join_words ws)"
  by (induction ws rule: join_words.induct) (auto simp: list_all_iff is_graph_def)

lemma header_length:
  assumes "frame_ok mx f"
  shows "length (join_words (frame_words f)) \<le> 65"
proof -
  have "length (frameTypeNames ! nat (Type f)) = 3"
    using assms by (auto simp: frame_ok_def frame_types frameTypeNames_def)
  then show ?thesis
    using dec_string_32 [of "Channel f"] dec_string_32 [of "Ackno f"] dec_string_32 [of "Window f"]
      dec_string_32 [of "Msgno f"] dec_string_32 [of "Seqno f"] dec_string_32 [of "Size f"]
      dec_string_32 [of "Ansno f"]
    by (simp add: frame_words_def Let_def)
qed

section \<open>Reading a frame back\<close>

lemma parseUint32_dec: "parseUint32 (dec_string (unat v)) name = Inr v"
proof -
  have "unat v < 2 ^ 32"
    using unsigned_less [of v, where 'a = nat] by simp
  then show ?thesis
    using dec_string_digits [of "unat v"] by (simp add: parseUint32_def ParseUint_digits dec_string_value)
qed

lemma parseInt31_dec: "is31 v \<Longrightarrow> parseInt31 (dec_string (unat v)) name = Inr v"
  using dec_string_digits [of "unat v"]
  by (simp add: parseInt31_def ParseUint_digits dec_string_value is31_def maxInt31_def)

lemma keyword_of_name:
  "frame_ok mx f \<Longrightarrow> keywordToType (frameTypeNames ! nat (Type f)) = Some (Type f)"
  by (auto simp: frame_ok_def frame_types frameTypeNames_def keywordToType_def)

lemma parseSEQ_words:
  assumes "frame_ok mx f" "Type f = FrameSEQ"
  shows "parseSEQ (frame_words f) = Inr f"
  using assms
  by (cases f) (simp add: parseSEQ_def frame_words_def Let_def parseUint32_dec parseInt31_dec
      frame_ok_def Frame_zero_def)

lemma parse_data_header_words:
  assumes "frame_ok mx f" "Type f \<noteq> FrameSEQ"
  shows "parse_data_header (Type f) (frame_words f) = Inr (f\<lparr>Payload := []\<rparr>)"
  using assms
  by (cases f) (auto simp: parse_data_header_def frame_words_def Let_def parseUint32_dec parseInt31_dec
      frame_ok_def Frame_zero_def parseContinuation_def)

lemma ReadFull_append:
  "sc_rest s = p @ r \<Longrightarrow> ReadFull (length p) s = (s\<lparr>sc_rest := r\<rparr>, p, None)"
  by (simp add: ReadFull_def)

lemma parseDataFrame_words:
  assumes "frame_ok (sc_maxPayloadSize s) f" "Type f \<noteq> FrameSEQ"
    and "sc_rest s = Payload f @ lit ''END'' @ [13, 10] @ r"
  shows "parseDataFrame (Type f) (frame_words f) s = (s\<lparr>sc_rest := r\<rparr>, Inr f)"
proof -
  have f: "length (Payload f) = unat (Size f)" "within_limit (sc_maxPayloadSize s) (Size f)"
    using assms(1,2) by (simp_all add: frame_ok_def)
  have p: "(if Size f > 0 then ReadFull (unat (Size f)) s else (s, [], None)) =
      (s\<lparr>sc_rest := lit ''END'' @ [13, 10] @ r\<rparr>, Payload f, None)"
  proof (cases "Size f > 0")
    case True
    then show ?thesis
      using ReadFull_append [OF assms(3)] f(1) by simp
  next
    case False
    then have "Size f = 0"
      by (simp add: word_gt_0)
    then show ?thesis
      using f(1) assms(3) by (cases s) simp
  qed
  have "ReadFull 5 (s\<lparr>sc_rest := lit ''END'' @ [13, 10] @ r\<rparr>) = (s\<lparr>sc_rest := r\<rparr>, lit ''END'' @ [13, 10], None)"
    by (simp add: ReadFull_def)
  then show ?thesis
    using f(2) p
    by (simp add: parseDataFrame_def parse_data_header_words [OF assms(1,2)] Let_def within_limit_def)
qed

lemma Scan_frame_text:
  assumes "frame_ok (sc_maxPayloadSize s) f" "sc_rest s = frame_text f @ r"
  shows "Scan s = (s\<lparr>sc_rest := r\<rparr>, Inr f)"
proof -
  let ?h = "join_words (frame_words f)"
  let ?p = "if Type f = FrameSEQ then [] else Payload f @ lit ''END'' @ [13, 10]"
  have "10 \<notin> set (?h @ [13])"
    using join_graph [of "frame_words f"] frame_words_ok [OF assms(1)] by simp
  then have "takeWhile (\<lambda>b. b \<noteq> 10) ((?h @ [13]) @ 10 # ?p @ r) = ?h @ [13]"
    "dropWhile (\<lambda>b. b \<noteq> 10) ((?h @ [13]) @ 10 # ?p @ r) = 10 # ?p @ r"
    by (subst takeWhile_append2 dropWhile_append2; auto)+
  then have line: "ReadLine s = (s\<lparr>sc_rest := ?p @ r\<rparr>, ?h @ [13, 10], None)"
    using assms(2) by (simp add: ReadLine_def frame_text_def)
  have check: "check_line (?h @ [13, 10]) = (Inr ?h :: 'a frame_error + bytes)"
    using header_length [OF assms(1)] by (simp add: check_line_def maxHeaderLen_def nth_append)
  have words: "Fields ?h = frame_words f" "frame_words f \<noteq> []"
    "hd (frame_words f) = frameTypeNames ! nat (Type f)"
    using Fields_join [OF frame_words_ok [OF assms(1)]] by (simp_all add: frame_words_def Let_def)
  show ?thesis
  proof (cases "Type f = FrameSEQ")
    case True
    then show ?thesis
      using line check words keyword_of_name [OF assms(1)]
      by (simp add: Scan_def wrap_bad_def Let_def parseSEQ_words [OF assms(1)])
  next
    case False
    then have "parseDataFrame (Type f) (frame_words f) (s\<lparr>sc_rest := ?p @ r\<rparr>) = (s\<lparr>sc_rest := r\<rparr>, Inr f)"
      using parseDataFrame_words [of "s\<lparr>sc_rest := ?p @ r\<rparr>" f r] assms(1) by simp
    then show ?thesis
      using False line check words keyword_of_name [OF assms(1)] by (simp add: Scan_def wrap_bad_def Let_def)
  qed
qed

section \<open>The frames of a stream\<close>

text \<open>All the frames that scans return one after the other, and the error that ends them.\<close>

function scan_all :: "'e Scanner \<Rightarrow> Frame list \<times> 'e scan_error" where
  "scan_all s =
     (case Scan s of
        (s', Inl e) \<Rightarrow> ([], e)
      | (s', Inr f) \<Rightarrow> (case scan_all s' of (fs, e) \<Rightarrow> (f # fs, e)))"
  by pat_completeness auto
termination
  by (relation "measure (\<lambda>s. length (sc_rest s))") (auto dest!: Scan_ok [OF sym] simp: advanced_length)

declare scan_all.simps [simp del]

lemma scan_all_texts:
  assumes "\<forall>f\<in>set fs. frame_ok (sc_maxPayloadSize s) f" "sc_rest s = concat (map frame_text fs) @ r"
  shows "scan_all s = (case scan_all (s\<lparr>sc_rest := r\<rparr>) of (gs, e) \<Rightarrow> (fs @ gs, e))"
  using assms
proof (induction fs arbitrary: s)
  case (Cons f fs)
  let ?s = "s\<lparr>sc_rest := concat (map frame_text fs) @ r\<rparr>"
  have "Scan s = (?s, Inr f)"
    using Cons.prems by (intro Scan_frame_text) simp_all
  moreover have "scan_all ?s = (case scan_all (s\<lparr>sc_rest := r\<rparr>) of (gs, e) \<Rightarrow> (fs @ gs, e))"
    using Cons.IH [of ?s] Cons.prems by simp
  ultimately show ?case
    by (simp add: scan_all.simps [of s] split: prod.splits)
next
  case Nil
  then have "s\<lparr>sc_rest := r\<rparr> = s"
    by (cases s) simp
  then show ?case
    by simp
qed

text \<open>The scanner as the parsers create it, on a stream that starts with the texts of frames.\<close>

lemma scanner_texts:
  assumes "\<forall>f\<in>set fs. frame_ok (if sint n > 0 then n else DefaultMaxPayloadSize) f"
  obtains gs e where "scan_all (NewScanner (concat (map frame_text fs) @ r) fin
    (if sint n > 0 then [WithMaxPayloadSize n] else [])) = (fs @ gs, e)"
proof -
  let ?s = "NewScanner (concat (map frame_text fs) @ r) fin (if sint n > 0 then [WithMaxPayloadSize n] else [])"
  have s: "sc_rest ?s = concat (map frame_text fs) @ r"
    "sc_maxPayloadSize ?s = (if sint n > 0 then n else DefaultMaxPayloadSize)"
    by (simp_all add: NewScanner_def WithMaxPayloadSize_def)
  have "\<forall>f\<in>set fs. frame_ok (sc_maxPayloadSize ?s) f"
    using assms by (simp add: s(2))
  from scan_all_texts [OF this s(1)] show ?thesis
    using that by (auto split: prod.splits)
qed

lemma scan_all_empty: "sc_rest s = [] \<Longrightarrow> sc_end s = None \<Longrightarrow> scan_all s = ([], EndOfFrames)"
  by (simp add: scan_all.simps [of s] Scan_def ReadLine_def stream_error_def)

lemma scan_all_ok: "scan_all s = (fs, e) \<Longrightarrow> \<forall>f\<in>set fs. frame_ok (sc_maxPayloadSize s) f"
proof (induction s arbitrary: fs e rule: scan_all.induct)
  case (1 s)
  show ?case
  proof (cases "Scan s")
    case (Pair s' r)
    then show ?thesis
      using 1 Scan_ok [of s s'] by (cases r) (auto simp: scan_all.simps [of s] advanced_def split: prod.splits)
  qed
qed

section \<open>Results\<close>

text \<open>
  C19: A well-formed frame of any type, written out with single spaces, is read back by the scanner,
  whatever follows it on the stream, and the scanner stops right behind it.
\<close>

theorem Scan_roundtrip:
  assumes "frame_ok (sc_maxPayloadSize s) f" "sc_rest s = frame_text f @ r"
  shows "Scan s = (s\<lparr>sc_rest := r\<rparr>, Inr f)"
  using assms by (rule Scan_frame_text)

text \<open>
  C20: Whatever the stream holds, a frame that the scanner returns is well-formed: its numbers are in
  the ranges of RFC 3080, its payload has the size declared and does not pass the limit, a NUL frame
  is complete and empty, and the fields of other types of frame are zero. The bytes that the scan has
  consumed are exactly a header line of at most 128 bytes up to its CR LF, which starts with the
  keyword of the type of the frame, and, if it is no SEQ frame, the payload and END CR LF; what comes
  behind them is still to be read.
\<close>

theorem Scan_wellformed:
  assumes "Scan s = (s', Inr f)"
  shows "frame_ok (sc_maxPayloadSize s) f \<and>
    (\<exists>line. sc_rest s = line @ [13, 10] @
        (if Type f = FrameSEQ then [] else Payload f @ lit ''END'' @ [13, 10]) @ sc_rest s' \<and>
      10 \<notin> set line \<and> length line + 2 \<le> 128 \<and> Fields line \<noteq> [] \<and>
      keywordToType (hd (Fields line)) = Some (Type f)) \<and>
    sc_end s' = sc_end s \<and> sc_maxPayloadSize s' = sc_maxPayloadSize s"
  using Scan_reads [OF assms] unfolding read_frame_def maxHeaderLen_def .

text \<open>The name of a type: a negative number is an index below the names.\<close>

lemma FrameType_String_panics: "FrameType_String ft = None \<longleftrightarrow> ft < 0"
  by (auto simp: FrameType_String_def frameTypeNames_def gindex_def nat_less_iff)

section \<open>The properties at work\<close>

text \<open>An ANS frame and the stream that holds it.\<close>

definition sample_frame :: Frame where
  "sample_frame = Frame_zero\<lparr>Type := FrameANS, Channel := 1, Size := 3, Ansno := 2, Payload := lit ''abc''\<rparr>"

definition sample_stream :: "unit Scanner" where
  "sample_stream = NewScanner (lit ''ANS 1 0 . 0 3 2'' @ [13, 10] @ lit ''abcEND'' @ [13, 10] @ lit ''rest'') None []"

lemma sample_frame_ok: "frame_ok (sc_maxPayloadSize sample_stream) sample_frame"
  by (simp add: frame_ok_def sample_frame_def sample_stream_def NewScanner_def Frame_zero_def frame_types
      is31_def maxInt31_def within_limit_def DefaultMaxPayloadSize_def)

lemma sample_stream_text: "sc_rest sample_stream = frame_text sample_frame @ lit ''rest''"
  by (simp add: sample_stream_def NewScanner_def frame_text_def frame_words_def sample_frame_def Let_def
      Frame_zero_def frame_types frameTypeNames_def dec_string.simps dig_def)

theorem Scan_roundtrip_witness:
  "Scan sample_stream = (sample_stream\<lparr>sc_rest := lit ''rest''\<rparr>, Inr sample_frame)"
  using Scan_roundtrip [OF sample_frame_ok sample_stream_text] .

theorem Scan_wellformed_witness:
  "frame_ok (sc_maxPayloadSize sample_stream) sample_frame \<and>
   (\<exists>line. sc_rest sample_stream = line @ [13, 10] @ lit ''abcEND'' @ [13, 10] @ lit ''rest'' \<and>
     10 \<notin> set line \<and> keywordToType (hd (Fields line)) = Some FrameANS)"
  using Scan_wellformed [OF Scan_frame_text [OF sample_frame_ok sample_stream_text]]
  by (auto simp: sample_frame_def frame_types)

end
