(* ===== verification/RFC3195_Raw.thy ===== *)
theory RFC3195_Raw
  imports RFC3195_Scan Parser_Options
begin

text \<open>
  rfc3195/raw.go: the parser of the RAW profile around any \<open>syslog.Machine\<close>. Syslog messages arrive in
  the payloads of ANS frames; the parser is a loop over the frames that the scanner reads. The locale
  at the end holds what it does around any machine that keeps the contract.
\<close>

section \<open>The parser\<close>

datatype ('err, 'e) raw_error =
    RawScan "'e frame_error"
  | RawERR bytes
  | RawInner 'err

record ('opt, 'm, 'msg, 'err, 'e) raw_parser =
  raw_bestEffort :: bool
  raw_maxMessageLength :: goint
  raw_internal :: 'm
  raw_internalOpts :: "'opt list"
  raw_emitted :: "('msg, ('err, 'e) raw_error) Result list"

definition raw_emit ::
    "('msg, ('err, 'e) raw_error) Result \<Rightarrow> ('opt, 'm, 'msg, 'err, 'e) raw_parser \<Rightarrow>
     ('opt, 'm, 'msg, 'err, 'e) raw_parser" where
  "raw_emit r p = p\<lparr>raw_emitted := raw_emitted p @ [r]\<rparr>"

definition raw_WithBestEffort ::
    "('opt, 'm, 'msg, 'err, 'e) raw_parser \<Rightarrow> ('opt, 'm, 'msg, 'err, 'e) raw_parser" where
  "raw_WithBestEffort p = p\<lparr>raw_bestEffort := True\<rparr>"

definition raw_HasBestEffort :: "('opt, 'm, 'msg, 'err, 'e) raw_parser \<Rightarrow> bool" where
  "raw_HasBestEffort p = raw_bestEffort p"

definition raw_WithMachineOptions ::
    "'opt list \<Rightarrow> ('opt, 'm, 'msg, 'err, 'e) raw_parser \<Rightarrow> ('opt, 'm, 'msg, 'err, 'e) raw_parser" where
  "raw_WithMachineOptions opts p = p\<lparr>raw_internalOpts := raw_internalOpts p @ opts\<rparr>"

definition raw_WithMaxMessageLength ::
    "goint \<Rightarrow> ('opt, 'm, 'msg, 'err, 'e) raw_parser \<Rightarrow> ('opt, 'm, 'msg, 'err, 'e) raw_parser" where
  "raw_WithMaxMessageLength len p = p\<lparr>raw_maxMessageLength := len\<rparr>"

text \<open>The parser is no \<open>auto.AutoParserConfigurer\<close>.\<close>

definition raw_parser_methods :: "(('opt, 'm, 'msg, 'err, 'e) raw_parser, 'opt) Parser" where
  "raw_parser_methods =
     \<lparr>enable_BestEffort = raw_WithBestEffort, add_MachineOptions = raw_WithMachineOptions,
      set_MaxMessageLength = raw_WithMaxMessageLength, configurer = None\<rparr>"

interpretation raw_options: collecting raw_parser_methods raw_bestEffort raw_internalOpts
  by unfold_locales
    (auto simp: raw_parser_methods_def raw_WithBestEffort_def raw_WithMachineOptions_def
      raw_WithMaxMessageLength_def)

section \<open>Parse\<close>

text \<open>\<open>bytes.TrimSuffix\<close> with CR LF.\<close>

definition trim_crlf :: "bytes \<Rightarrow> bytes" where
  "trim_crlf x = (if length x \<ge> 2 \<and> drop (length x - 2) x = [13, 10] then take (length x - 2) x else x)"

definition processANS ::
    "('m, 'msg, 'err) Machine \<Rightarrow> Frame \<Rightarrow> ('opt, 'm, 'msg, 'err, 'e) raw_parser \<Rightarrow>
     ('opt, 'm, 'msg, 'err, 'e) raw_parser option" where
  "processANS I frame p =
     (let payload = trim_crlf (Payload frame) in
      if length payload = 0 then Some p
      else (case Parse_method I (raw_internal p) payload of
        None \<Rightarrow> None
      | Some (i, msg, err) \<Rightarrow>
          Some (raw_emit \<lparr>res_Message = (if \<not> raw_bestEffort p \<and> err \<noteq> None then None else msg),
            res_Error = map_option RawInner err\<rparr> (p\<lparr>raw_internal := i\<rparr>))))"

function raw_loop ::
    "('m, 'msg, 'err) Machine \<Rightarrow> 'e Scanner \<Rightarrow> ('opt, 'm, 'msg, 'err, 'e) raw_parser \<Rightarrow>
     ('opt, 'm, 'msg, 'err, 'e) raw_parser option" where
  "raw_loop I s p =
     (case Scan s of
        (s', Inl EndOfFrames) \<Rightarrow> Some p
      | (s', Inl (Bad e)) \<Rightarrow> Some (raw_emit \<lparr>res_Message = None, res_Error = Some (RawScan e)\<rparr> p)
      | (s', Inr frame) \<Rightarrow>
          if Type frame = FrameANS then
            (case processANS I frame p of None \<Rightarrow> None | Some p \<Rightarrow> raw_loop I s' p)
          else if Type frame = FrameNUL then Some p
          else if Type frame = FrameERR then
            Some (raw_emit \<lparr>res_Message = None, res_Error = Some (RawERR (Payload frame))\<rparr> p)
          else raw_loop I s' p)"
  by pat_completeness auto
termination
  by (relation "measure (\<lambda>(_, s, _). length (sc_rest s))")
    (auto dest!: Scan_ok [OF sym] simp: advanced_length)

declare raw_loop.simps [simp del]

definition raw_Parse ::
    "('m, 'msg, 'err) Machine \<Rightarrow> bytes \<Rightarrow> 'e option \<Rightarrow> ('opt, 'm, 'msg, 'err, 'e) raw_parser \<Rightarrow>
     ('opt, 'm, 'msg, 'err, 'e) raw_parser option" where
  "raw_Parse I r fin p =
     (let scanOpts = (if sint (raw_maxMessageLength p) > 0
        then [WithMaxPayloadSize (raw_maxMessageLength p)] else [])
      in raw_loop I (NewScanner r fin scanOpts) p)"

section \<open>The loop over the frames of a stream\<close>

text \<open>The loop as a recursion over all the frames.\<close>

fun raw_frames ::
    "('m, 'msg, 'err) Machine \<Rightarrow> Frame list \<Rightarrow> 'e scan_error \<Rightarrow> ('opt, 'm, 'msg, 'err, 'e) raw_parser \<Rightarrow>
     ('opt, 'm, 'msg, 'err, 'e) raw_parser option" where
  "raw_frames I [] e p =
     Some (case e of
        EndOfFrames \<Rightarrow> p
      | Bad x \<Rightarrow> raw_emit \<lparr>res_Message = None, res_Error = Some (RawScan x)\<rparr> p)"
| "raw_frames I (f # fs) e p =
     (if Type f = FrameANS then (case processANS I f p of None \<Rightarrow> None | Some p \<Rightarrow> raw_frames I fs e p)
      else if Type f = FrameNUL then Some p
      else if Type f = FrameERR
      then Some (raw_emit \<lparr>res_Message = None, res_Error = Some (RawERR (Payload f))\<rparr> p)
      else raw_frames I fs e p)"

lemma raw_loop_frames:
  fixes p :: "('opt, 'm, 'msg, 'err, 'e) raw_parser"
  shows "raw_loop I s p = (case scan_all s of (fs, e) \<Rightarrow> raw_frames I fs e p)"
proof (induction s arbitrary: p rule: scan_all.induct)
  case (1 s)
  obtain s' r where S: "Scan s = (s', r)"
    by fastforce
  show ?case
  proof (cases r)
    case (Inl e)
    then show ?thesis
      by (cases e) (simp_all add: S raw_loop.simps [of I s] scan_all.simps [of s])
  next
    case (Inr f)
    obtain fs e where fs: "scan_all s' = (fs, e)"
      by fastforce
    have "raw_loop I s' q = raw_frames I fs e q" for q :: "('opt, 'm, 'msg, 'err, 'e) raw_parser"
      using "1.IH" [OF S [unfolded Inr, symmetric] refl, of q] fs by simp
    then show ?thesis
      by (simp add: S Inr fs raw_loop.simps [of I s] scan_all.simps [of s] split: option.split)
  qed
qed

section \<open>Around any machine that keeps the contract\<close>

definition raw_result ::
    "('m, 'msg, 'err) Machine \<Rightarrow> bool \<Rightarrow> 'm \<Rightarrow> bytes \<Rightarrow> ('msg, ('err, 'e) raw_error) Result" where
  "raw_result I be m x =
     (case answer I m x of
        None \<Rightarrow> \<lparr>res_Message = None, res_Error = None\<rparr>
      | Some (msg, err) \<Rightarrow> \<lparr>res_Message = (if \<not> be \<and> err \<noteq> None then None else msg),
          res_Error = map_option RawInner err\<rparr>)"

text \<open>The limit on payloads: without a length of its own the scanner's default holds.\<close>

definition raw_limit :: "('opt, 'm, 'msg, 'err, 'e) raw_parser \<Rightarrow> goint" where
  "raw_limit p = (if sint (raw_maxMessageLength p) > 0 then raw_maxMessageLength p else DefaultMaxPayloadSize)"

text \<open>The payloads that are parsed: those of the ANS frames, without their line end, if not empty.\<close>

definition raw_payloads :: "Frame list \<Rightarrow> bytes list" where
  "raw_payloads fs =
     filter (\<lambda>x. x \<noteq> []) (map (\<lambda>f. trim_crlf (Payload f)) (filter (\<lambda>f. Type f = FrameANS) fs))"

text \<open>On a stream that starts with the texts of frames, these are the first frames the loop sees.\<close>

lemma raw_Parse_texts:
  fixes p :: "('opt, 'm, 'msg, 'err, 'e) raw_parser"
  assumes "\<forall>f\<in>set fs. frame_ok (raw_limit p) f"
  obtains gs e where "raw_Parse I (concat (map frame_text fs) @ r) fin p = raw_frames I (fs @ gs) e p"
proof -
  obtain gs e where "scan_all (NewScanner (concat (map frame_text fs) @ r) fin
    (if sint (raw_maxMessageLength p) > 0 then [WithMaxPayloadSize (raw_maxMessageLength p)] else [])) = (fs @ gs, e)"
    using assms scanner_texts unfolding raw_limit_def by blast
  then show ?thesis
    using that by (simp add: raw_Parse_def raw_loop_frames)
qed

locale raw_stream = syslog_machine I wf for I :: "('m, 'msg, 'err) Machine" and wf
begin

lemma processANS_result:
  fixes p :: "('opt, 'm, 'msg, 'err, 'e) raw_parser"
  assumes "wf (raw_internal p)" "trim_crlf (Payload f) \<noteq> []"
  obtains i where "processANS I f p = Some (raw_emit
      (raw_result I (raw_bestEffort p) (raw_internal p) (trim_crlf (Payload f))) (p\<lparr>raw_internal := i\<rparr>))"
    "like (raw_internal p) i"
proof -
  obtain i msg err where "Parse_method I (raw_internal p) (trim_crlf (Payload f)) = Some (i, msg, err)"
    "answer I (raw_internal p) (trim_crlf (Payload f)) = Some (msg, err)" "like (raw_internal p) i"
    using parse_cases [OF assms(1)] by metis
  then show ?thesis
    using assms(2) that by (simp add: processANS_def Let_def raw_result_def)
qed

text \<open>Frames that do not end the exchange.\<close>

lemma raw_frames_append:
  fixes p :: "('opt, 'm, 'msg, 'err, 'e) raw_parser"
  assumes "wf (raw_internal p)" "\<forall>f\<in>set fs. Type f \<noteq> FrameNUL \<and> Type f \<noteq> FrameERR"
  shows "\<exists>i. like (raw_internal p) i \<and> raw_frames I (fs @ gs) e p = raw_frames I gs e
    (p\<lparr>raw_internal := i, raw_emitted := raw_emitted p @
      map (raw_result I (raw_bestEffort p) (raw_internal p)) (raw_payloads fs)\<rparr>)"
  using assms
proof (induction fs arbitrary: p)
  case Nil
  then show ?case
    by (intro exI [of _ "raw_internal p"]) (simp add: like_refl raw_payloads_def)
next
  case (Cons f fs)
  show ?case
  proof (cases "Type f = FrameANS \<and> trim_crlf (Payload f) \<noteq> []")
    case True
    let ?r = "raw_result I (raw_bestEffort p) (raw_internal p)"
    obtain i where i: "processANS I f p =
        Some (raw_emit (?r (trim_crlf (Payload f))) (p\<lparr>raw_internal := i\<rparr>))"
      "like (raw_internal p) i"
      using processANS_result [of p f] Cons.prems(1) True by metis
    let ?q = "raw_emit (?r (trim_crlf (Payload f))) (p\<lparr>raw_internal := i\<rparr>)"
    have q: "raw_internal ?q = i" "raw_bestEffort ?q = raw_bestEffort p"
      "raw_emitted ?q = raw_emitted p @ [?r (trim_crlf (Payload f))]"
      by (simp_all add: raw_emit_def)
    have same: "raw_result I be i = raw_result I be (raw_internal p)" for be
      by (rule ext) (simp add: raw_result_def likeD(2) [OF i(2)])
    obtain j where "like i j" "raw_frames I (fs @ gs) e ?q = raw_frames I gs e
        (?q\<lparr>raw_internal := j, raw_emitted := raw_emitted ?q @ map (?r) (raw_payloads fs)\<rparr>)"
      using Cons.IH [of ?q] Cons.prems(2) likeD(1) [OF i(2)] unfolding q same by auto
    then show ?thesis
      using True i like_trans [OF i(2)] by (auto simp: raw_payloads_def raw_emit_def)
  next
    case False
    have "raw_frames I (f # fs @ gs) e p = raw_frames I (fs @ gs) e p"
      using False Cons.prems(2) by (auto simp: processANS_def)
    moreover have "raw_payloads (f # fs) = raw_payloads fs"
      using False by (auto simp: raw_payloads_def)
    ultimately show ?thesis
      using Cons.IH [of p] Cons.prems by simp
  qed
qed

lemma Parse_exchange:
  fixes p :: "('opt, 'm, 'msg, 'err, 'e) raw_parser"
  assumes "wf (raw_internal p)"
    and "\<forall>f\<in>set fs. frame_ok (raw_limit p) f \<and> Type f \<noteq> FrameNUL \<and> Type f \<noteq> FrameERR"
    and "frame_ok (raw_limit p) n" "Type n = FrameNUL"
  shows "\<exists>p'. raw_Parse I (concat (map frame_text fs) @ frame_text n @ r) fin p = Some p' \<and>
    raw_emitted p' = raw_emitted p @ map (raw_result I (raw_bestEffort p) (raw_internal p)) (raw_payloads fs)"
proof -
  have "\<forall>f\<in>set (fs @ [n]). frame_ok (raw_limit p) f"
    using assms(2,3) by simp
  from raw_Parse_texts [OF this, of I r fin] obtain gs e where
    all: "raw_Parse I (concat (map frame_text fs) @ frame_text n @ r) fin p = raw_frames I (fs @ n # gs) e p"
    by auto
  obtain i where "raw_frames I (fs @ n # gs) e p = raw_frames I (n # gs) e
    (p\<lparr>raw_internal := i, raw_emitted := raw_emitted p @
      map (raw_result I (raw_bestEffort p) (raw_internal p)) (raw_payloads fs)\<rparr>)"
    using raw_frames_append [OF assms(1)] assms(2) by blast
  then show ?thesis
    using assms(4) by (simp add: all frame_types)
qed

text \<open>Any stream at all.\<close>

definition raw_ok :: "bool \<Rightarrow> ('msg, ('err, 'e) raw_error) Result \<Rightarrow> bool" where
  "raw_ok be r \<longleftrightarrow> (\<not> be \<longrightarrow> res_Message r = None \<or> res_Error r = None) \<and>
     ((\<forall>m x. wf m \<longrightarrow> answer I m x \<noteq> Some (None, None)) \<longrightarrow> res_Message r \<noteq> None \<or> res_Error r \<noteq> None)"

lemma raw_result_ok:
  assumes "wf m"
  shows "raw_ok be (raw_result I be m x)"
proof -
  obtain msg err where A: "answer I m x = Some (msg, err)"
    by (rule parse_cases [OF assms])
  then show ?thesis
    using assms by (cases msg; cases err) (auto simp: raw_ok_def raw_result_def)
qed

lemma raw_frames_any:
  fixes p :: "('opt, 'm, 'msg, 'err, 'e) raw_parser"
  assumes "wf (raw_internal p)"
  shows "\<exists>p' rs. raw_frames I fs e p = Some p' \<and> raw_emitted p' = raw_emitted p @ rs \<and>
    (\<forall>r\<in>set rs. raw_ok (raw_bestEffort p) r) \<and>
    (\<forall>r\<in>set (butlast rs). \<forall>x. res_Error r = Some x \<longrightarrow> (\<exists>err. x = RawInner err))"
  using assms
proof (induction fs arbitrary: p)
  case Nil
  show ?case
    by (cases e) (auto simp: raw_emit_def raw_ok_def)
next
  case (Cons f fs)
  show ?case
  proof (cases "Type f = FrameANS \<and> trim_crlf (Payload f) \<noteq> []")
    case True
    let ?r = "raw_result I (raw_bestEffort p) (raw_internal p) (trim_crlf (Payload f))"
    obtain i where i: "processANS I f p = Some (raw_emit ?r (p\<lparr>raw_internal := i\<rparr>))" "like (raw_internal p) i"
      using processANS_result [of p f] Cons.prems True by metis
    let ?q = "raw_emit ?r (p\<lparr>raw_internal := i\<rparr>)"
    have q: "raw_internal ?q = i" "raw_bestEffort ?q = raw_bestEffort p" "raw_emitted ?q = raw_emitted p @ [?r]"
      by (simp_all add: raw_emit_def)
    obtain p' rs where "raw_frames I fs e ?q = Some p'" "raw_emitted p' = raw_emitted p @ ?r # rs"
      "\<forall>r\<in>set rs. raw_ok (raw_bestEffort p) r"
      "\<forall>r\<in>set (butlast rs). \<forall>x. res_Error r = Some x \<longrightarrow> (\<exists>err. x = RawInner err)"
      using Cons.IH [of ?q] likeD(1) [OF i(2)] unfolding q by auto
    moreover have "res_Error ?r = Some x \<Longrightarrow> \<exists>err. x = RawInner err" for x
      by (auto simp: raw_result_def split: option.splits)
    ultimately show ?thesis
      using True i(1) raw_result_ok [OF Cons.prems]
      by (intro exI [of _ p'] exI [of _ "?r # rs"]) (cases "rs = []"; auto)
  next
    case False
    show ?thesis
    proof (cases "Type f = FrameNUL \<or> Type f = FrameERR")
      case True
      then show ?thesis
        using False by (auto simp: raw_emit_def raw_ok_def frame_types)
    next
      case no: False
      then have "raw_frames I (f # fs) e p = raw_frames I fs e p"
        using False by (auto simp: processANS_def)
      then show ?thesis
        using Cons.IH [of p] Cons.prems by simp
    qed
  qed
qed

lemma Parse_any:
  fixes p :: "('opt, 'm, 'msg, 'err, 'e) raw_parser"
  assumes "wf (raw_internal p)"
  shows "\<exists>p' rs. raw_Parse I r fin p = Some p' \<and> raw_emitted p' = raw_emitted p @ rs \<and>
    (\<forall>r\<in>set rs. raw_ok (raw_bestEffort p) r) \<and>
    (\<forall>r\<in>set (butlast rs). \<forall>x. res_Error r = Some x \<longrightarrow> (\<exists>err. x = RawInner err))"
  using raw_frames_any [OF assms] by (simp add: raw_Parse_def raw_loop_frames split: prod.split)

text \<open>The frames that have arrived whole are delivered, whatever follows them.\<close>

lemma Parse_delivers:
  fixes p :: "('opt, 'm, 'msg, 'err, 'e) raw_parser"
  assumes "wf (raw_internal p)"
    and "\<forall>f\<in>set fs. frame_ok (raw_limit p) f \<and> Type f \<noteq> FrameNUL \<and> Type f \<noteq> FrameERR"
  shows "\<exists>p' rs. raw_Parse I (concat (map frame_text fs) @ r) fin p = Some p' \<and>
    raw_emitted p' = raw_emitted p @ map (raw_result I (raw_bestEffort p) (raw_internal p)) (raw_payloads fs) @ rs"
proof -
  have "\<forall>f\<in>set fs. frame_ok (raw_limit p) f"
    using assms(2) by simp
  from raw_Parse_texts [OF this, of I r fin] obtain gs e where
    all: "raw_Parse I (concat (map frame_text fs) @ r) fin p = raw_frames I (fs @ gs) e p"
    by blast
  let ?q = "\<lambda>i. p\<lparr>raw_internal := i, raw_emitted := raw_emitted p @
      map (raw_result I (raw_bestEffort p) (raw_internal p)) (raw_payloads fs)\<rparr>"
  obtain i where i: "like (raw_internal p) i" "raw_frames I (fs @ gs) e p = raw_frames I gs e (?q i)"
    using raw_frames_append [OF assms(1)] assms(2) by blast
  obtain p' rs where "raw_frames I gs e (?q i) = Some p'" "raw_emitted p' = raw_emitted (?q i) @ rs"
    using raw_frames_any [of "?q i" gs e] likeD(1) [OF i(1)] assms(1) by auto
  then show ?thesis
    using i(2) by (auto simp: all)
qed

end

end
