(* ===== verification/RFC3195_RFC5424.thy ===== *)
theory RFC3195_RFC5424
  imports RFC3195_Raw RFC5424_Text
begin

text \<open>rfc3195/raw.go, \<open>NewParser\<close>: the RAW profile around the RFC 5424 machine.\<close>

section \<open>The constructor\<close>

type_synonym 'e raw5424_parser =
  "(RFC5424_Machine.machine \<Rightarrow> RFC5424_Machine.machine, RFC5424_Machine.machine, SyslogMessage, perror, 'e)
    raw_parser"

definition raw5424_zero :: "'e raw5424_parser" where
  "raw5424_zero = \<lparr>raw_bestEffort = False, raw_maxMessageLength = 0, raw_internal = NewMachine [],
     raw_internalOpts = [], raw_emitted = []\<rparr>"

definition raw_NewParser :: "('e raw5424_parser \<Rightarrow> 'e raw5424_parser) list \<Rightarrow> 'e raw5424_parser" where
  "raw_NewParser opts =
     (let p = fold (\<lambda>opt p. opt p) opts raw5424_zero;
          p = (if raw_bestEffort p
               then p\<lparr>raw_internalOpts := raw_internalOpts p @ [RFC5424_Parser.WithBestEffort]\<rparr> else p)
      in p\<lparr>raw_internal := NewMachine (raw_internalOpts p)\<rparr>)"

section \<open>Results\<close>

interpretation raw5424: raw_stream machine_methods "\<lambda>_. True"
  by unfold_locales

text \<open>
  On a stream of frames that a NUL frame ends, the parser of the RAW profile emits for every ANS
  frame, in order, what the RFC 5424 machine answers to its payload without the line end; an answer
  with an error has no message unless the parser is in best-effort mode. Other frames and empty
  payloads are skipped, and nothing behind the NUL frame is read.
\<close>

theorem raw_exchange_correct:
  fixes p :: "'e raw5424_parser"
  assumes "\<forall>f\<in>set fs. frame_ok (raw_limit p) f \<and> Type f \<noteq> FrameNUL \<and> Type f \<noteq> FrameERR"
    and "frame_ok (raw_limit p) n" "Type n = FrameNUL"
  shows "\<exists>p'. raw_Parse machine_methods (concat (map frame_text fs) @ frame_text n @ r) fin p = Some p' \<and>
    raw_emitted p' = raw_emitted p @
      map (raw_result machine_methods (raw_bestEffort p) (raw_internal p)) (raw_payloads fs)"
  by (rule raw5424.Parse_exchange [OF TrueI assms])

text \<open>The payload of a message is its text and a line end.\<close>

lemma raw_payloads_texts:
  assumes "map Payload (filter (\<lambda>f. Type f = FrameANS) fs) = map (\<lambda>sm. message_text sm @ [13, 10]) sms"
    and "\<forall>sm\<in>set sms. message_wf sm"
  shows "raw_payloads fs = map message_text sms"
proof -
  have "raw_payloads fs = filter (\<lambda>x. x \<noteq> []) (map trim_crlf (map Payload (filter (\<lambda>f. Type f = FrameANS) fs)))"
    by (simp add: raw_payloads_def comp_def)
  also have "\<dots> = filter (\<lambda>x. x \<noteq> []) (map message_text sms)"
    unfolding assms(1) by (simp add: trim_crlf_def comp_def)
  also have "\<dots> = map message_text sms"
    using assms(2) message_text_answer(2) [of _ "NewMachine []"]
    by (simp add: NewMachine_def machine_zero_def filter_id_conv)
  finally show ?thesis .
qed

text \<open>What the parser makes of the text of a message.\<close>

lemma raw_message_result:
  fixes p :: "'e raw5424_parser"
  assumes "\<forall>sm\<in>set sms. message_wf sm \<and> (m_compliantMsg (raw_internal p) \<longrightarrow> message_compliant sm)"
  shows "map (raw_result machine_methods (raw_bestEffort p) (raw_internal p)) (map message_text sms) =
    map (\<lambda>sm. (\<lparr>res_Message = Some sm, res_Error = None\<rparr> :: (SyslogMessage, (perror, 'e) raw_error) Result)) sms"
  using assms message_text_answer(1) [of _ "raw_internal p"] by (auto simp: raw_result_def)

text \<open>
  C21: From message to message over the RAW profile. A stream is frames up to a NUL frame, with no ERR
  and no other NUL frame among them and no payload beyond the limit in force, the one that is set or 2 MB. Its
  ANS frames carry the texts of well-formed messages, each with CR LF after it (compliant messages, if
  the machine wants them); MSG, RPY and SEQ frames may stand between them. Then the parser emits
  exactly these messages, in order and without an error, whatever follows the NUL frame.
\<close>

theorem raw_roundtrip:
  fixes p :: "'e raw5424_parser"
  assumes "\<forall>f\<in>set fs. frame_ok (raw_limit p) f \<and> Type f \<noteq> FrameNUL \<and> Type f \<noteq> FrameERR"
    and "frame_ok (raw_limit p) n" "Type n = FrameNUL"
    and "map Payload (filter (\<lambda>f. Type f = FrameANS) fs) = map (\<lambda>sm. message_text sm @ [13, 10]) sms"
    and "\<forall>sm\<in>set sms. message_wf sm \<and> (m_compliantMsg (raw_internal p) \<longrightarrow> message_compliant sm)"
  shows "\<exists>p'. raw_Parse machine_methods (concat (map frame_text fs) @ frame_text n @ r) fin p = Some p' \<and>
    raw_emitted p' = raw_emitted p @ map (\<lambda>sm. \<lparr>res_Message = Some sm, res_Error = None\<rparr>) sms"
proof -
  have wf: "\<forall>sm\<in>set sms. message_wf sm"
    using assms(5) by simp
  show ?thesis
    using raw5424.Parse_exchange [OF TrueI assms(1-3), where r = r and fin = fin]
    unfolding raw_payloads_texts [OF assms(4) wf] raw_message_result [OF assms(5)] .
qed

text \<open>
  C22: What has arrived is delivered, whatever follows. A stream starts with whole frames, none of them NUL
  or ERR and no payload beyond the limit in force, whose ANS frames carry the texts of well-formed messages, each with
  CR LF after it (compliant messages, if the machine wants them). Then the parser emits these messages first, in
  order and without an error, whatever comes behind these frames: more frames, NUL and ERR frames
  included, bytes that are no frame, a frame that stops in its middle, or a read error.
\<close>

theorem raw_delivers:
  fixes p :: "'e raw5424_parser"
  assumes "\<forall>f\<in>set fs. frame_ok (raw_limit p) f \<and> Type f \<noteq> FrameNUL \<and> Type f \<noteq> FrameERR"
    and "map Payload (filter (\<lambda>f. Type f = FrameANS) fs) = map (\<lambda>sm. message_text sm @ [13, 10]) sms"
    and "\<forall>sm\<in>set sms. message_wf sm \<and> (m_compliantMsg (raw_internal p) \<longrightarrow> message_compliant sm)"
  shows "\<exists>p' rs. raw_Parse machine_methods (concat (map frame_text fs) @ r) fin p = Some p' \<and>
    raw_emitted p' = raw_emitted p @ map (\<lambda>sm. \<lparr>res_Message = Some sm, res_Error = None\<rparr>) sms @ rs"
proof -
  have wf: "\<forall>sm\<in>set sms. message_wf sm"
    using assms(3) by simp
  show ?thesis
    using raw5424.Parse_delivers [OF TrueI assms(1), where r = r and fin = fin]
    unfolding raw_payloads_texts [OF assms(2) wf] raw_message_result [OF assms(3)] .
qed

text \<open>
  C23: The parser of the RAW profile never panics and always ends, whatever bytes the stream holds and
  however it ends. Every result it emits has a message or an error, outside best-effort mode not
  both; errors of the framing come last.
\<close>

theorem raw_any_stream:
  fixes p :: "'e raw5424_parser"
  shows "\<exists>p' rs. raw_Parse machine_methods r fin p = Some p' \<and> raw_emitted p' = raw_emitted p @ rs \<and>
    (\<forall>x\<in>set rs. (res_Message x \<noteq> None \<or> res_Error x \<noteq> None) \<and>
      (raw_bestEffort p \<or> res_Message x = None \<or> res_Error x = None)) \<and>
    (\<forall>x\<in>set (butlast rs). res_Error x = None \<or> (\<exists>e. res_Error x = Some (RawInner e)))"
proof -
  have answers: "answer machine_methods m x \<noteq> Some (None, None)" for m x
    using machine5424.answer_some [OF TrueI] by fastforce
  have ok: "raw5424.raw_ok be x \<Longrightarrow> (res_Message x \<noteq> None \<or> res_Error x \<noteq> None) \<and>
      (be \<or> res_Message x = None \<or> res_Error x = None)"
    for be and x :: "(SyslogMessage, (perror, 'e) raw_error) Result"
    by (auto simp: raw5424.raw_ok_def answers)
  obtain p' rs where rs: "raw_Parse machine_methods r fin p = Some p'" "raw_emitted p' = raw_emitted p @ rs"
    "\<forall>x\<in>set rs. raw5424.raw_ok (raw_bestEffort p) x"
    "\<forall>x\<in>set (butlast rs). \<forall>y. res_Error x = Some y \<longrightarrow> (\<exists>err. y = RawInner err)"
    using raw5424.Parse_any [OF TrueI, where p = p and r = r and fin = fin] by blast
  have "\<forall>x\<in>set rs. (res_Message x \<noteq> None \<or> res_Error x \<noteq> None) \<and>
      (raw_bestEffort p \<or> res_Message x = None \<or> res_Error x = None)"
    by (rule ballI) (rule ok [OF bspec [OF rs(3)]])
  moreover have "\<forall>x\<in>set (butlast rs). res_Error x = None \<or> (\<exists>e. res_Error x = Some (RawInner e))"
    using rs(4) by (metis not_None_eq)
  ultimately show ?thesis
    using rs(1,2) by blast
qed

section \<open>The properties at work\<close>

text \<open>A message in an ANS frame after a SEQ frame, and the NUL frame that ends the exchange.\<close>

definition sample_frames :: "Frame list" where
  "sample_frames = [Frame_zero\<lparr>Type := FrameSEQ, Channel := 1, Window := 4096\<rparr>,
     Frame_zero\<lparr>Type := FrameANS, Channel := 1, Size := 56, Payload := message_text sample_message @ [13, 10]\<rparr>]"

definition sample_nul_frame :: Frame where
  "sample_nul_frame = Frame_zero\<lparr>Type := FrameNUL, Channel := 1\<rparr>"

lemma sample_frames_ok:
  "\<forall>f\<in>set sample_frames. frame_ok DefaultMaxPayloadSize f \<and> Type f \<noteq> FrameNUL \<and> Type f \<noteq> FrameERR"
  "frame_ok DefaultMaxPayloadSize sample_nul_frame" "Type sample_nul_frame = FrameNUL"
  "map Payload (filter (\<lambda>f. Type f = FrameANS) sample_frames) = [message_text sample_message @ [13, 10]]"
  "raw_payloads sample_frames = [message_text sample_message]"
  using sample_message_text(2) message_text_answer(2) [OF sample_message_wf, of "NewMachine []"]
  by (auto simp: sample_frames_def sample_nul_frame_def frame_ok_def Frame_zero_def frame_types is31_def
      maxInt31_def within_limit_def DefaultMaxPayloadSize_def raw_payloads_def trim_crlf_def
      NewMachine_def machine_zero_def)

definition sample_raw :: "unit raw5424_parser" where
  "sample_raw = raw_NewParser []"

lemma sample_raw_fields:
  "raw_limit sample_raw = DefaultMaxPayloadSize" "raw_emitted sample_raw = []"
  "\<not> m_compliantMsg (raw_internal sample_raw)"
  by (simp_all add: sample_raw_def raw_NewParser_def raw5424_zero_def raw_limit_def NewMachine_def
      machine_zero_def)

theorem raw_exchange_correct_witness:
  "\<exists>p'. raw_Parse machine_methods (concat (map frame_text sample_frames) @ frame_text sample_nul_frame @
      lit ''and so on'') None sample_raw = Some p' \<and>
    raw_emitted p' = [raw_result machine_methods (raw_bestEffort sample_raw) (raw_internal sample_raw)
      (message_text sample_message)]"
  using raw_exchange_correct [where fs = sample_frames and p = sample_raw and n = sample_nul_frame]
    sample_frames_ok sample_raw_fields by simp

theorem raw_roundtrip_witness:
  "\<exists>p'. raw_Parse machine_methods (concat (map frame_text sample_frames) @ frame_text sample_nul_frame @
      lit ''and so on'') None sample_raw = Some p' \<and>
    raw_emitted p' = [\<lparr>res_Message = Some sample_message, res_Error = None\<rparr>]"
  using raw_roundtrip [where fs = sample_frames and p = sample_raw and n = sample_nul_frame and sms = "[sample_message]"]
    sample_frames_ok sample_raw_fields sample_message_wf by simp

text \<open>The stream breaks off in the next header.\<close>

theorem raw_delivers_witness:
  "\<exists>p' rs. raw_Parse machine_methods (concat (map frame_text sample_frames) @ lit ''ANS 1'') (Some ()) sample_raw =
      Some p' \<and> raw_emitted p' = \<lparr>res_Message = Some sample_message, res_Error = None\<rparr> # rs"
  using raw_delivers [where fs = sample_frames and p = sample_raw and sms = "[sample_message]"]
    sample_frames_ok sample_raw_fields sample_message_wf by simp

text \<open>A stream that stops inside a header.\<close>

theorem raw_any_stream_witness:
  "\<exists>p' rs. raw_Parse machine_methods (lit ''ANS'') (Some ()) sample_raw = Some p' \<and> raw_emitted p' = rs \<and>
    (\<forall>x\<in>set rs. res_Message x \<noteq> None \<or> res_Error x \<noteq> None)"
  using raw_any_stream [where r = "lit ''ANS''" and fin = "Some ()" and p = sample_raw] sample_raw_fields by auto

section \<open>Where the parser departs from what is said of it\<close>

text \<open>No limit of its own is the limit of the scanner.\<close>

lemma default_limit:
  "raw_limit (raw_NewParser []) = DefaultMaxPayloadSize"
  "raw_limit (raw_NewParser [syslog_WithMaxMessageLength raw_parser_methods 0]) = DefaultMaxPayloadSize"
  by (simp_all add: raw_limit_def raw_NewParser_def raw5424_zero_def syslog_WithMaxMessageLength_def
      raw_parser_methods_def raw_WithMaxMessageLength_def)

text \<open>The continuation indicator makes no difference.\<close>

lemma raw_ignores_more: "raw_frames I (map (\<lambda>f. f\<lparr>More := b f\<rparr>) fs) e p = raw_frames I fs e p"
proof (induction fs arbitrary: p)
  case (Cons f fs)
  have "processANS I (f\<lparr>More := b f\<rparr>) p = processANS I f p"
    by (simp add: processANS_def)
  then show ?case
    using Cons by (simp split: option.split)
qed simp

text \<open>Best effort that only the machine knows of: its partial messages are dropped.\<close>

lemma raw_drops_partial:
  assumes "p = raw_NewParser [syslog_WithMachineOptions raw_parser_methods [RFC5424_Parser.WithBestEffort]]"
  shows "m_bestEffort (raw_internal p)" "\<not> raw_HasBestEffort p"
    "res_Error (raw_result machine_methods (raw_bestEffort p) (raw_internal p) x) = Some err \<Longrightarrow>
      res_Message (raw_result machine_methods (raw_bestEffort p) (raw_internal p) x) = None"
  by (auto simp: assms raw_NewParser_def raw5424_zero_def syslog_WithMachineOptions_def raw_parser_methods_def
      raw_WithMachineOptions_def raw_HasBestEffort_def NewMachine_def RFC5424_Parser.WithBestEffort_def
      machine_WithBestEffort_def raw_result_def split: option.splits)

end
