(* ===== verification/RFC3195_RFC3164.thy ===== *)
theory RFC3195_RFC3164
  imports RFC3195_Raw RFC3164_Parser RFC3164_Edge
begin

text \<open>rfc3195/raw.go, \<open>NewParserRFC3164\<close>: the RAW profile around the RFC 3164 machine.\<close>

section \<open>The constructor\<close>

type_synonym 'e raw3164_parser =
  "(RFC3164_Machine.machine \<Rightarrow> RFC3164_Machine.machine, RFC3164_Machine.machine, SyslogMessage, perror, 'e)
    raw_parser"

definition raw3164_zero :: "'e raw3164_parser" where
  "raw3164_zero = \<lparr>raw_bestEffort = False, raw_maxMessageLength = 0, raw_internal = NewMachine [],
     raw_internalOpts = [], raw_emitted = []\<rparr>"

definition raw_NewParserRFC3164 :: "('e raw3164_parser \<Rightarrow> 'e raw3164_parser) list \<Rightarrow> 'e raw3164_parser" where
  "raw_NewParserRFC3164 opts =
     (let p = fold (\<lambda>opt p. opt p) opts raw3164_zero;
          p = (if raw_bestEffort p
               then p\<lparr>raw_internalOpts := raw_internalOpts p @ [RFC3164_Machine.WithBestEffort]\<rparr> else p)
      in p\<lparr>raw_internal := NewMachine (raw_internalOpts p)\<rparr>)"

section \<open>Results\<close>

interpretation raw3164: raw_stream machine_methods "\<lambda>_. True"
  by unfold_locales

text \<open>
  Well-formed RFC 3164 messages in the ANS frames of an exchange come back as their fields, in
  order and without an error, whatever frames of other types stand between them.
\<close>

theorem raw3164_correct:
  fixes p :: "'e raw3164_parser"
  assumes "\<forall>f\<in>set fs. frame_ok (raw_limit p) f \<and> Type f \<noteq> FrameNUL \<and> Type f \<noteq> FrameERR"
    and "frame_ok (raw_limit p) n" "Type n = FrameNUL" "raw_payloads fs = map wellformed_text gs"
    and "\<forall>g\<in>set gs. wellformed_ok (m_newline (raw_internal p)) g \<and> (f_zero g \<longrightarrow> m_lenientDay (raw_internal p))"
    and "\<not> m_ciscoHostname (raw_internal p)"
  shows "\<exists>p'. raw_Parse machine_methods (concat (map frame_text fs) @ frame_text n @ r) fin p = Some p' \<and>
    raw_emitted p' = raw_emitted p @
      map (\<lambda>g. \<lparr>res_Message = Some (parsed (raw_internal p) g), res_Error = None\<rparr>) gs"
proof -
  have "(raw_result machine_methods (raw_bestEffort p) (raw_internal p) (wellformed_text g) ::
      (SyslogMessage, (perror, 'e) raw_error) Result) =
      \<lparr>res_Message = Some (parsed (raw_internal p) g), res_Error = None\<rparr>" if "g \<in> set gs" for g
    using Parse_wellformed [of "raw_internal p" g] assms(5,6) that by (auto simp: raw_result_def answer_def)
  then show ?thesis
    using raw3164.Parse_exchange [OF TrueI assms(1-3), where r = r and fin = fin] assms(4)
    by (simp cong: map_cong)
qed

section \<open>The properties at work\<close>

definition sample_legacy_frame :: Frame where
  "sample_legacy_frame =
     Frame_zero\<lparr>Type := FrameANS, Channel := 1, Size := 47, Payload := wellformed_text sample_fields @ [13, 10]\<rparr>"

definition sample_raw3164 :: "unit raw3164_parser" where
  "sample_raw3164 = raw_NewParserRFC3164 []"

lemma sample_raw3164_fields:
  "raw_limit sample_raw3164 = DefaultMaxPayloadSize" "raw_emitted sample_raw3164 = []"
  "raw_internal sample_raw3164 = NewMachine []"
  by (simp_all add: sample_raw3164_def raw_NewParserRFC3164_def raw3164_zero_def raw_limit_def)

theorem raw3164_correct_witness:
  "\<exists>p'. raw_Parse machine_methods (frame_text sample_legacy_frame @
      frame_text (Frame_zero\<lparr>Type := FrameNUL\<rparr>)) None sample_raw3164 = Some p' \<and>
    map res_Message (raw_emitted p') = [Some (parsed (NewMachine []) sample_fields)]"
proof -
  have f: "frame_ok DefaultMaxPayloadSize sample_legacy_frame" "Type sample_legacy_frame = FrameANS"
      "frame_ok DefaultMaxPayloadSize (Frame_zero\<lparr>Type := FrameNUL\<rparr>)"
    using sample_fields_text(2)
    by (simp_all add: sample_legacy_frame_def frame_ok_def Frame_zero_def frame_types is31_def
        maxInt31_def within_limit_def DefaultMaxPayloadSize_def)
  have "raw_payloads [sample_legacy_frame] = [wellformed_text sample_fields]"
    by (simp add: raw_payloads_def sample_legacy_frame_def trim_crlf_def) (simp add: wellformed_text_def)
  moreover have "\<not> f_zero sample_fields"
    by (simp add: sample_fields_def)
  ultimately show ?thesis
    using raw3164_correct [where fs = "[sample_legacy_frame]" and p = sample_raw3164 and gs = "[sample_fields]"
        and n = "Frame_zero\<lparr>Type := FrameNUL\<rparr>" and r = "[]" and fin = None]
      f sample_raw3164_fields sample_fields_ok by (auto simp: frame_types)
qed

end
