(* ===== verification/RFC3195_Cooked.thy ===== *)
theory RFC3195_Cooked
  imports RFC3195_Scan Parser_Options Syslog GoStamp
begin

text \<open>
  rfc3195/cooked.go and rfc3195/cooked_message.go: the parser of the COOKED profile. Syslog messages
  arrive as XML elements; \<open>xml.Unmarshal\<close> into the struct \<open>xmlEntry\<close> is a parameter of the
  definitions (the decoder of package encoding/xml is not modelled), and every lemma holds for any
  such function.
\<close>

section \<open>Messages and entries\<close>

record CookedMessage = Base +
  DeviceFQDN :: "bytes option"
  DeviceIP :: "bytes option"
  PathID :: "bytes option"

definition CookedMessage_zero :: CookedMessage where
  "CookedMessage_zero = Base.extend Base_zero \<lparr>DeviceFQDN = None, DeviceIP = None, PathID = None\<rparr>"

record xmlEntry =
  x_Local :: bytes
  x_Facility :: bytes
  x_Severity :: bytes
  x_Timestamp :: bytes
  x_Tag :: bytes
  x_DeviceFQDN :: bytes
  x_DeviceIP :: bytes
  x_PathID :: bytes
  x_Content :: bytes

datatype ('x, 'e) cooked_error =
    CookedScan "'e frame_error"
  | CookedERR bytes
  | CookedXML 'x
  | CookedFacility bytes
  | CookedSeverity bytes
  | CookedTimestamp bytes time_error

text \<open>What the parser hands out, in order: results, and elements that are no entries.\<close>

datatype ('x, 'e) cooked_event =
    Emit "(CookedMessage, ('x, 'e) cooked_error) Result"
  | RawElement bytes bytes

section \<open>The parser\<close>

text \<open>\<open>c_rawEmit\<close> tells whether a listener for raw elements is set.\<close>

record ('x, 'e) cookedParser =
  c_bestEffort :: bool
  c_maxMessageLength :: goint
  c_rawEmit :: bool
  c_year :: goint
  c_timezone :: "location option"
  c_events :: "('x, 'e) cooked_event list"

definition cooked_zero :: "('x, 'e) cookedParser" where
  "cooked_zero = \<lparr>c_bestEffort = False, c_maxMessageLength = 0, c_rawEmit = False, c_year = 0,
     c_timezone = None, c_events = []\<rparr>"

definition WithRawElementListener :: "bool \<Rightarrow> ('x, 'e) cookedParser \<Rightarrow> ('x, 'e) cookedParser" where
  "WithRawElementListener f p = p\<lparr>c_rawEmit := f\<rparr>"

definition WithCookedYear :: "goint \<Rightarrow> ('x, 'e) cookedParser \<Rightarrow> ('x, 'e) cookedParser" where
  "WithCookedYear year p = (if sint year > 0 then p\<lparr>c_year := year\<rparr> else p)"

definition WithCookedTimezone :: "location option \<Rightarrow> ('x, 'e) cookedParser \<Rightarrow> ('x, 'e) cookedParser" where
  "WithCookedTimezone loc p = p\<lparr>c_timezone := loc\<rparr>"

definition NewCookedParser ::
    "(('x, 'e) cookedParser \<Rightarrow> ('x, 'e) cookedParser) list \<Rightarrow> ('x, 'e) cookedParser" where
  "NewCookedParser opts = fold (\<lambda>opt p. opt p) opts cooked_zero"

definition cooked_WithBestEffort :: "('x, 'e) cookedParser \<Rightarrow> ('x, 'e) cookedParser" where
  "cooked_WithBestEffort p = p\<lparr>c_bestEffort := True\<rparr>"

definition cooked_HasBestEffort :: "('x, 'e) cookedParser \<Rightarrow> bool" where
  "cooked_HasBestEffort p = c_bestEffort p"

definition cooked_WithMachineOptions :: "'opt list \<Rightarrow> ('x, 'e) cookedParser \<Rightarrow> ('x, 'e) cookedParser" where
  "cooked_WithMachineOptions opts p = p"

definition cooked_WithMaxMessageLength :: "goint \<Rightarrow> ('x, 'e) cookedParser \<Rightarrow> ('x, 'e) cookedParser" where
  "cooked_WithMaxMessageLength len p = p\<lparr>c_maxMessageLength := len\<rparr>"

definition cooked_parser_methods :: "(('x, 'e) cookedParser, 'opt) Parser" where
  "cooked_parser_methods =
     \<lparr>enable_BestEffort = cooked_WithBestEffort, add_MachineOptions = cooked_WithMachineOptions,
      set_MaxMessageLength = cooked_WithMaxMessageLength, configurer = None\<rparr>"

interpretation cooked_options: configurable cooked_parser_methods c_bestEffort
  by unfold_locales
    (auto simp: cooked_parser_methods_def cooked_WithBestEffort_def cooked_WithMachineOptions_def
      cooked_WithMaxMessageLength_def)

definition cooked_emit ::
    "(CookedMessage, ('x, 'e) cooked_error) Result \<Rightarrow> ('x, 'e) cookedParser \<Rightarrow> ('x, 'e) cookedParser" where
  "cooked_emit r p = p\<lparr>c_events := c_events p @ [Emit r]\<rparr>"

definition emitError ::
    "('x, 'e) cooked_error \<Rightarrow> CookedMessage \<Rightarrow> ('x, 'e) cookedParser \<Rightarrow> ('x, 'e) cookedParser" where
  "emitError err partial p =
     (if c_bestEffort p then cooked_emit \<lparr>res_Message = Some partial, res_Error = Some err\<rparr> p
      else cooked_emit \<lparr>res_Message = None, res_Error = Some err\<rparr> p)"

section \<open>Entries\<close>

text \<open>\<open>strconv.Atoi\<close>: an optional sign and digits, in the range of a 64-bit int; \<open>None\<close> is an error.\<close>

definition Atoi :: "bytes \<Rightarrow> int option" where
  "Atoi s =
     (let neg = (s \<noteq> [] \<and> hd s = 45);
          ds = (if s \<noteq> [] \<and> (hd s = 45 \<or> hd s = 43) then tl s else s);
          v = (if neg then - int (dec_value ds 0) else int (dec_value ds 0))
      in if ds = [] \<or> \<not> list_all is_digit ds \<or> v < - (2 ^ 63) \<or> v \<ge> 2 ^ 63 then None else Some v)"

definition entry_time :: "('x, 'e) cookedParser \<Rightarrow> bytes \<Rightarrow> time_error + gotime" where
  "entry_time p text =
     (case (case c_timezone p of
              Some loc \<Rightarrow> time_ParseInLocation_Stamp text loc
            | None \<Rightarrow> time_Parse_Stamp text) of
        Inl e \<Rightarrow> Inl e
      | Inr t \<Rightarrow> Inr (if sint (c_year p) > 0 then time_Date (t\<lparr>t_year := sint (c_year p)\<rparr>) else t))"

definition entry_fields :: "xmlEntry \<Rightarrow> CookedMessage \<Rightarrow> CookedMessage" where
  "entry_fields entry msg =
     (let msg = (if x_Tag entry \<noteq> [] then msg\<lparr>Appname := Some (x_Tag entry)\<rparr> else msg);
          msg = (if x_DeviceFQDN entry \<noteq> []
            then msg\<lparr>Hostname := Some (x_DeviceFQDN entry), DeviceFQDN := Some (x_DeviceFQDN entry)\<rparr> else msg);
          msg = (if x_DeviceIP entry \<noteq> []
            then (let msg = msg\<lparr>DeviceIP := Some (x_DeviceIP entry)\<rparr> in
                  if Hostname msg = None then msg\<lparr>Hostname := Some (x_DeviceIP entry)\<rparr> else msg)
            else msg);
          msg = (if x_PathID entry \<noteq> [] then msg\<lparr>PathID := Some (x_PathID entry)\<rparr> else msg)
      in (if x_Content entry \<noteq> [] then msg\<lparr>Message := Some (x_Content entry)\<rparr> else msg))"

definition processEntry :: "xmlEntry \<Rightarrow> ('x, 'e) cookedParser \<Rightarrow> ('x, 'e) cookedParser" where
  "processEntry entry p =
     (let msg = CookedMessage_zero in
      case Atoi (x_Facility entry) of
        None \<Rightarrow> emitError (CookedFacility (x_Facility entry)) msg p
      | Some fac \<Rightarrow>
      if fac < 0 \<or> fac > 255 then emitError (CookedFacility (x_Facility entry)) msg p
      else (case Atoi (x_Severity entry) of
        None \<Rightarrow> emitError (CookedSeverity (x_Severity entry)) msg p
      | Some sev \<Rightarrow>
      if sev < 0 \<or> sev > 9 then emitError (CookedSeverity (x_Severity entry)) msg p
      else
        let facU8 = word_of_int fac; sevU8 = word_of_int sev;
            msg = msg\<lparr>Facility := Some facU8, Severity := Some sevU8\<rparr>;
            msg = (if fac \<le> 23 \<and> sev \<le> 7 then msg\<lparr>Priority := Some (facU8 * 8 + sevU8)\<rparr> else msg)
        in if x_Timestamp entry \<noteq> [] then
             (case entry_time p (x_Timestamp entry) of
                Inl e \<Rightarrow> emitError (CookedTimestamp (x_Timestamp entry) e) msg p
              | Inr t \<Rightarrow> cooked_emit \<lparr>res_Message = Some (entry_fields entry (msg\<lparr>Timestamp := Some t\<rparr>)),
                  res_Error = None\<rparr> p)
           else cooked_emit \<lparr>res_Message = Some (entry_fields entry msg), res_Error = None\<rparr> p))"

definition processPayload ::
    "(bytes \<Rightarrow> 'x + xmlEntry) \<Rightarrow> bytes \<Rightarrow> ('x, 'e) cookedParser \<Rightarrow> ('x, 'e) cookedParser" where
  "processPayload unmarshal payload p =
     (if length payload = 0 then p
      else (case unmarshal payload of
        Inl e \<Rightarrow> cooked_emit \<lparr>res_Message = None, res_Error = Some (CookedXML e)\<rparr> p
      | Inr entry \<Rightarrow>
          if x_Local entry = lit ''entry'' then processEntry entry p
          else if x_Local entry \<in> {lit ''iam'', lit ''path'', lit ''ok''}
          then (if c_rawEmit p then p\<lparr>c_events := c_events p @ [RawElement (x_Local entry) payload]\<rparr> else p)
          else p))"

section \<open>Parse\<close>

function cooked_loop ::
    "(bytes \<Rightarrow> 'x + xmlEntry) \<Rightarrow> 'e Scanner \<Rightarrow> ('x, 'e) cookedParser \<Rightarrow> ('x, 'e) cookedParser" where
  "cooked_loop unmarshal s p =
     (case Scan s of
        (s', Inl EndOfFrames) \<Rightarrow> p
      | (s', Inl (Bad e)) \<Rightarrow> cooked_emit \<lparr>res_Message = None, res_Error = Some (CookedScan e)\<rparr> p
      | (s', Inr frame) \<Rightarrow>
          if Type frame = FrameANS \<or> Type frame = FrameMSG
          then cooked_loop unmarshal s' (processPayload unmarshal (Payload frame) p)
          else if Type frame = FrameNUL then p
          else if Type frame = FrameERR
          then cooked_emit \<lparr>res_Message = None, res_Error = Some (CookedERR (Payload frame))\<rparr> p
          else cooked_loop unmarshal s' p)"
  by pat_completeness auto
termination
  by (relation "measure (\<lambda>(_, s, _). length (sc_rest s))")
    (auto dest!: Scan_ok [OF sym] simp: advanced_length)

declare cooked_loop.simps [simp del]

definition cooked_Parse ::
    "(bytes \<Rightarrow> 'x + xmlEntry) \<Rightarrow> bytes \<Rightarrow> 'e option \<Rightarrow> ('x, 'e) cookedParser \<Rightarrow> ('x, 'e) cookedParser" where
  "cooked_Parse unmarshal r fin p =
     (let scanOpts = (if sint (c_maxMessageLength p) > 0
        then [WithMaxPayloadSize (c_maxMessageLength p)] else [])
      in cooked_loop unmarshal (NewScanner r fin scanOpts) p)"


text \<open>The loop as a recursion over all the frames.\<close>

fun cooked_frames ::
    "(bytes \<Rightarrow> 'x + xmlEntry) \<Rightarrow> Frame list \<Rightarrow> 'e scan_error \<Rightarrow> ('x, 'e) cookedParser \<Rightarrow>
     ('x, 'e) cookedParser" where
  "cooked_frames unmarshal [] e p =
     (case e of EndOfFrames \<Rightarrow> p
      | Bad x \<Rightarrow> cooked_emit \<lparr>res_Message = None, res_Error = Some (CookedScan x)\<rparr> p)"
| "cooked_frames unmarshal (f # fs) e p =
     (if Type f = FrameANS \<or> Type f = FrameMSG
      then cooked_frames unmarshal fs e (processPayload unmarshal (Payload f) p)
      else if Type f = FrameNUL then p
      else if Type f = FrameERR
      then cooked_emit \<lparr>res_Message = None, res_Error = Some (CookedERR (Payload f))\<rparr> p
      else cooked_frames unmarshal fs e p)"

lemma cooked_loop_frames:
  fixes p :: "('x, 'e) cookedParser"
  shows "cooked_loop unmarshal s p = (case scan_all s of (fs, e) \<Rightarrow> cooked_frames unmarshal fs e p)"
proof (induction s arbitrary: p rule: scan_all.induct)
  case (1 s)
  obtain s' r where S: "Scan s = (s', r)"
    by fastforce
  show ?case
  proof (cases r)
    case (Inl e)
    then show ?thesis
      by (cases e) (simp_all add: S cooked_loop.simps [of unmarshal s] scan_all.simps [of s])
  next
    case (Inr f)
    obtain fs e where fs: "scan_all s' = (fs, e)"
      by fastforce
    have "cooked_loop unmarshal s' q = cooked_frames unmarshal fs e q" for q :: "('x, 'e) cookedParser"
      using "1.IH" [OF S [unfolded Inr, symmetric] refl, of q] fs by simp
    then show ?thesis
      by (simp add: S Inr fs cooked_loop.simps [of unmarshal s] scan_all.simps [of s])
  qed
qed

section \<open>What the parser hands out\<close>

text \<open>Calls add events and change nothing else.\<close>

definition adds :: "('x, 'e) cooked_event list \<Rightarrow> ('x, 'e) cookedParser \<Rightarrow> ('x, 'e) cookedParser" where
  "adds es p = p\<lparr>c_events := c_events p @ es\<rparr>"

lemma adds_simps [simp]:
  "c_bestEffort (adds es p) = c_bestEffort p" "c_rawEmit (adds es p) = c_rawEmit p"
  "c_events (adds es p) = c_events p @ es" "adds fs (adds es p) = adds (es @ fs) p" "adds [] p = p"
  by (simp_all add: adds_def)

lemma cooked_emit_adds: "cooked_emit r p = adds [Emit r] p"
  by (simp add: cooked_emit_def adds_def)

text \<open>
  A message that is handed out without an error: the ranges of the DTD, a priority exactly when it can
  encode them, and a hostname that is the name of the device or its address.
\<close>

definition cooked_ok :: "CookedMessage \<Rightarrow> bool" where
  "cooked_ok msg \<longleftrightarrow>
     (\<exists>fac sev. Facility msg = Some fac \<and> Severity msg = Some sev \<and> unat sev \<le> 9 \<and>
        (case Priority msg of
           None \<Rightarrow> 23 < unat fac \<or> 7 < unat sev
         | Some pri \<Rightarrow> unat pri \<le> 191 \<and> unat pri = unat fac * 8 + unat sev \<and> unat sev \<le> 7)) \<and>
     Hostname msg = (if DeviceFQDN msg \<noteq> None then DeviceFQDN msg else DeviceIP msg) \<and>
     MessageCounter msg = None \<and> Sequence msg = None \<and> ProcID msg = None \<and> MsgID msg = None"

definition event_ok :: "('x, 'e) cookedParser \<Rightarrow> ('x, 'e) cooked_event \<Rightarrow> bool" where
  "event_ok p e \<longleftrightarrow>
     (case e of
        Emit r \<Rightarrow>
          (if res_Error r = None then (\<exists>msg. res_Message r = Some msg \<and> cooked_ok msg)
           else c_bestEffort p \<or> res_Message r = None)
      | RawElement name x \<Rightarrow> c_rawEmit p \<and> x \<noteq> [] \<and> name \<in> {lit ''iam'', lit ''path'', lit ''ok''})"

lemma event_ok_adds [simp]: "event_ok (adds es p) = event_ok p"
  by (rule ext) (simp add: event_ok_def split: cooked_event.split)

lemma emitError_event: "\<exists>e. emitError err msg p = adds [e] p \<and> event_ok p e"
  by (cases "c_bestEffort p") (auto simp: emitError_def cooked_emit_adds event_ok_def)

text \<open>Facility, severity and priority of an entry that passes the checks.\<close>

definition graded :: "int \<Rightarrow> int \<Rightarrow> CookedMessage" where
  "graded fac sev =
     (let msg = CookedMessage_zero\<lparr>Facility := Some (word_of_int fac), Severity := Some (word_of_int sev)\<rparr> in
      if fac \<le> 23 \<and> sev \<le> 7 then msg\<lparr>Priority := Some (word_of_int fac * 8 + word_of_int sev)\<rparr> else msg)"

lemma unat_small: "0 \<le> n \<Longrightarrow> n \<le> 255 \<Longrightarrow> unat (word_of_int n :: byte) = nat n"
  by (simp add: unat_eq_nat_uint uint_word_of_int)

lemma graded_ok:
  assumes "0 \<le> fac" "fac \<le> 255" "0 \<le> sev" "sev \<le> 9"
  shows "cooked_ok (entry_fields entry (graded fac sev))"
    "cooked_ok (entry_fields entry (graded fac sev\<lparr>Timestamp := t\<rparr>))"
proof -
  have "word_of_int fac * 8 + word_of_int sev = (word_of_int (fac * 8 + sev) :: byte)"
    by simp
  moreover have "fac \<le> 23 \<and> sev \<le> 7 \<Longrightarrow> unat (word_of_int (fac * 8 + sev) :: byte) = nat (fac * 8 + sev)"
    using assms by (intro unat_small) simp_all
  ultimately show "cooked_ok (entry_fields entry (graded fac sev))"
    "cooked_ok (entry_fields entry (graded fac sev\<lparr>Timestamp := t\<rparr>))"
    using assms unat_small [of fac] unat_small [of sev]
    by (auto simp: cooked_ok_def entry_fields_def graded_def CookedMessage_zero_def Base_zero_def
        Base.extend_def Let_def nat_add_distrib nat_mult_distrib)
qed

lemma processEntry_graded:
  assumes "Atoi (x_Facility entry) = Some fac" "0 \<le> fac" "fac \<le> 255"
    and "Atoi (x_Severity entry) = Some sev" "0 \<le> sev" "sev \<le> 9"
  shows "processEntry entry p =
    (if x_Timestamp entry = []
     then adds [Emit \<lparr>res_Message = Some (entry_fields entry (graded fac sev)), res_Error = None\<rparr>] p
     else (case entry_time p (x_Timestamp entry) of
        Inl e \<Rightarrow> emitError (CookedTimestamp (x_Timestamp entry) e) (graded fac sev) p
      | Inr t \<Rightarrow> adds [Emit \<lparr>res_Message = Some (entry_fields entry (graded fac sev\<lparr>Timestamp := Some t\<rparr>)),
          res_Error = None\<rparr>] p))"
  using assms by (simp add: processEntry_def graded_def cooked_emit_adds Let_def split: sum.split)

lemma processEntry_event: "\<exists>e. processEntry entry p = adds [e] p \<and> event_ok p e"
proof (cases "\<exists>fac sev. Atoi (x_Facility entry) = Some fac \<and> 0 \<le> fac \<and> fac \<le> 255 \<and>
    Atoi (x_Severity entry) = Some sev \<and> 0 \<le> sev \<and> sev \<le> 9")
  case True
  then obtain fac sev where g: "Atoi (x_Facility entry) = Some fac" "0 \<le> fac" "fac \<le> 255"
    "Atoi (x_Severity entry) = Some sev" "0 \<le> sev" "sev \<le> 9"
    by blast
  have message: "event_ok p (Emit \<lparr>res_Message = Some msg, res_Error = None\<rparr>)" if "cooked_ok msg" for msg
    using that by (simp add: event_ok_def)
  show ?thesis
    unfolding processEntry_graded [OF g]
    using message [OF graded_ok(1) [OF g(2,3,5,6)]] message [OF graded_ok(2) [OF g(2,3,5,6)]]
      emitError_event [of _ "graded fac sev" p]
    by (cases "entry_time p (x_Timestamp entry)") auto
next
  case False
  then have "processEntry entry p = emitError (CookedFacility (x_Facility entry)) CookedMessage_zero p \<or>
      processEntry entry p = emitError (CookedSeverity (x_Severity entry)) CookedMessage_zero p"
    by (auto simp: processEntry_def Let_def not_le split: option.split)
  then show ?thesis
    using emitError_event by metis
qed

lemma processPayload_events:
  "\<exists>es. processPayload unmarshal x p = adds es p \<and> (\<forall>e\<in>set es. event_ok p e)"
proof -
  have none: "\<exists>es. p = adds es p \<and> (\<forall>e\<in>set es. event_ok p e)"
    by (intro exI [of _ "[]"]) simp
  have one: "event_ok p e \<Longrightarrow> \<exists>es. adds [e] p = adds es p \<and> (\<forall>e\<in>set es. event_ok p e)" for e
    by (intro exI [of _ "[e]"]) simp
  show ?thesis
  proof (cases "x = []")
    case True
    then show ?thesis
      using none by (simp add: processPayload_def)
  next
    case False
    show ?thesis
    proof (cases "unmarshal x")
      case (Inl e)
      have "event_ok p (Emit \<lparr>res_Message = None, res_Error = Some (CookedXML e)\<rparr>)"
        by (simp add: event_ok_def)
      from one [OF this] show ?thesis
        using False Inl by (simp add: processPayload_def cooked_emit_adds)
    next
      case (Inr entry)
      consider (entry) "x_Local entry = lit ''entry''"
        | (meta) "x_Local entry \<noteq> lit ''entry''" "x_Local entry \<in> {lit ''iam'', lit ''path'', lit ''ok''}" "c_rawEmit p"
        | (skip) "x_Local entry \<noteq> lit ''entry''"
            "x_Local entry \<notin> {lit ''iam'', lit ''path'', lit ''ok''} \<or> \<not> c_rawEmit p"
        by blast
      then show ?thesis
      proof cases
        case entry
        then show ?thesis
          using one processEntry_event [of entry p] False Inr by (auto simp: processPayload_def)
      next
        case meta
        then have "event_ok p (RawElement (x_Local entry) x)"
          using False by (simp add: event_ok_def)
        from one [OF this] show ?thesis
          using meta False Inr by (simp add: processPayload_def adds_def)
      next
        case skip
        then have "processPayload unmarshal x p = p"
          using False Inr unfolding processPayload_def by (simp only: length_0_conv sum.case if_False) auto
        then show ?thesis
          using none by simp
      qed
    qed
  qed
qed

lemma cooked_frames_events:
  "\<exists>es. cooked_frames unmarshal fs e p = adds es p \<and> (\<forall>e\<in>set es. event_ok p e)"
proof (induction fs arbitrary: p)
  case Nil
  have "p = adds [] p"
    by simp
  then show ?case
    by (cases e) (auto simp: cooked_emit_adds event_ok_def intro: exI [of _ "[]"] exI [of _ "[_]"])
next
  case (Cons f fs)
  consider (payload) "Type f = FrameANS \<or> Type f = FrameMSG" | (nul) "Type f = FrameNUL"
    | (err) "Type f = FrameERR" | (other) "Type f \<notin> {FrameANS, FrameMSG, FrameNUL, FrameERR}"
    by blast
  then show ?case
  proof cases
    case payload
    obtain es where es: "processPayload unmarshal (Payload f) p = adds es p" "\<forall>e\<in>set es. event_ok p e"
      using processPayload_events by blast
    obtain gs where "cooked_frames unmarshal fs e (adds es p) = adds gs (adds es p)" "\<forall>e\<in>set gs. event_ok p e"
      using Cons.IH [of "adds es p"] by auto
    then show ?thesis
      using payload es by (intro exI [of _ "es @ gs"]) auto
  next
    case nul
    then show ?thesis
      by (intro exI [of _ "[]"]) (simp add: frame_types)
  next
    case err
    then show ?thesis
      by (intro exI [of _ "[_]"]) (auto simp: cooked_emit_adds event_ok_def frame_types)
  next
    case other
    then show ?thesis
      using Cons.IH [of p] by simp
  qed
qed

lemma cooked_Parse_events:
  "\<exists>es. cooked_Parse unmarshal r fin p = adds es p \<and> (\<forall>e\<in>set es. event_ok p e)"
proof -
  let ?s = "NewScanner r fin
    (if sint (c_maxMessageLength p) > 0 then [WithMaxPayloadSize (c_maxMessageLength p)] else [])"
  obtain fs e where "scan_all ?s = (fs, e)"
    by fastforce
  then have "cooked_Parse unmarshal r fin p = cooked_frames unmarshal fs e p"
    by (simp add: cooked_Parse_def cooked_loop_frames)
  then show ?thesis
    using cooked_frames_events [of unmarshal fs e p] by simp
qed

end
