(* ===== verification/RFC3195_Entries.thy ===== *)
theory RFC3195_Entries
  imports RFC3195_Cooked RFC3164_Stamp
begin

text \<open>
  What the parser of the COOKED profile promises: nothing but well-formed events on any stream, and
  for entries that follow the DTD exactly the messages they stand for.
\<close>

section \<open>Any stream\<close>

text \<open>
  C25: Whatever the stream holds, however it ends and whatever the XML decoder answers, the parser of the
  COOKED profile ends and does nothing but hand out events, each of them well-formed: a result without
  an error has a message whose facility, severity and priority are consistent and whose hostname is the
  device's name or else its address; a result with an error has a message only in best-effort mode; and
  raw elements are the metadata of a session, handed out only to a listener.
\<close>

theorem cooked_stream_ok:
  "\<exists>es. cooked_Parse unmarshal r fin p = p\<lparr>c_events := c_events p @ es\<rparr> \<and> list_all (event_ok p) es"
  using cooked_Parse_events [of unmarshal r fin p] unfolding adds_def list_all_iff .

text \<open>
  A message that is handed out need not be \<open>Valid\<close>: it is exactly within the ranges of a syslog
  priority, as the comment on \<open>CookedMessage\<close> says.
\<close>

lemma cooked_valid:
  assumes "cooked_ok msg"
  shows "Valid msg \<longleftrightarrow> unat (the (Facility msg)) \<le> 23 \<and> unat (the (Severity msg)) \<le> 7"
  using assms by (cases "Priority msg") (auto simp: cooked_ok_def Valid_def ValidPriority_iff)

section \<open>Entries by the DTD\<close>

abbreviation given :: "bytes \<Rightarrow> bytes option" where
  "given x \<equiv> (if x = [] then None else Some x)"

text \<open>The instant a Stamp stands for, in the time zone and the year of the parser's options.\<close>

definition placed :: "('x, 'e) cookedParser \<Rightarrow> gotime \<Rightarrow> gotime" where
  "placed p t =
     (let t = (case c_timezone p of None \<Rightarrow> t | Some loc \<Rightarrow> date_in loc t) in
      if sint (c_year p) > 0 then time_Date (t\<lparr>t_year := sint (c_year p)\<rparr>) else t)"

text \<open>
  The entry stands for the message: decimal numbers in the ranges of the DTD, no timestamp or a Stamp,
  and the other attributes as they are, an empty one for an absent one.
\<close>

definition entry_stands_for :: "('x, 'e) cookedParser \<Rightarrow> xmlEntry \<Rightarrow> CookedMessage \<Rightarrow> bool" where
  "entry_stands_for p entry msg \<longleftrightarrow>
     x_Local entry = lit ''entry'' \<and>
     (\<exists>fac sev. fac \<le> 255 \<and> sev \<le> 9 \<and> x_Facility entry = dec_string fac \<and> x_Severity entry = dec_string sev \<and>
        Facility msg = Some (of_nat fac) \<and> Severity msg = Some (of_nat sev) \<and>
        Priority msg = (if fac \<le> 23 \<and> sev \<le> 7 then Some (of_nat (fac * 8 + sev)) else None)) \<and>
     (case Timestamp msg of
        None \<Rightarrow> x_Timestamp entry = []
      | Some t \<Rightarrow> \<exists>z mo d h mi s. stamp_ok mo d h mi s \<and> x_Timestamp entry = stamp_text z mo d h mi s \<and>
          t = placed p (stamp_civil mo d h mi s)) \<and>
     Hostname msg = given (if x_DeviceFQDN entry = [] then x_DeviceIP entry else x_DeviceFQDN entry) \<and>
     Appname msg = given (x_Tag entry) \<and> DeviceFQDN msg = given (x_DeviceFQDN entry) \<and>
     DeviceIP msg = given (x_DeviceIP entry) \<and> PathID msg = given (x_PathID entry) \<and>
     Message msg = given (x_Content entry) \<and> MessageCounter msg = None \<and> Sequence msg = None \<and>
     ProcID msg = None \<and> MsgID msg = None"

lemma placed_adds [simp]: "placed (adds es p) = placed p"
  by (rule ext) (simp add: placed_def adds_def Let_def)

lemma stands_for_adds [simp]: "entry_stands_for (adds es p) = entry_stands_for p"
  by (intro ext) (simp only: entry_stands_for_def placed_adds)

lemma Atoi_dec: "n < 2 ^ 63 \<Longrightarrow> Atoi (dec_string n) = Some (int n)"
proof -
  obtain b ds where "dec_string n = b # ds"
    using dec_string_digits [of n] by (cases "dec_string n") auto
  moreover have "b \<noteq> 45" "b \<noteq> 43"
    using dec_string_digits [of n] calculation by (auto simp: is_digit_def)
  ultimately show "n < 2 ^ 63 \<Longrightarrow> ?thesis"
    using dec_string_digits [of n] dec_string_value [of n] by (simp add: Atoi_def Let_def)
qed

lemma entry_time_stamp:
  "stamp_ok mo d h mi s \<Longrightarrow>
    entry_time p (stamp_text z mo d h mi s) = Inr (placed p (stamp_civil mo d h mi s))"
  by (simp add: entry_time_def placed_def time_ParseInLocation_Stamp_def time_Parse_stamp_text split: option.split)

lemma stamp_text_given: "stamp_text z mo d h mi s \<noteq> []" "[] \<noteq> stamp_text z mo d h mi s"
  by (simp_all add: stamp_text_def)

lemma graded_fields:
  "Facility (graded fac sev) = Some (word_of_int fac)" "Severity (graded fac sev) = Some (word_of_int sev)"
  "Priority (graded fac sev) =
    (if fac \<le> 23 \<and> sev \<le> 7 then Some (word_of_int fac * 8 + word_of_int sev) else None)"
  "Timestamp (graded fac sev) = None" "Hostname (graded fac sev) = None" "Appname (graded fac sev) = None"
  "ProcID (graded fac sev) = None" "MsgID (graded fac sev) = None" "Message (graded fac sev) = None"
  "MessageCounter (graded fac sev) = None" "Sequence (graded fac sev) = None"
  "DeviceFQDN (graded fac sev) = None" "DeviceIP (graded fac sev) = None" "PathID (graded fac sev) = None"
  by (simp_all add: graded_def CookedMessage_zero_def Base_zero_def Base.extend_def Let_def)

lemma entry_fields_graded:
  assumes "entry_stands_for p entry msg" "x_Facility entry = dec_string fac" "x_Severity entry = dec_string sev"
  shows "entry_fields entry (graded (int fac) (int sev)\<lparr>Timestamp := Timestamp msg\<rparr>) = msg"
proof -
  have same: "dec_string m = dec_string n \<longleftrightarrow> m = n" for m n
    by (metis dec_string_value)
  show ?thesis
    using assms
    by (cases msg) (auto simp: entry_stands_for_def entry_fields_def graded_fields same Let_def
        split: if_splits)
qed

lemma processEntry_stands:
  assumes "entry_stands_for p entry msg"
  shows "processEntry entry p = adds [Emit \<lparr>res_Message = Some msg, res_Error = None\<rparr>] p"
proof -
  obtain fac sev where n: "fac \<le> 255" "sev \<le> 9" "x_Facility entry = dec_string fac" "x_Severity entry = dec_string sev"
    using assms by (auto simp: entry_stands_for_def)
  have "processEntry entry p =
    (if x_Timestamp entry = []
     then adds [Emit \<lparr>res_Message = Some (entry_fields entry (graded (int fac) (int sev))), res_Error = None\<rparr>] p
     else (case entry_time p (x_Timestamp entry) of
        Inl e \<Rightarrow> emitError (CookedTimestamp (x_Timestamp entry) e) (graded (int fac) (int sev)) p
      | Inr t \<Rightarrow> adds [Emit \<lparr>res_Message = Some (entry_fields entry (graded (int fac) (int sev)\<lparr>Timestamp := Some t\<rparr>)),
          res_Error = None\<rparr>] p))"
    using n by (intro processEntry_graded) (simp_all add: Atoi_dec)
  moreover have "graded (int fac) (int sev)\<lparr>Timestamp := None\<rparr> = graded (int fac) (int sev)"
    using graded_fields(4) by (simp add: graded_def CookedMessage_zero_def Base_zero_def Base.extend_def Let_def)
  moreover have "case Timestamp msg of None \<Rightarrow> x_Timestamp entry = []
      | Some t \<Rightarrow> x_Timestamp entry \<noteq> [] \<and> entry_time p (x_Timestamp entry) = Inr t"
    using assms by (auto simp: entry_stands_for_def entry_time_stamp stamp_text_given split: option.split)
  ultimately show ?thesis
    using entry_fields_graded [OF assms n(3,4)] by (cases "Timestamp msg") simp_all
qed

section \<open>Payloads\<close>

text \<open>
  The result for an entry: the message it stands for, or an error for a facility, a severity or a
  timestamp that is none, with what is known of the message so far in best-effort mode.
\<close>

definition entry_gives ::
    "('x, 'e) cookedParser \<Rightarrow> xmlEntry \<Rightarrow> (CookedMessage, ('x, 'e) cooked_error) Result \<Rightarrow> bool" where
  "entry_gives p entry r \<longleftrightarrow>
     (\<exists>msg. entry_stands_for p entry msg \<and> r = \<lparr>res_Message = Some msg, res_Error = None\<rparr>) \<or>
     (\<forall>n. Atoi (x_Facility entry) = Some n \<longrightarrow> n < 0 \<or> n > 255) \<and>
       r = \<lparr>res_Message = (if c_bestEffort p then Some CookedMessage_zero else None),
         res_Error = Some (CookedFacility (x_Facility entry))\<rparr> \<or>
     (\<exists>fac\<le>255. x_Facility entry = dec_string fac) \<and>
       (\<forall>n. Atoi (x_Severity entry) = Some n \<longrightarrow> n < 0 \<or> n > 9) \<and>
       r = \<lparr>res_Message = (if c_bestEffort p then Some CookedMessage_zero else None),
         res_Error = Some (CookedSeverity (x_Severity entry))\<rparr> \<or>
     (\<exists>fac\<le>255. \<exists>sev\<le>9. \<exists>e. x_Facility entry = dec_string fac \<and> x_Severity entry = dec_string sev \<and>
       x_Timestamp entry \<noteq> [] \<and> entry_time p (x_Timestamp entry) = Inl e \<and>
       r = \<lparr>res_Message = (if c_bestEffort p then Some (graded (int fac) (int sev)) else None),
         res_Error = Some (CookedTimestamp (x_Timestamp entry) e)\<rparr>)"

text \<open>The events of a payload: what is no XML is an error, metadata goes to a listener, if there is one.\<close>

definition payload_gives ::
    "(bytes \<Rightarrow> 'x + xmlEntry) \<Rightarrow> ('x, 'e) cookedParser \<Rightarrow> bytes \<Rightarrow> ('x, 'e) cooked_event list \<Rightarrow> bool" where
  "payload_gives unmarshal p x es \<longleftrightarrow>
     (case unmarshal x of
        Inl e \<Rightarrow> es = [Emit \<lparr>res_Message = None, res_Error = Some (CookedXML e)\<rparr>]
      | Inr entry \<Rightarrow>
          if x_Local entry = lit ''entry'' then (\<exists>r. entry_gives p entry r \<and> es = [Emit r])
          else es = (if x_Local entry \<in> {lit ''iam'', lit ''path'', lit ''ok''} \<and> c_rawEmit p
            then [RawElement (x_Local entry) x] else []))"

lemma entry_time_adds [simp]: "entry_time (adds es p) = entry_time p"
  by (rule ext) (simp add: entry_time_def adds_def Let_def split: sum.split option.split)

lemma gives_adds [simp]: "payload_gives unmarshal (adds es p) = payload_gives unmarshal p"
  by (intro ext) (simp only: payload_gives_def entry_gives_def stands_for_adds entry_time_adds adds_simps)

lemma processEntry_rejects:
  assumes "\<forall>n. Atoi (x_Facility entry) = Some n \<longrightarrow> n < 0 \<or> n > 255"
  shows "processEntry entry p = emitError (CookedFacility (x_Facility entry)) CookedMessage_zero p"
  using assms by (auto simp: processEntry_def Let_def split: option.split)

lemma processEntry_rejects_severity:
  assumes "Atoi (x_Facility entry) = Some fac" "0 \<le> fac" "fac \<le> 255"
    and "\<forall>n. Atoi (x_Severity entry) = Some n \<longrightarrow> n < 0 \<or> n > 9"
  shows "processEntry entry p = emitError (CookedSeverity (x_Severity entry)) CookedMessage_zero p"
  using assms by (auto simp: processEntry_def Let_def split: option.split)

lemma emitError_adds:
  "emitError err msg p =
    adds [Emit \<lparr>res_Message = (if c_bestEffort p then Some msg else None), res_Error = Some err\<rparr>] p"
  by (simp add: emitError_def cooked_emit_adds)

lemma processEntry_gives:
  assumes "x_Local entry = lit ''entry''" "entry_gives p entry r"
  shows "processEntry entry p = adds [Emit r] p"
  using assms(2) unfolding entry_gives_def
proof (elim disjE exE conjE)
  fix msg
  assume "entry_stands_for p entry msg" "r = \<lparr>res_Message = Some msg, res_Error = None\<rparr>"
  then show ?thesis
    using processEntry_stands by simp
next
  fix fac sev e
  assume a: "fac \<le> (255 :: nat)" "sev \<le> (9 :: nat)" "x_Facility entry = dec_string fac" "x_Severity entry = dec_string sev"
    "x_Timestamp entry \<noteq> []" "entry_time p (x_Timestamp entry) = Inl e"
    "r = \<lparr>res_Message = (if c_bestEffort p then Some (graded (int fac) (int sev)) else None),
         res_Error = Some (CookedTimestamp (x_Timestamp entry) e)\<rparr>"
  show ?thesis
    using processEntry_graded [of entry "int fac" "int sev" p] a by (simp add: Atoi_dec emitError_adds)
qed (auto simp: processEntry_rejects emitError_adds Atoi_dec
    intro!: trans [OF processEntry_rejects_severity])

lemma processPayload_gives:
  "x \<noteq> [] \<Longrightarrow> payload_gives unmarshal p x es \<Longrightarrow> processPayload unmarshal x p = adds es p"
  by (auto simp: payload_gives_def processPayload_def cooked_emit_adds processEntry_gives adds_def
      split: sum.splits if_splits)

section \<open>Streams of frames\<close>

definition cooked_limit :: "('x, 'e) cookedParser \<Rightarrow> goint" where
  "cooked_limit p = (if sint (c_maxMessageLength p) > 0 then c_maxMessageLength p else DefaultMaxPayloadSize)"

text \<open>The payloads that are decoded: those of the ANS and MSG frames, if not empty.\<close>

definition cooked_payloads :: "Frame list \<Rightarrow> bytes list" where
  "cooked_payloads fs =
     filter (\<lambda>x. x \<noteq> []) (map Payload (filter (\<lambda>f. Type f = FrameANS \<or> Type f = FrameMSG) fs))"

lemma cooked_frames_append:
  fixes p :: "('x, 'e) cookedParser"
  assumes "\<forall>f\<in>set fs. Type f \<noteq> FrameNUL \<and> Type f \<noteq> FrameERR"
  shows "cooked_frames unmarshal (fs @ gs) e p =
    cooked_frames unmarshal gs e (fold (processPayload unmarshal) (cooked_payloads fs) p)"
  using assms
proof (induction fs arbitrary: p)
  case (Cons f fs)
  then show ?case
    by (auto simp: cooked_payloads_def processPayload_def)
qed (simp add: cooked_payloads_def)

lemma fold_payloads:
  fixes p :: "('x, 'e) cookedParser"
  assumes "list_all2 (payload_gives unmarshal p) xs ess" "\<forall>x\<in>set xs. x \<noteq> []"
  shows "fold (processPayload unmarshal) xs p = adds (concat ess) p"
  using assms
proof (induction xs arbitrary: p ess)
  case (Cons x xs)
  then obtain es fs where x: "ess = es # fs" "payload_gives unmarshal p x es"
    by (auto simp: list_all2_Cons1)
  have "fold (processPayload unmarshal) xs (adds es p) = adds (concat fs) (adds es p)"
    using Cons.IH [of "adds es p" fs] Cons.prems x(1) by simp
  then show ?case
    using processPayload_gives [OF _ x(2)] Cons.prems(2) x(1) by simp
qed simp

text \<open>
  C24: What the parser of the COOKED profile hands out on a stream of frames within its limit on
  payloads (2 MB, if no length is set) up to the first NUL or ERR frame, in the order of the frames.
  For every payload of an ANS or MSG frame that is not empty: the error of the XML decoder, if it is no
  XML; the metadata elements iam, path and ok as they came, if there is a listener for them; nothing for
  other elements; and for an entry with the numbers in plain decimals and the timestamp a Stamp or not
  given, as the DTD has them, exactly the message it stands for (facility and severity, the priority when
  it can encode them, the timestamp in the time zone and the year of the options, the hostname, and every
  attribute that is given). An entry with a facility, a severity or a timestamp that cannot be read is
  an error, with the partial message in best-effort mode only. (Not covered are entries whose numbers or
  timestamp the parser reads though they are not in these forms, as the facility 007.) An ERR frame is
  handed out as an error, and what follows the NUL or ERR frame does not matter.
\<close>

theorem cooked_entries_correct:
  fixes p :: "('x, 'e) cookedParser"
  assumes "\<forall>f\<in>set fs. frame_ok (cooked_limit p) f \<and> Type f \<noteq> FrameNUL \<and> Type f \<noteq> FrameERR"
    and "frame_ok (cooked_limit p) n" "Type n = FrameNUL \<or> Type n = FrameERR"
    and "list_all2 (payload_gives unmarshal p) (cooked_payloads fs) ess"
  shows "c_events (cooked_Parse unmarshal (concat (map frame_text fs) @ frame_text n @ r) fin p) =
    c_events p @ concat ess @
      (if Type n = FrameERR then [Emit \<lparr>res_Message = None, res_Error = Some (CookedERR (Payload n))\<rparr>] else [])"
proof -
  have "\<forall>f\<in>set (fs @ [n]). frame_ok (cooked_limit p) f"
    using assms(1,2) by simp
  then obtain gs e where all: "scan_all (NewScanner (concat (map frame_text fs) @ frame_text n @ r) fin
      (if sint (c_maxMessageLength p) > 0 then [WithMaxPayloadSize (c_maxMessageLength p)] else [])) = (fs @ n # gs, e)"
    using scanner_texts [of "fs @ [n]" "c_maxMessageLength p" r fin] unfolding cooked_limit_def by auto
  have "\<forall>x\<in>set (cooked_payloads fs). x \<noteq> []"
    by (simp add: cooked_payloads_def)
  from fold_payloads [OF assms(4) this] show ?thesis
    using assms(1,3)
    by (auto simp: cooked_Parse_def cooked_loop_frames all cooked_frames_append frame_types cooked_emit_adds)
qed

section \<open>The properties at work\<close>

text \<open>
  An entry whose facility has no priority, a metadata element and a payload that is no XML, and what
  the decoder of package encoding/xml makes of the three.
\<close>

definition sample_payload :: bytes where
  "sample_payload = lit ''<entry facility=\"24\" severity=\"5\" timestamp=\"Oct 11 22:14:15\" tag=\"su\" deviceIP=\"10.0.0.1\">failed</entry>''"

definition sample_iam :: bytes where
  "sample_iam = lit ''<iam fqdn=\"h.example\" ip=\"10.0.0.1\" type=\"device\"/>''"

definition sample_garbage :: bytes where
  "sample_garbage = lit ''<entry''"

definition sample_entry :: xmlEntry where
  "sample_entry =
     \<lparr>x_Local = lit ''entry'', x_Facility = lit ''24'', x_Severity = lit ''5'',
      x_Timestamp = lit ''Oct 11 22:14:15'', x_Tag = lit ''su'', x_DeviceFQDN = [],
      x_DeviceIP = lit ''10.0.0.1'', x_PathID = [], x_Content = lit ''failed''\<rparr>"

definition sample_unmarshal :: "bytes \<Rightarrow> unit + xmlEntry" where
  "sample_unmarshal x =
     (if x = sample_payload then Inr sample_entry
      else if x = sample_iam
      then Inr \<lparr>x_Local = lit ''iam'', x_Facility = [], x_Severity = [], x_Timestamp = [], x_Tag = [],
        x_DeviceFQDN = [], x_DeviceIP = [], x_PathID = [], x_Content = []\<rparr>
      else Inl ())"

lemma sample_entry_texts:
  "lit ''24'' = dec_string 24" "lit ''5'' = dec_string 5" "lit ''0'' = dec_string 0"
  "lit ''Oct 11 22:14:15'' = stamp_text False 10 11 22 14 15"
  by (simp_all add: dec_string.simps dig_def stamp_text_def day_text_def pad2_def month_names_def)

definition sample_cooked :: CookedMessage where
  "sample_cooked = Base.extend
     (Base_zero\<lparr>Facility := Some 24, Severity := Some 5,
       Timestamp := Some (stamp_civil 10 11 22 14 15\<lparr>t_year := 2024\<rparr>), Hostname := Some (lit ''10.0.0.1''),
       Appname := Some (lit ''su''), Message := Some (lit ''failed'')\<rparr>)
     \<lparr>DeviceFQDN = None, DeviceIP = Some (lit ''10.0.0.1''), PathID = None\<rparr>"

definition sample_parser :: "(unit, unit) cookedParser" where
  "sample_parser = NewCookedParser [WithCookedYear 2024, WithRawElementListener True]"

definition sample_ans_frames :: "Frame list" where
  "sample_ans_frames = map (\<lambda>x. Frame_zero\<lparr>Type := FrameANS, Channel := 1, Size := of_nat (length x), Payload := x\<rparr>)
     [sample_iam, sample_payload, sample_garbage]"

definition sample_end_frame :: Frame where
  "sample_end_frame = Frame_zero\<lparr>Type := FrameNUL, Channel := 1\<rparr>"

lemma sample_parser_fields [simp]:
  "c_events sample_parser = []" "c_year sample_parser = 2024" "c_timezone sample_parser = None"
  "c_rawEmit sample_parser"
  "cooked_limit sample_parser = DefaultMaxPayloadSize"
  by (simp_all add: sample_parser_def NewCookedParser_def WithCookedYear_def WithRawElementListener_def
      cooked_zero_def cooked_limit_def)

lemma sample_stands_for: "entry_stands_for sample_parser sample_entry sample_cooked"
proof -
  have "placed sample_parser (stamp_civil 10 11 22 14 15) = stamp_civil 10 11 22 14 15\<lparr>t_year := 2024\<rparr>"
    by (simp add: placed_def time_Date_def next_month_day_def stamp_civil_def daysIn_def)
  moreover have "stamp_ok 10 11 22 14 15"
    by (simp add: stamp_ok_def daysIn_def)
  ultimately have "\<exists>z mo d h mi s. stamp_ok mo d h mi s \<and> x_Timestamp sample_entry = stamp_text z mo d h mi s \<and>
      stamp_civil 10 11 22 14 15\<lparr>t_year := 2024\<rparr> = placed sample_parser (stamp_civil mo d h mi s)"
    by (intro exI [of _ False] exI [of _ 10] exI [of _ 11] exI [of _ 22] exI [of _ 14] exI [of _ 15])
      (simp add: sample_entry_def flip: sample_entry_texts)
  moreover have "\<exists>fac sev. fac \<le> 255 \<and> sev \<le> 9 \<and> x_Facility sample_entry = dec_string fac \<and>
      x_Severity sample_entry = dec_string sev \<and> Some 24 = Some (of_nat fac :: byte) \<and>
      Some 5 = Some (of_nat sev :: byte) \<and>
      None = (if fac \<le> 23 \<and> sev \<le> 7 then Some (of_nat (fac * 8 + sev) :: byte) else None)"
    by (intro exI [of _ 24] exI [of _ 5]) (simp add: sample_entry_def flip: sample_entry_texts)
  ultimately show ?thesis
    by (simp add: entry_stands_for_def sample_cooked_def Base_zero_def Base.extend_def)
      (simp add: sample_entry_def)
qed

lemma sample_ans_frames_ok:
  "\<forall>f\<in>set sample_ans_frames. frame_ok DefaultMaxPayloadSize f \<and> Type f \<noteq> FrameNUL \<and> Type f \<noteq> FrameERR"
  "frame_ok DefaultMaxPayloadSize sample_end_frame" "Type sample_end_frame = FrameNUL"
  "cooked_payloads sample_ans_frames = [sample_iam, sample_payload, sample_garbage]"
  by (simp_all add: sample_ans_frames_def sample_end_frame_def sample_payload_def sample_iam_def
      sample_garbage_def frame_ok_def Frame_zero_def frame_types is31_def maxInt31_def within_limit_def
      DefaultMaxPayloadSize_def cooked_payloads_def)

lemma sample_gives:
  "payload_gives sample_unmarshal sample_parser sample_iam [RawElement (lit ''iam'') sample_iam]"
  "payload_gives sample_unmarshal sample_parser sample_payload
    [Emit \<lparr>res_Message = Some sample_cooked, res_Error = None\<rparr>]"
  "payload_gives sample_unmarshal sample_parser sample_garbage
    [Emit \<lparr>res_Message = None, res_Error = Some (CookedXML ())\<rparr>]"
proof -
  have "sample_iam \<noteq> sample_payload" "sample_garbage \<noteq> sample_payload" "sample_garbage \<noteq> sample_iam"
    by (simp_all add: sample_iam_def sample_payload_def sample_garbage_def)
  then have u: "sample_unmarshal sample_payload = Inr sample_entry" "sample_unmarshal sample_garbage = Inl ()"
    "sample_unmarshal sample_iam = Inr \<lparr>x_Local = lit ''iam'', x_Facility = [], x_Severity = [],
      x_Timestamp = [], x_Tag = [], x_DeviceFQDN = [], x_DeviceIP = [], x_PathID = [], x_Content = []\<rparr>"
    by (simp_all add: sample_unmarshal_def)
  have "x_Local sample_entry = lit ''entry''"
    by (simp add: sample_entry_def)
  then show "payload_gives sample_unmarshal sample_parser sample_iam [RawElement (lit ''iam'') sample_iam]"
    "payload_gives sample_unmarshal sample_parser sample_payload
      [Emit \<lparr>res_Message = Some sample_cooked, res_Error = None\<rparr>]"
    "payload_gives sample_unmarshal sample_parser sample_garbage
      [Emit \<lparr>res_Message = None, res_Error = Some (CookedXML ())\<rparr>]"
    using sample_stands_for by (auto simp: payload_gives_def entry_gives_def u)
qed

theorem cooked_entries_correct_witness:
  "c_events (cooked_Parse sample_unmarshal
      (concat (map frame_text sample_ans_frames) @ frame_text sample_end_frame @ lit ''and so on'') None
      sample_parser) =
    [RawElement (lit ''iam'') sample_iam, Emit \<lparr>res_Message = Some sample_cooked, res_Error = None\<rparr>,
     Emit \<lparr>res_Message = None, res_Error = Some (CookedXML ())\<rparr>]"
  using cooked_entries_correct [where fs = sample_ans_frames and n = sample_end_frame and p = sample_parser
      and unmarshal = sample_unmarshal and fin = None and r = "lit ''and so on''" and ess =
        "[[RawElement (lit ''iam'') sample_iam], [Emit \<lparr>res_Message = Some sample_cooked, res_Error = None\<rparr>],
          [Emit \<lparr>res_Message = None, res_Error = Some (CookedXML ())\<rparr>]]"]
    sample_ans_frames_ok sample_gives by (simp add: frame_types)

text \<open>\<open>strconv.Atoi\<close> reads more than the digits of the DTD: a sign, and any number of zeros.\<close>

theorem facility_beyond_dtd:
  "processEntry (sample_entry\<lparr>x_Facility := lit ''-0000''\<rparr>) p =
    processEntry (sample_entry\<lparr>x_Facility := lit ''0''\<rparr>) p"
proof -
  have "Atoi (lit ''-0000'') = Some 0" "Atoi (lit ''0'') = Some 0" "Atoi (x_Severity sample_entry) = Some 5"
    by (simp_all add: Atoi_def is_digit_def sample_entry_def)
  moreover have "entry_fields (sample_entry\<lparr>x_Facility := f\<rparr>) msg = entry_fields sample_entry msg" for f msg
    by (simp add: entry_fields_def Let_def)
  ultimately show ?thesis
    by (simp add: processEntry_graded [where fac = 0 and sev = 5] split: sum.split)
qed

end
