(* ===== verification/Constructors.thy ===== *)
theory Constructors
  imports OctetCounting_RFC5424 OctetCounting_RFC3164 NonTransparent_RFC5424 NonTransparent_RFC3164
    RFC3195_RFC5424 RFC3195_RFC3164 RFC3195_Cooked Transport_Options
begin

text \<open>
  The constructors of all the transports, on options that a caller builds with the functions of
  package syslog and package auto: what the contracts of the options give for each of them.
\<close>

section \<open>The inner machines\<close>

lemma machine_options_best_effort:
  "RFC5424_Machine.m_bestEffort (RFC5424_Machine.NewMachine (os @ [RFC5424_Parser.WithBestEffort]))"
  "RFC3164_Machine.m_bestEffort (RFC3164_Machine.NewMachine (ps @ [RFC3164_Machine.WithBestEffort]))"
  "RFC3164_Machine.m_bestEffort (RFC3164_Machine.NewMachine
    (ps @ [RFC3164_Machine.WithBestEffort, RFC3164_Machine.WithEmbeddedNewlines]))"
  "RFC3164_Machine.m_bestEffort (RFC3164_Machine.NewMachine (ps @ [RFC3164_Machine.WithEmbeddedNewlines])) =
    RFC3164_Machine.m_bestEffort (RFC3164_Machine.NewMachine ps)"
  by (simp_all add: RFC5424_Machine.NewMachine_def RFC3164_Machine.NewMachine_def
      RFC5424_Parser.WithBestEffort_def RFC5424_Machine.machine_WithBestEffort_def
      RFC3164_Machine.WithBestEffort_def RFC3164_Machine.machine_WithBestEffort_def
      RFC3164_Machine.WithEmbeddedNewlines_def RFC3164_Machine.machine_WithEmbeddedNewlines_def)

lemmas modes = machine_options_best_effort OctetCounting.HasBestEffort_def NonTransparent.HasBestEffort_def
  RFC5424_Machine.machine_HasBestEffort_def RFC3164_Machine.machine_HasBestEffort_def

section \<open>Best effort\<close>

text \<open>The transports that ask their machine.\<close>

lemma octet5424_best_effort:
  "OctetCounting.HasBestEffort RFC5424_Parser.machine_methods (octet_NewParser (map (option_of octet_parser_methods) cs)) \<longleftrightarrow>
    BestEffort \<in> set cs \<or> RFC5424_Machine.m_bestEffort (RFC5424_Machine.NewMachine (machine_options cs))"
  by (simp add: octet_options.fold_flag octet_options.fold_collected octet_NewParser_def octet_zero_def Let_def modes)

lemma octet3164_best_effort:
  "OctetCounting.HasBestEffort RFC3164_Parser.machine_methods (octet_NewParserRFC3164 (map (option_of octet_parser_methods) cs)) \<longleftrightarrow>
    BestEffort \<in> set cs \<or> RFC3164_Machine.m_bestEffort (RFC3164_Machine.NewMachine (machine_options cs))"
  by (simp add: octet_options.fold_flag octet_options.fold_collected octet_NewParserRFC3164_def octet3164_zero_def Let_def modes)

lemma nt5424_best_effort:
  "NonTransparent.HasBestEffort RFC5424_Parser.machine_methods (nt_NewParser (map (option_of nt_parser_methods) cs)) \<longleftrightarrow>
    BestEffort \<in> set cs \<or> RFC5424_Machine.m_bestEffort (RFC5424_Machine.NewMachine (machine_options cs))"
  by (simp add: nt_options.fold_flag nt_options.fold_collected nt_NewParser_def nt_zero_def Let_def modes)

lemma nt3164_best_effort:
  "NonTransparent.HasBestEffort RFC3164_Parser.machine_methods (nt_NewParserRFC3164 (map (option_of nt_parser_methods) cs)) \<longleftrightarrow>
    BestEffort \<in> set cs \<or> RFC3164_Machine.m_bestEffort (RFC3164_Machine.NewMachine (machine_options cs))"
  by (simp add: nt_options.fold_flag nt_options.fold_collected nt_NewParserRFC3164_def nt3164_zero_def Let_def modes)

text \<open>The RAW profile asks its own flag; its machine may be in that mode all the same.\<close>

lemma raw5424_best_effort:
  "raw_HasBestEffort (raw_NewParser (map (option_of raw_parser_methods) cs)) \<longleftrightarrow> BestEffort \<in> set cs"
  by (simp add: raw_options.fold_flag raw_NewParser_def raw5424_zero_def Let_def raw_HasBestEffort_def)

lemma raw3164_best_effort:
  "raw_HasBestEffort (raw_NewParserRFC3164 (map (option_of raw_parser_methods) cs)) \<longleftrightarrow> BestEffort \<in> set cs"
  by (simp add: raw_options.fold_flag raw_NewParserRFC3164_def raw3164_zero_def Let_def raw_HasBestEffort_def)

text \<open>The parser of the COOKED profile has no machine.\<close>

lemma cooked_best_effort:
  "cooked_HasBestEffort (NewCookedParser (map (option_of cooked_parser_methods) cs)) \<longleftrightarrow> BestEffort \<in> set cs"
  by (simp add: cooked_options.fold_flag NewCookedParser_def cooked_zero_def cooked_HasBestEffort_def)

text \<open>
  C26: What \<open>HasBestEffort\<close> answers on a parser that a constructor makes with options of package syslog
  (all but \<open>WithListener\<close>, which sets no other field than the listener) and package auto, in any order. With octet counting and with non-transparent framing, around either
  machine, it is on exactly if \<open>syslog.WithBestEffort\<close> is one of the options, or if the machine is in
  best-effort mode by the options given to \<open>syslog.WithMachineOptions\<close>, all of them together. With the
  RAW profile around either machine, and with the COOKED profile, it is on exactly if
  \<open>syslog.WithBestEffort\<close> is one of the options.
\<close>

theorem constructors_best_effort:
  fixes cs :: "(RFC5424_Machine.machine \<Rightarrow> RFC5424_Machine.machine) option_call list"
    and ds :: "(RFC3164_Machine.machine \<Rightarrow> RFC3164_Machine.machine) option_call list"
  shows
    "(OctetCounting.HasBestEffort RFC5424_Parser.machine_methods
        (octet_NewParser (map (option_of octet_parser_methods) cs)) \<longleftrightarrow>
      BestEffort \<in> set cs \<or> RFC5424_Machine.m_bestEffort (RFC5424_Machine.NewMachine (machine_options cs))) \<and>
    (OctetCounting.HasBestEffort RFC3164_Parser.machine_methods
        (octet_NewParserRFC3164 (map (option_of octet_parser_methods) ds)) \<longleftrightarrow>
      BestEffort \<in> set ds \<or> RFC3164_Machine.m_bestEffort (RFC3164_Machine.NewMachine (machine_options ds))) \<and>
    (NonTransparent.HasBestEffort RFC5424_Parser.machine_methods
        (nt_NewParser (map (option_of nt_parser_methods) cs)) \<longleftrightarrow>
      BestEffort \<in> set cs \<or> RFC5424_Machine.m_bestEffort (RFC5424_Machine.NewMachine (machine_options cs))) \<and>
    (NonTransparent.HasBestEffort RFC3164_Parser.machine_methods
        (nt_NewParserRFC3164 (map (option_of nt_parser_methods) ds)) \<longleftrightarrow>
      BestEffort \<in> set ds \<or> RFC3164_Machine.m_bestEffort (RFC3164_Machine.NewMachine (machine_options ds))) \<and>
    (raw_HasBestEffort (raw_NewParser (map (option_of raw_parser_methods) cs)) \<longleftrightarrow> BestEffort \<in> set cs) \<and>
    (raw_HasBestEffort (raw_NewParserRFC3164 (map (option_of raw_parser_methods) ds)) \<longleftrightarrow> BestEffort \<in> set ds) \<and>
    (cooked_HasBestEffort (NewCookedParser (map (option_of cooked_parser_methods) cs)) \<longleftrightarrow> BestEffort \<in> set cs)"
  by (simp only: octet5424_best_effort octet3164_best_effort nt5424_best_effort nt3164_best_effort
      raw5424_best_effort raw3164_best_effort cooked_best_effort simp_thms)

end
