(* ===== verification/Spec2Isabelle.thy ===== *)
theory Spec2Isabelle
  imports NonTransparent_RFC5424 OctetCounting_RFC5424 NonTransparent_RFC3164 OctetCounting_RFC3164
    NonTransparent_Auto OctetCounting_Auto Transport_Options RFC3195_RFC5424 RFC3195_RFC3164
    RFC3195_Entries Constructors
begin

text \<open>
  go-syslog: parsers for syslog messages, and the transports that carry them.

  The program. A \<open>syslog.Machine\<close> (syslog.go) parses one message. Package rfc5424 has a machine that
  Ragel generates from a grammar (machine.go), a parser that wraps it with a mutex (parser.go) and a
  builder for messages (builder.go), whose setters run a second generated machine and whose \<open>String\<close>
  prints a message. Package rfc3164 has a generated machine for the older format (machine.go), with
  options for the year, the time zone and Cisco IOS (options.go, year.go, ciscoios/flags.go). Package
  auto detects the format of an input (detect.go) and tries both machines in tiers (machine.go).
  Four transports read a stream and hand every message to a machine: octetcounting (a length and a
  message each), nontransparent (messages that end with a trailer byte), and the RAW profile of
  rfc3195 (BEEP frames); the COOKED profile of rfc3195 reads XML entries from BEEP frames. They give
  the results to a listener.

  Foundations.

  \<^item> Prelude: bytes, byte classes, Go slices with their bound checks. Common: package common.
  \<^item> GoTime, GoStamp, GoDigits, Decimal, GoIO: what the code uses of Go's library (\<open>time.Parse\<close> at the
    layouts RFC3339Micro, RFC3339 and Stamp, \<open>time.Date\<close> and time zones, decimal numbers,
    \<open>strconv.ParseUint\<close>, \<open>bufio.Reader\<close> over a stream that ends for good).
  \<^item> Syslog: \<open>syslog.Base\<close>. Interfaces: \<open>syslog.Machine\<close> as a record of methods, \<open>syslog.Result\<close>,
    and the contracts between a machine and its clients: the locale \<open>syslog_machine\<close> (a call never
    panics and keeps the options) and \<open>answering_machine\<close> (it also gives a message or an error).
  \<^item> Parser_Options (options.go, auto/options.go), Transport_Options, Constructors: \<open>syslog.Parser\<close> as
    a record of methods, the options that call them, the locale \<open>configurable\<close> on the parser's own
    flag and its extension \<open>collecting\<close> on the options kept for the machine, interpreted on the
    transports, and which calls of the options put the parser of a constructor in best-effort mode.

  RFC 5424.

  \<^item> RFC5424_Message (syslog_message.go), RFC5424_Machine (machine.go): the states keep their numbers;
    a chain of states that counts the characters of a field is one clause. \<open>None\<close> is a panic. \<open>run\<close>
    terminates by a measure on the unread input.
  \<^item> RFC5424_Safety: the invariant of the machine, and that it never panics.
  \<^item> RFC5424_View, RFC5424_Spec, RFC5424_Sim, RFC5424_SD, RFC5424_Correct: a reference parser that reads
    the grammar by recursive descent, and the simulation that proves the machine equal to it.
  \<^item> RFC5424_Frame, RFC5424_Properties: what a call leaves alone, and what a caller may rely on.
  \<^item> RFC5424_Builder (builder.go): the setters against the grammar. \<open>StructuredData\<close> may point to a nil
    map and the map may hold nil maps; a write to one of them is a panic, and in a message
    that holds none the setters of elements and parameters do not panic and leave none behind.
  \<^item> RFC5424_Escape, RFC5424_String, RFC5424_RoundTrip: escaping and UTF-8, \<open>String\<close>, and that \<open>Parse\<close>
    inverts \<open>String\<close> on well-formed messages.
  \<^item> RFC5424_Parser (options.go, parser.go): the options, and both types as interpretations of
    \<open>answering_machine\<close>. RFC5424_Text: the answers to printed messages.

  RFC 3164.

  \<^item> RFC3164_Message (syslog_message.go), RFC3164_Machine (the struct, the options, the actions of the
    grammar), RFC3164_Header and RFC3164_Body (the transitions of all 1487 states, which keep their
    numbers; a transition is a list of actions and a state), RFC3164_Run (the step, the run, \<open>Parse\<close>).
  \<^item> RFC3164_Safety: the invariant that ties each state to the pointers and the message so far.
    RFC3164_Parse: no call panics, a machine can be reused, a message that is returned is valid.
  \<^item> RFC3164_Conf, RFC3164_Stamp, RFC3164_Correct, RFC3164_Edge: well-formed messages come back as
    their fields, and the inputs on which the answer surprises.
  \<^item> RFC3164_Parser (parser.go): both types as interpretations of \<open>syslog_machine\<close>; they are no
    \<open>answering_machine\<close>, since an answer may be neither a message nor an error.

  Detection.

  \<^item> Auto_Detect (format.go, detect.go): the classification, equal to a description without positions.
  \<^item> Auto_Machine (machine.go, options.go, errors.go), Auto_Answers, Auto_Contract, Auto_Properties: the
    tiers, that the machine answers with the first attempt that gives a message, the invariant that
    its constructor and \<open>WithBestEffort\<close> establish, and well-formed messages of both formats.

  Transports.

  \<^item> OctetCounting (tokens.go, scanner.go, parser.go), OctetCounting_Frames: the scanner and the
    parser; its loop terminates because a turn that goes on reads a length, a space and a message.
    The locales \<open>octet_stream\<close> and \<open>octet_answers\<close> have the results of a stream for any machine that
    meets the contract. OctetCounting_RFC5424, OctetCounting_RFC3164, OctetCounting_Auto: the three
    constructors and the interpretations.
  \<^item> NonTransparent (trailer_type.go, parser.go), NonTransparent_Lines with the locale \<open>line_stream\<close>,
    NonTransparent_RFC5424, NonTransparent_RFC3164, NonTransparent_Auto: the same for this transport.
  \<^item> RFC3195_Frame (frame.go), RFC3195_Scan: BEEP frames; a frame that is returned is well-formed, and
    well-formed frames are read back from their text. RFC3195_Raw (raw.go) with the locale
    \<open>raw_stream\<close>, RFC3195_RFC5424, RFC3195_RFC3164: the RAW profile. Its loop terminates because a
    scan that succeeds consumes input. RFC3195_Cooked (cooked.go, cooked_message.go),
    RFC3195_Entries: the COOKED profile.

  Choices of the model. Machine integers keep their width (\<open>goint\<close> is a 64-bit word). A Go pointer
  is an option, a map a finite map (an option of one, where a caller can put a nil map that the code
  writes to), and an error a datatype with one constructor per text and the
  values that the text is formatted with. A listener is the list of what was handed to it so far.
  The year of the option of RFC 3164 is an integer without a width. A nil slice and an empty one are one
  value, and an error of \<open>time.Parse\<close> is its cause, with a short text in place of Go's.
  There is no fuel anywhere: every loop is a terminating function.

  Parameters of the model. The driver of non-transparent framing (package ragel-machinery) is not in
  the repository: \<open>NonTransparent.Parse\<close> is a function of the calls that the driver makes. The pool of
  readers of octet counting is the size of the reader it hands out, if any. A time zone is its offset
  as a function of the instant, and the current year an argument of the year operators.
  \<open>xml.Unmarshal\<close> is a function from a payload to an entry or an error.

  Not modelled: the package testing, which makes random data for tests; the decoder of encoding/xml,
  the time zone database and the driver of package ragel-machinery, which are not in the repository;
  the texts of the errors of the transports beyond the values they are formatted with; the diagrams
  and the grammars, from which the code is generated.
\<close>

end
